(* ===== verification/Catena_Prelude.thy ===== *)
theory Catena_Prelude
  imports Main "HOL-Library.Word" "HOL-Library.AList" "HOL-Library.Sublist" "HOL-Library.Signed_Division"
begin

text \<open>
  Shared vocabulary of the development: the machine integer types of the sources, the result
  type that carries C++ exceptions and undefined behaviour, the status codes of
  \<^verbatim>\<open>Status.h\<close>, and the string and container operations of the C++ standard library that the
  sources use. A \<^verbatim>\<open>std::unordered_map\<close> is an association list whose order is the iteration
  order of the map; a \<^verbatim>\<open>std::set<std::string>\<close> is a set of strings.
\<close>

named_theorems catena_defs "definitions the component proofs unfold"
named_theorems res_simps "rules on results, exceptions and undefined behaviour"

section \<open>Machine integers\<close>

type_synonym i32 = "32 word"
type_synonym u32 = "32 word"
type_synonym size_t = "64 word"

section \<open>Status codes and exceptions\<close>

text \<open>
  The enumeration of \<^verbatim>\<open>Status.h\<close>. An \<^verbatim>\<open>exception_with_status\<close> is modelled by its
  \<^verbatim>\<open>status\<close>; the human readable text it also carries decides nothing in the program and is
  left out.
\<close>

datatype StatusCode =
    OK | CANCELLED | UNKNOWN | INVALID_ARGUMENT | DEADLINE_EXCEEDED | NOT_FOUND
  | ALREADY_EXISTS | PERMISSION_DENIED | UNAUTHENTICATED | RESOURCE_EXHAUSTED
  | FAILED_PRECONDITION | ABORTED | OUT_OF_RANGE | UNIMPLEMENTED | INTERNAL | UNAVAILABLE
  | DATA_LOSS | DO_NOT_USE | CREATED | ACCEPTED | NO_CONTENT | UNPROCESSABLE_ENTITY
  | METHOD_NOT_ALLOWED | CONFLICT | TOO_MANY_REQUESTS | BAD_GATEWAY | SERVICE_UNAVAILABLE
  | GATEWAY_TIMEOUT

fun status_value :: "StatusCode \<Rightarrow> int" where
  "status_value OK = 0"
| "status_value CANCELLED = 1"
| "status_value UNKNOWN = 2"
| "status_value INVALID_ARGUMENT = 3"
| "status_value DEADLINE_EXCEEDED = 4"
| "status_value NOT_FOUND = 5"
| "status_value ALREADY_EXISTS = 6"
| "status_value PERMISSION_DENIED = 7"
| "status_value UNAUTHENTICATED = 16"
| "status_value RESOURCE_EXHAUSTED = 8"
| "status_value FAILED_PRECONDITION = 9"
| "status_value ABORTED = 10"
| "status_value OUT_OF_RANGE = 11"
| "status_value UNIMPLEMENTED = 12"
| "status_value INTERNAL = 13"
| "status_value UNAVAILABLE = 14"
| "status_value DATA_LOSS = 15"
| "status_value DO_NOT_USE = -1"
| "status_value CREATED = 201"
| "status_value ACCEPTED = 202"
| "status_value NO_CONTENT = 204"
| "status_value UNPROCESSABLE_ENTITY = 422"
| "status_value METHOD_NOT_ALLOWED = 405"
| "status_value CONFLICT = 409"
| "status_value TOO_MANY_REQUESTS = 429"
| "status_value BAD_GATEWAY = 502"
| "status_value SERVICE_UNAVAILABLE = 503"
| "status_value GATEWAY_TIMEOUT = 504"

lemma status_value_inj: "status_value a = status_value b \<Longrightarrow> a = b"
  by (cases a; cases b) simp_all

text \<open>
  What a C++ expression can do besides returning: throw an \<^verbatim>\<open>exception_with_status\<close>, throw
  another \<^verbatim>\<open>std::exception\<close>, or run into undefined behaviour (a null pointer dereference, a
  signed overflow).
\<close>

datatype exn = ExceptionWithStatus StatusCode | RuntimeError | StdOutOfRange | StdInvalidArgument

datatype 'a res = Ret 'a | Throw exn | Undef

fun res_bind :: "'a res \<Rightarrow> ('a \<Rightarrow> 'b res) \<Rightarrow> 'b res" where
  "res_bind (Ret x) f = f x"
| "res_bind (Throw e) f = Throw e"
| "res_bind Undef f = Undef"

lemma res_bind_Ret_iff [res_simps]:
  "res_bind m f = Ret y \<longleftrightarrow> (\<exists>x. m = Ret x \<and> f x = Ret y)"
  by (cases m) auto

lemma res_bind_assoc: "res_bind (res_bind m f) g = res_bind m (\<lambda>x. res_bind (f x) g)"
  by (cases m) auto

lemma res_bind_cong [fundef_cong]:
  "m = m' \<Longrightarrow> (\<And>x. m' = Ret x \<Longrightarrow> f x = f' x) \<Longrightarrow> res_bind m f = res_bind m' f'"
  by (cases m') auto

fun is_ret :: "'a res \<Rightarrow> bool" where
  "is_ret (Ret _) = True"
| "is_ret _ = False"

text \<open>A loop that computes one result per element, in order, and stops at the first that throws.\<close>

fun res_map :: "('a \<Rightarrow> 'b res) \<Rightarrow> 'a list \<Rightarrow> 'b list res" where
  "res_map f [] = Ret []"
| "res_map f (x # xs) = res_bind (f x) (\<lambda>y. res_bind (res_map f xs) (\<lambda>ys. Ret (y # ys)))"

lemma res_map_cong [fundef_cong]:
  "xs = ys \<Longrightarrow> (\<And>x. x \<in> set ys \<Longrightarrow> f x = g x) \<Longrightarrow> res_map f xs = res_map g ys"
  by (induction xs arbitrary: ys) auto

lemma res_map_Ret_iff: "res_map f xs = Ret ys \<longleftrightarrow> list_all2 (\<lambda>x y. f x = Ret y) xs ys"
  by (induction xs arbitrary: ys) (auto simp: res_simps list_all2_Cons1)

lemma res_map_Ret_id [simp]: "res_map Ret xs = Ret xs"
  by (induction xs) auto

text \<open>
  Signed 32-bit arithmetic: an overflow and a division by zero are undefined behaviour. The
  remainder truncates towards zero.
\<close>

definition i32_of_int :: "int \<Rightarrow> i32 res" where
  "i32_of_int r = (if - (2 ^ 31) \<le> r \<and> r < 2 ^ 31 then Ret (word_of_int r) else Undef)"

definition i32_sub :: "i32 \<Rightarrow> i32 \<Rightarrow> i32 res" where
  "i32_sub a b = i32_of_int (sint a - sint b)"

definition i32_rem :: "i32 \<Rightarrow> i32 \<Rightarrow> i32 res" where
  "i32_rem a b =
     (if b = 0 \<or> (sint a = - (2 ^ 31) \<and> sint b = -1) then Undef
      else i32_of_int (sint a smod sint b))"

definition i32_abs :: "i32 \<Rightarrow> i32 res" where
  "i32_abs a = i32_of_int \<bar>sint a\<bar>"

lemma sint_i32_range: "- (2 ^ 31) \<le> sint (a :: i32)" "sint (a :: i32) < 2 ^ 31"
  using sint_greater_eq [of a] sint_less [of a] by simp_all

lemma sint_word_of_int32:
  "- (2 ^ 31) \<le> r \<Longrightarrow> r < 2 ^ 31 \<Longrightarrow> sint (word_of_int r :: i32) = r"
  using signed_take_bit_int_eq_self [of 31 r] by (simp add: signed_of_int)

lemma i32_of_int_Ret: "i32_of_int r = Ret w \<longleftrightarrow> - (2 ^ 31) \<le> r \<and> r < 2 ^ 31 \<and> sint w = r"
  using sint_i32_range [of w] by (auto simp: i32_of_int_def sint_word_of_int32)

section \<open>Strings\<close>

text \<open>\<^verbatim>\<open>std::string::starts_with\<close>, \<^verbatim>\<open>ends_with\<close>, \<^verbatim>\<open>substr\<close> and \<^verbatim>\<open>find\<close>.\<close>

definition starts_with :: "string \<Rightarrow> string \<Rightarrow> bool" where
  "starts_with s p \<longleftrightarrow> take (length p) s = p"

definition ends_with :: "string \<Rightarrow> string \<Rightarrow> bool" where
  "ends_with s p \<longleftrightarrow> length p \<le> length s \<and> drop (length s - length p) s = p"

definition substr :: "string \<Rightarrow> nat \<Rightarrow> nat \<Rightarrow> string" where
  "substr s pos n = take n (drop pos s)"

fun find_sub :: "string \<Rightarrow> string \<Rightarrow> nat option" where
  "find_sub p [] = (if p = [] then Some 0 else None)"
| "find_sub p (c # cs) =
     (if starts_with (c # cs) p then Some 0 else map_option Suc (find_sub p cs))"

definition str_find :: "string \<Rightarrow> string \<Rightarrow> nat \<Rightarrow> nat option" where
  "str_find s p pos =
     (if pos > length s then None else map_option ((+) pos) (find_sub p (drop pos s)))"

lemma starts_with_append_iff: "starts_with s p \<longleftrightarrow> (\<exists>t. s = p @ t)"
  unfolding starts_with_def by (metis append_eq_conv_conj append_take_drop_id)

lemma starts_with_refl [simp]: "starts_with s s"
  by (simp add: starts_with_def)

lemma starts_with_Nil [simp]: "starts_with s []"
  by (simp add: starts_with_def)

lemma starts_with_prefix: "starts_with s p \<longleftrightarrow> prefix p s"
  by (auto simp: starts_with_append_iff prefix_def)

lemma find_sub_Some:
  "find_sub p s = Some q \<Longrightarrow> q + length p \<le> length s \<and> starts_with (drop q s) p"
proof (induction s arbitrary: q)
  case Nil
  then show ?case by (auto split: if_splits)
next
  case (Cons c cs)
  show ?case
  proof (cases "starts_with (c # cs) p")
    case True
    with Cons.prems have "q = 0" by simp
    moreover from True have "length p \<le> length (c # cs)"
      by (auto simp: starts_with_prefix dest: prefix_length_le)
    ultimately show ?thesis using True by simp
  next
    case False
    with Cons.prems obtain q' where "find_sub p cs = Some q'" "q = Suc q'" by auto
    with Cons.IH show ?thesis by fastforce
  qed
qed

lemma find_sub_None: "find_sub p s = None \<Longrightarrow> \<not> starts_with (drop i s) p"
proof (induction s arbitrary: i)
  case Nil
  then show ?case by (auto simp: starts_with_def split: if_splits)
next
  case (Cons c cs)
  then show ?case by (cases i) (auto split: if_splits)
qed

lemma find_sub_least:
  "find_sub p s = Some q \<Longrightarrow> i < q \<Longrightarrow> \<not> starts_with (drop i s) p"
proof (induction s arbitrary: q i)
  case Nil
  then show ?case by (auto split: if_splits)
next
  case (Cons c cs)
  then show ?case by (cases i) (auto split: if_splits)
qed

lemma ends_with_append_iff: "ends_with s p \<longleftrightarrow> (\<exists>t. s = t @ p)"
proof
  assume "ends_with s p"
  then have "s = take (length s - length p) s @ p"
    unfolding ends_with_def by (metis append_take_drop_id)
  then show "\<exists>t. s = t @ p" by blast
qed (auto simp: ends_with_def)

section \<open>Decimal numerals\<close>

text \<open>\<^verbatim>\<open>operator<<\<close> and \<^verbatim>\<open>std::to_string\<close> on an unsigned integer.\<close>

definition digit_char :: "nat \<Rightarrow> char" where
  "digit_char d = char_of (48 + d)"

fun dec_of_nat :: "nat \<Rightarrow> string" where
  "dec_of_nat n = (if n < 10 then [digit_char n] else dec_of_nat (n div 10) @ [digit_char (n mod 10)])"

declare dec_of_nat.simps [simp del]

definition is_digit :: "char \<Rightarrow> bool" where
  "is_digit c \<longleftrightarrow> 48 \<le> (of_char c :: nat) \<and> (of_char c :: nat) \<le> 57"

definition digit_val :: "char \<Rightarrow> nat" where
  "digit_val c = of_char c - 48"

definition nat_of_dec :: "string \<Rightarrow> nat" where
  "nat_of_dec s = foldl (\<lambda>n c. 10 * n + digit_val c) 0 s"

lemma of_char_digit_char [simp]: "d < 10 \<Longrightarrow> (of_char (digit_char d) :: nat) = 48 + d"
  by (simp add: digit_char_def)

lemma is_digit_digit_char [simp]: "d < 10 \<Longrightarrow> is_digit (digit_char d)"
  by (simp add: is_digit_def)

lemma digit_val_digit_char [simp]: "d < 10 \<Longrightarrow> digit_val (digit_char d) = d"
  by (simp add: digit_val_def)

lemma dec_of_nat_digits: "list_all is_digit (dec_of_nat n)"
proof (induction n rule: dec_of_nat.induct)
  case (1 n)
  then show ?case by (subst dec_of_nat.simps) auto
qed

lemma dec_of_nat_nonempty [simp]: "dec_of_nat n \<noteq> []"
  by (subst dec_of_nat.simps) simp

lemma nat_of_dec_dec_of_nat [simp]: "nat_of_dec (dec_of_nat n) = n"
proof (induction n rule: dec_of_nat.induct)
  case (1 n)
  show ?case
  proof (cases "n < 10")
    case True
    then show ?thesis by (subst dec_of_nat.simps) (simp add: nat_of_dec_def)
  next
    case False
    with 1 show ?thesis by (subst dec_of_nat.simps) (simp add: nat_of_dec_def)
  qed
qed

end
