(* ===== verification/Catena_Utils.thy ===== *)
theory Catena_Utils
  imports Catena_Prelude
begin

text \<open>
  The free functions of \<^verbatim>\<open>common/src/utils.cpp\<close>: substitution and splitting of strings (both
  loops stop after 1000 iterations), base64 coding and time stamp parsing. The properties
  relate \<^verbatim>\<open>subs\<close> and \<^verbatim>\<open>split\<close> to reference definitions without the iteration bound,
  and show that base64 decoding inverts encoding.
\<close>

unbundle bit_operations_syntax

section \<open>subs and split\<close>

text \<open>
  The loop of \<^verbatim>\<open>subs\<close>. The first argument is what is left of the 1000 iterations; the
  position \<^verbatim>\<open>npos\<close> is \<^const>\<open>None\<close>. The result is the final \<^verbatim>\<open>prev\<close> and the text
  written to the stream.
\<close>

fun subs_loop :: "nat \<Rightarrow> string \<Rightarrow> string \<Rightarrow> string \<Rightarrow> nat \<Rightarrow> nat option \<Rightarrow> string \<Rightarrow> nat \<times> string" where
  "subs_loop k str sq rep prev None oss = (prev, oss)"
| "subs_loop 0 str sq rep prev (Some pos) oss = (prev, oss)"
| "subs_loop (Suc k) str sq rep prev (Some pos) oss =
     (case str_find str sq pos of
        None \<Rightarrow> subs_loop k str sq rep pos None oss
      | Some q \<Rightarrow> subs_loop k str sq rep pos (Some (q + length sq))
                    (oss @ substr str pos (q - pos) @ rep))"

definition subs :: "string \<Rightarrow> string \<Rightarrow> string \<Rightarrow> string" where
  "subs str sq rep =
     (if length sq > 0 then
        (case subs_loop 1000 str sq rep 0 (Some 0) [] of (prev, oss) \<Rightarrow> oss @ drop prev str)
      else str)"

fun split_loop :: "nat \<Rightarrow> string \<Rightarrow> string \<Rightarrow> nat \<Rightarrow> nat option \<Rightarrow> string list \<Rightarrow> nat \<times> string list" where
  "split_loop k str delim prev None out = (prev, out)"
| "split_loop 0 str delim prev (Some pos) out = (prev, out)"
| "split_loop (Suc k) str delim prev (Some pos) out =
     (case str_find str delim pos of
        None \<Rightarrow> split_loop k str delim pos None out
      | Some q \<Rightarrow> split_loop k str delim pos (Some (q + length delim))
                    (out @ [substr str pos (q - pos)]))"

definition split :: "string \<Rightarrow> string \<Rightarrow> string list" where
  "split str delim =
     (if length delim > 0 then
        (case split_loop 1000 str delim 0 (Some 0) [] of (prev, out) \<Rightarrow> out @ [drop prev str])
      else [str])"

text \<open>Reference definitions: the pieces between all non-overlapping occurrences.\<close>

function pieces :: "string \<Rightarrow> string \<Rightarrow> string list" where
  "pieces sq s =
     (case find_sub sq s of
        None \<Rightarrow> [s]
      | Some q \<Rightarrow> (if sq = [] then [s] else take q s # pieces sq (drop (q + length sq) s)))"
  by pat_completeness auto
termination
proof (relation "measure (\<lambda>(sq, s). length s)")
  fix sq s q assume "find_sub sq s = Some q" "sq \<noteq> []"
  then show "((sq, drop (q + length sq) s), (sq, s)) \<in> measure (\<lambda>(sq, s). length s)"
    using find_sub_Some [of sq s q] by (cases sq) auto
qed simp

declare pieces.simps [simp del]

fun join :: "string \<Rightarrow> string list \<Rightarrow> string" where
  "join d [] = []"
| "join d [x] = x"
| "join d (x # y # xs) = x @ d @ join d (y # xs)"

definition replace_all :: "string \<Rightarrow> string \<Rightarrow> string \<Rightarrow> string" where
  "replace_all s sq rep = join rep (pieces sq s)"

text \<open>The number of occurrences the loops visit.\<close>

definition occurrences :: "string \<Rightarrow> string \<Rightarrow> nat" where
  "occurrences sq s = length (pieces sq s) - 1"

lemma pieces_nonempty [simp]: "pieces sq s \<noteq> []"
  by (subst pieces.simps) (auto split: option.splits)

lemma length_pieces_pos [simp]: "0 < length (pieces sq s)"
  by simp

lemma join_Cons: "xs \<noteq> [] \<Longrightarrow> join d (x # xs) = x @ d @ join d xs"
  by (cases xs) auto

lemma join_pieces: "sq \<noteq> [] \<Longrightarrow> join sq (pieces sq s) = s"
proof (induction sq s rule: pieces.induct)
  case (1 sq s)
  show ?case
  proof (cases "find_sub sq s")
    case None
    then show ?thesis by (subst pieces.simps) simp
  next
    case (Some q)
    from find_sub_Some [OF Some] obtain t where t: "drop q s = sq @ t"
      by (auto simp: starts_with_append_iff)
    have "drop (q + length sq) s = drop (length sq) (drop q s)"
      by (simp add: add.commute)
    with t have d: "drop (q + length sq) s = t" by simp
    have "join sq (pieces sq s) = take q s @ sq @ t"
      using 1 Some d by (subst pieces.simps) (simp add: join_Cons)
    then show ?thesis using t by (metis append_take_drop_id)
  qed
qed

lemma str_find_drop:
  "pos \<le> length s \<Longrightarrow> str_find s p pos = map_option ((+) pos) (find_sub p (drop pos s))"
  by (simp add: str_find_def)

text \<open>The loops compute the first pieces, for any starting position.\<close>


definition cut_pieces :: "nat \<Rightarrow> string \<Rightarrow> nat \<Rightarrow> string \<Rightarrow> string list \<Rightarrow> string list" where
  "cut_pieces k s prev d ps =
     (if length ps \<le> k then ps
      else take k ps @ [if k = 0 then drop prev s else join d (drop (k - 1) ps)])"

lemma cut_pieces_Suc:
  assumes "join d (p # ps) = drop pos s" "ps \<noteq> []"
  shows "cut_pieces (Suc k) s prev d (p # ps) = p # cut_pieces k s pos d ps"
  using assms by (cases k) (auto simp: cut_pieces_def)

lemma pieces_step:
  assumes "find_sub d (drop pos s) = Some q" "d \<noteq> []"
  shows "pieces d (drop pos s) = take q (drop pos s) # pieces d (drop (pos + q + length d) s)"
  using assms by (subst pieces.simps) (simp add: ac_simps)

lemma split_loop_pieces:
  assumes "d \<noteq> []" "pos \<le> length s"
  shows "(case split_loop k s d prev (Some pos) out of (pr, ot) \<Rightarrow> ot @ [drop pr s])
     = out @ cut_pieces k s prev d (pieces d (drop pos s))"
  using assms
proof (induction k arbitrary: pos prev out)
  case 0
  then show ?case by (simp add: cut_pieces_def)
next
  case (Suc k)
  note join = join_pieces [OF Suc.prems(1), of "drop pos s"]
  show ?case
  proof (cases "find_sub d (drop pos s)")
    case None
    then have "pieces d (drop pos s) = [drop pos s]" by (subst pieces.simps) simp
    then show ?thesis using Suc.prems None by (simp add: str_find_drop cut_pieces_def)
  next
    case (Some q)
    from find_sub_Some [OF Some] Suc.prems(2)
    have le: "pos + q + length d \<le> length s" by auto
    note p = pieces_step [OF Some Suc.prems(1)]
    show ?thesis
      using Some Suc.prems(2) Suc.IH [OF Suc.prems(1) le] join
      by (simp add: str_find_drop substr_def p cut_pieces_Suc)
  qed
qed

lemma subs_loop_split_loop:
  "(case subs_loop k s d r prev pos oss of (pr, os) \<Rightarrow> (pr, os)) =
   (case split_loop k s d prev pos [] of (pr, ot) \<Rightarrow> (pr, oss @ concat (map (\<lambda>p. p @ r) ot)))"
proof -
  have "subs_loop k s d r prev pos (oss @ concat (map (\<lambda>p. p @ r) ot0)) =
     (case split_loop k s d prev pos ot0 of (pr, ot) \<Rightarrow> (pr, oss @ concat (map (\<lambda>p. p @ r) ot)))"
    for ot0
  proof (induction k s d prev pos ot0 rule: split_loop.induct)
    case (3 k str delim prev pos out)
    then show ?case by (auto split: option.splits)
  qed simp_all
  from this [of "[]"] show ?thesis by (simp split: prod.splits)
qed

lemma join_concat: "ps \<noteq> [] \<Longrightarrow> concat (map (\<lambda>p. p @ r) (butlast ps)) @ last ps = join r ps"
  by (induction ps rule: list_nonempty_induct) (auto simp: join_Cons)

section \<open>Base64\<close>

definition base64_chars :: string where
  "base64_chars = ''ABCDEFGHIJKLMNOPQRSTUVWXYZabcdefghijklmnopqrstuvwxyz0123456789+/''"

text \<open>
  The accumulator \<^verbatim>\<open>val\<close> is an \<^verbatim>\<open>int\<close>: 32 bits, the left shift drops the high bits and
  the right shift is arithmetic. \<^verbatim>\<open>valb\<close> stays between -8 and 7.
\<close>

function enc_emit :: "i32 \<Rightarrow> int \<Rightarrow> string \<Rightarrow> int \<times> string" where
  "enc_emit val valb encoded =
     (if valb \<ge> 0 then
        enc_emit val (valb - 6)
          (encoded @ [base64_chars ! unat (signed_drop_bit (nat valb) val AND 0x3F)])
      else (valb, encoded))"
  by pat_completeness auto
termination
  by (relation "measure (\<lambda>(val, valb, encoded). nat (valb + 6))") auto

declare enc_emit.simps [simp del]

fun enc_loop :: "string \<Rightarrow> i32 \<Rightarrow> int \<Rightarrow> string \<Rightarrow> i32 \<times> int \<times> string" where
  "enc_loop [] val valb encoded = (val, valb, encoded)"
| "enc_loop (c # cs) val valb encoded =
     (let val' = push_bit 8 val + of_char c in
      case enc_emit val' (valb + 8) encoded of (valb', encoded') \<Rightarrow> enc_loop cs val' valb' encoded')"

definition pad4 :: "string \<Rightarrow> string" where
  "pad4 s = s @ replicate ((4 - length s mod 4) mod 4) CHR ''=''"

definition to_base64 :: "string \<Rightarrow> string" where
  "to_base64 binary =
     (case enc_loop binary 0 (-6) [] of (val, valb, encoded) \<Rightarrow>
        pad4 (if valb > -6 then
                encoded @ [base64_chars ! unat (signed_drop_bit (nat (valb + 8)) (push_bit 8 val) AND 0x3F)]
              else encoded))"

text \<open>\<^verbatim>\<open>strchr\<close> also finds the terminating null character of \<^verbatim>\<open>base64_chars\<close>.\<close>

fun index_of :: "char \<Rightarrow> string \<Rightarrow> nat option" where
  "index_of c [] = (if c = CHR 0x00 then Some 0 else None)"
| "index_of c (d # ds) = (if c = d then Some 0 else map_option Suc (index_of c ds))"

fun dec_loop :: "string \<Rightarrow> i32 \<Rightarrow> int \<Rightarrow> string \<Rightarrow> string" where
  "dec_loop [] val valb decoded = decoded"
| "dec_loop (c # cs) val valb decoded =
     (if c = CHR ''='' then decoded
      else case index_of c base64_chars of
             None \<Rightarrow> dec_loop cs val valb decoded
           | Some pos \<Rightarrow>
               (let val' = push_bit 6 val + of_nat pos; valb' = valb + 6 in
                if valb' \<ge> 0 then
                  dec_loop cs val' (valb' - 8)
                    (decoded @ [char_of (unat (signed_drop_bit (nat valb') val' AND 0xFF))])
                else dec_loop cs val' valb' decoded))"

definition from_base64 :: "string \<Rightarrow> string" where
  "from_base64 encoded = dec_loop encoded 0 (-8) []"

subsection \<open>The coder as arithmetic on sextets\<close>

lemma unat_shift_mask:
  assumes "n + k \<le> 32"
  shows "unat (signed_drop_bit n (w :: i32) AND mask k) = (unat w mod 2 ^ (n + k)) div 2 ^ n"
proof -
  have "signed_drop_bit n w AND mask k = take_bit k (drop_bit n w)"
    using assms by (intro bit_word_eqI) (auto simp: bit_simps)
  then have "unat (signed_drop_bit n w AND mask k) = take_bit k (drop_bit n (unat w))"
    by (simp add: unsigned_take_bit_eq unat_drop_bit_eq)
  also have "\<dots> = (unat w div 2 ^ n) mod 2 ^ k"
    by (simp add: take_bit_eq_mod drop_bit_eq_div)
  also have "\<dots> = (unat w mod 2 ^ (n + k)) div 2 ^ n"
    by (simp add: power_add mod_mult2_eq div_mult2_eq)
  finally show ?thesis .
qed

lemma unat_mask_6: "n + 6 \<le> 32 \<Longrightarrow>
   unat (signed_drop_bit n (w :: i32) AND 0x3F) = (unat w mod 2 ^ (n + 6)) div 2 ^ n"
  using unat_shift_mask [of n 6 w] by (simp add: mask_eq_exp_minus_1)

lemma unat_mask_8: "n + 8 \<le> 32 \<Longrightarrow>
   unat (signed_drop_bit n (w :: i32) AND 0xFF) = (unat w mod 2 ^ (n + 8)) div 2 ^ n"
  using unat_shift_mask [of n 8 w] by (simp add: mask_eq_exp_minus_1)

lemma unat_push_add_mod:
  assumes "m \<le> 32"
  shows "unat (push_bit k (v :: i32) + of_nat x) mod 2 ^ m = (2 ^ k * unat v + x) mod 2 ^ m"
proof -
  have d: "(2 :: nat) ^ m dvd 2 ^ 32" using assms by (rule le_imp_power_dvd)
  have "push_bit k v + of_nat x = (of_nat (2 ^ k * unat v + x) :: i32)"
    by (simp add: push_bit_eq_mult mult.commute)
  then have "unat (push_bit k v + of_nat x) = (2 ^ k * unat v + x) mod 2 ^ 32"
    by (simp only: unat_of_nat) simp
  then show ?thesis using d by (simp add: mod_mod_cancel)
qed

lemma unat_push_mod: "m \<le> 32 \<Longrightarrow> unat (push_bit k (v :: i32)) mod 2 ^ m = (2 ^ k * unat v) mod 2 ^ m"
  using unat_push_add_mod [of m k v 0] by simp

lemma of_char_word: "(of_char c :: i32) = of_nat (of_char c)"
  by (simp add: of_nat_of_char)

definition sextet_char :: "nat \<Rightarrow> char" where
  "sextet_char s = base64_chars ! s"

abbreviation byte_of :: "char \<Rightarrow> nat" where
  "byte_of c \<equiv> of_char c"

lemma byte_of_less: "byte_of c < 256"
proof -
  have "byte_of c = byte_of c mod 256" by simp
  also have "\<dots> < 256" by (rule mod_less_divisor) simp
  finally show ?thesis .
qed

fun chunk3 :: "string \<Rightarrow> nat list" where
  "chunk3 [] = []"
| "chunk3 [a] = [byte_of a div 4, (byte_of a mod 4) * 16]"
| "chunk3 [a, b] = [byte_of a div 4, (byte_of a mod 4) * 16 + byte_of b div 16, (byte_of b mod 16) * 4]"
| "chunk3 (a # b # c # cs) =
     [byte_of a div 4, (byte_of a mod 4) * 16 + byte_of b div 16,
      (byte_of b mod 16) * 4 + byte_of c div 64, byte_of c mod 64] @ chunk3 cs"


lemma enc_emit_2: "enc_emit v 2 e = (-4, e @ [sextet_char ((unat v mod 2 ^ 8) div 4)])"
  by (simp add: enc_emit.simps unat_mask_6 sextet_char_def)

lemma enc_emit_4: "enc_emit v 4 e = (-2, e @ [sextet_char ((unat v mod 2 ^ 10) div 16)])"
  by (simp add: enc_emit.simps unat_mask_6 sextet_char_def)

lemma enc_emit_6:
  "enc_emit v 6 e =
     (-6, e @ [sextet_char ((unat v mod 2 ^ 12) div 64), sextet_char (unat v mod 2 ^ 6)])"
  using unat_mask_6 [of 0 v] by (simp add: enc_emit.simps unat_mask_6 sextet_char_def)

abbreviation acc8 :: "i32 \<Rightarrow> char \<Rightarrow> i32" where
  "acc8 v c \<equiv> push_bit 8 v + of_char c"

lemma acc8_mod: "m \<le> 32 \<Longrightarrow> unat (acc8 v c) mod 2 ^ m = (256 * unat v + byte_of c) mod 2 ^ m"
  using unat_push_add_mod [of m 8 v "byte_of c"] by (simp add: of_char_word)

text \<open>Low bits of the accumulator after one and two bytes.\<close>

lemma mod_mult_add_eq:
  fixes x y :: nat
  assumes "x mod m = x' mod m" and "k * m = n"
  shows "(k * x + y) mod n = (k * x' + y) mod n"
proof -
  have "(k * x) mod n = k * (x mod m)" "(k * x') mod n = k * (x' mod m)"
    unfolding assms(2) [symmetric] by (simp_all only: mult_mod_right)
  with assms(1) have "(k * x) mod n = (k * x') mod n" by simp
  then show ?thesis by (metis mod_add_left_eq)
qed

lemma mod_mult_add_low: "m dvd k \<Longrightarrow> (k * x + y) mod m = y mod (m :: nat)"
  by (metis dvd_mult2 mod_add_cong mod_eq_0_iff_dvd mod_self mod_0 add_0 mod_add_left_eq)

lemma acc8_byte: "unat (acc8 v a) mod 2 ^ 8 = byte_of a"
  using acc8_mod [of 8 v a] byte_of_less [of a] by simp

lemma acc8_two: "unat (acc8 (acc8 v a) b) mod 2 ^ 10 = (256 * (byte_of a mod 4) + byte_of b) mod 2 ^ 10"
proof -
  have "unat (acc8 v a) mod 4 = byte_of a mod 4"
    using acc8_mod [of 2 v a] mod_mult_add_low [of 4 256 "unat v" "byte_of a"] by simp
  then show ?thesis
    using mod_mult_add_eq [of "unat (acc8 v a)" 4 "byte_of a mod 4" 256 1024 "byte_of b"]
      acc8_mod [of 10 "acc8 v a" b] by simp
qed

lemma acc8_three: "unat (acc8 (acc8 v a) b) mod 2 ^ 12 = (256 * (byte_of a mod 16) + byte_of b) mod 2 ^ 12"
proof -
  have "unat (acc8 v a) mod 16 = byte_of a mod 16"
    using acc8_mod [of 4 v a] mod_mult_add_low [of 16 256 "unat v" "byte_of a"] by simp
  then show ?thesis
    using mod_mult_add_eq [of "unat (acc8 v a)" 16 "byte_of a mod 16" 256 4096 "byte_of b"]
      acc8_mod [of 12 "acc8 v a" b] by simp
qed


lemma acc8_low: "unat (acc8 v c) mod 2 ^ 6 = byte_of c mod 64"
  using acc8_mod [of 6 v c] mod_mult_add_low [of 64 256 "unat v" "byte_of c"] by simp

lemma sextet2: "(256 * (x mod 4) + y) mod 2 ^ 10 div 16 = (x mod 4) * 16 + y div 16"
  if "y < 256" for x y :: nat
  using that by simp

lemma sextet3: "(256 * (x mod 16) + y) mod 2 ^ 12 div 64 = (x mod 16) * 4 + y div 64"
  if "y < 256" for x y :: nat
  using that by simp

lemma enc_loop_step3:
  "enc_loop (a # b # c # cs) v (-6) e =
     enc_loop cs (acc8 (acc8 (acc8 v a) b) c) (-6)
       (e @ map sextet_char [byte_of a div 4, (byte_of a mod 4) * 16 + byte_of b div 16,
          (byte_of b mod 16) * 4 + byte_of c div 64, byte_of c mod 64])"
  by (simp add: Let_def enc_emit_2 enc_emit_4 enc_emit_6 acc8_byte [simplified] acc8_two [simplified]
      acc8_three [simplified] acc8_low [simplified] sextet2 [simplified] sextet3 [simplified] byte_of_less)


definition enc_final :: "i32 \<times> int \<times> string \<Rightarrow> string" where
  "enc_final st = (case st of (val, valb, encoded) \<Rightarrow>
     if valb > -6 then
       encoded @ [base64_chars ! unat (signed_drop_bit (nat (valb + 8)) (push_bit 8 val) AND 0x3F)]
     else encoded)"

lemma to_base64_final: "to_base64 s = pad4 (enc_final (enc_loop s 0 (-6) []))"
  by (simp add: to_base64_def enc_final_def split: prod.splits)

lemma enc_final_4: "enc_final (acc8 v a, -4, e) = e @ [sextet_char ((byte_of a mod 4) * 16)]"
proof -
  have "(256 * unat (acc8 v a)) mod 1024 = 256 * (unat (acc8 v a) mod 4)"
    using mult_mod_right [of 256 "unat (acc8 v a)" 4] by simp
  moreover have "unat (acc8 v a) mod 4 = byte_of a mod 4"
    using acc8_mod [of 2 v a] mod_mult_add_low [of 4 256 "unat v" "byte_of a"] by simp
  ultimately have "unat (push_bit 8 (acc8 v a)) mod 2 ^ 10 div 16 = (byte_of a mod 4) * 16"
    using unat_push_mod [of 10 8 "acc8 v a"] by simp
  then show ?thesis by (simp add: enc_final_def unat_mask_6 sextet_char_def)
qed

lemma enc_final_2: "enc_final (acc8 v a, -2, e) = e @ [sextet_char ((byte_of a mod 16) * 4)]"
proof -
  have "(256 * unat (acc8 v a)) mod 4096 = 256 * (unat (acc8 v a) mod 16)"
    using mult_mod_right [of 256 "unat (acc8 v a)" 16] by simp
  moreover have "unat (acc8 v a) mod 16 = byte_of a mod 16"
    using acc8_mod [of 4 v a] mod_mult_add_low [of 16 256 "unat v" "byte_of a"] by simp
  ultimately have "unat (push_bit 8 (acc8 v a)) mod 2 ^ 12 div 64 = (byte_of a mod 16) * 4"
    using unat_push_mod [of 12 8 "acc8 v a"] by simp
  then show ?thesis by (simp add: enc_final_def unat_mask_6 sextet_char_def)
qed

lemma enc_loop_chunk3: "enc_final (enc_loop s v (-6) e) = e @ map sextet_char (chunk3 s)"
proof (induction s arbitrary: v e rule: chunk3.induct)
  case 1
  then show ?case by (simp add: enc_final_def)
next
  case (2 a)
  then show ?case by (simp add: Let_def enc_emit_2 enc_final_4 acc8_byte [simplified])
next
  case (3 a b)
  then show ?case
    by (simp add: Let_def enc_emit_2 enc_emit_4 enc_final_2 acc8_byte [simplified]
        acc8_two [simplified] sextet2 [simplified] byte_of_less)
next
  case (4 a b c cs)
  show ?case unfolding enc_loop_step3 by (simp only: 4) simp
qed

subsection \<open>Decoding\<close>

lemma index_of_sextet: "x < 64 \<Longrightarrow> index_of (sextet_char x) base64_chars = Some x"
proof -
  have "list_all (\<lambda>x. index_of (sextet_char x) base64_chars = Some x) [0..<64]"
    by code_simp
  then show "x < 64 \<Longrightarrow> ?thesis" by (simp add: list_all_iff)
qed

lemma sextet_not_pad: "x < 64 \<Longrightarrow> sextet_char x \<noteq> CHR ''=''"
proof -
  have "list_all (\<lambda>x. sextet_char x \<noteq> CHR ''='') [0..<64]" by code_simp
  then show "x < 64 \<Longrightarrow> ?thesis" by (simp add: list_all_iff)
qed

abbreviation acc6 :: "i32 \<Rightarrow> nat \<Rightarrow> i32" where
  "acc6 v x \<equiv> push_bit 6 v + of_nat x"

lemma acc6_mod: "m \<le> 32 \<Longrightarrow> unat (acc6 v x) mod 2 ^ m = (64 * unat v + x) mod 2 ^ m"
  using unat_push_add_mod [of m 6 v x] by simp

lemma acc6_low: "k dvd 64 \<Longrightarrow> m \<le> 6 \<Longrightarrow> k = 2 ^ m \<Longrightarrow> unat (acc6 v x) mod k = x mod k"
  using acc6_mod [of m v x] mod_mult_add_low [of k 64 "unat v" x] by simp

lemma acc6_two:
  assumes "k dvd 64" "m \<le> 6" "k = 2 ^ m"
  shows "unat (acc6 (acc6 v x) y) mod (64 * k) = (64 * (x mod k) + y) mod (64 * k)"
proof -
  have "unat (acc6 (acc6 v x) y) mod 2 ^ (6 + m) = (64 * unat (acc6 v x) + y) mod 2 ^ (6 + m)"
    using assms(2) by (intro acc6_mod) simp
  moreover have "(64 * unat (acc6 v x) + y) mod (64 * k) = (64 * (x mod k) + y) mod (64 * k)"
    using acc6_low [OF assms] by (intro mod_mult_add_eq [where m = k]) auto
  ultimately show ?thesis using assms(3) by (simp add: power_add)
qed

lemmas dec_loop_Cons = dec_loop.simps(2)
declare dec_loop_Cons [simp del]

lemma dec_loop_sextet:
  "x < 64 \<Longrightarrow> dec_loop (sextet_char x # cs) v b d =
     (if b + 6 \<ge> 0 then
        dec_loop cs (acc6 v x) (b - 2)
          (d @ [char_of (unat (signed_drop_bit (nat (b + 6)) (acc6 v x) AND 0xFF))])
      else dec_loop cs (acc6 v x) (b + 6) d)"
  by (simp add: dec_loop_Cons index_of_sextet sextet_not_pad Let_def)

lemma dec_loop_two:
  assumes "x < 64" "y < 64"
  shows "dec_loop (sextet_char x # sextet_char y # cs) v (-8) d =
     dec_loop cs (acc6 (acc6 v x) y) (-4) (d @ [char_of (4 * x + y div 16)])"
proof -
  define w where "w = acc6 (acc6 v x) y"
  have "unat w mod (64 * 64) = (64 * (x mod 64) + y) mod (64 * 64)"
    unfolding w_def by (rule acc6_two [of 64 6]) simp_all
  then have "unat w mod 4096 div 16 = 4 * x + y div 16" using assms by simp
  then have "unat (signed_drop_bit 4 w AND 0xFF) = 4 * x + y div 16"
    using unat_mask_8 [of 4 w] by simp
  then show ?thesis
    using assms by (simp add: dec_loop_sextet flip: w_def)
qed

lemma dec_loop_third:
  assumes "z < 64"
  shows "dec_loop (sextet_char z # cs) (acc6 v y) (-4) d =
     dec_loop cs (acc6 (acc6 v y) z) (-6) (d @ [char_of (16 * (y mod 16) + z div 4)])"
proof -
  define w where "w = acc6 (acc6 v y) z"
  have "unat w mod (64 * 16) = (64 * (y mod 16) + z) mod (64 * 16)"
    unfolding w_def by (rule acc6_two [of 16 4]) simp_all
  then have "unat w mod 1024 div 4 = 16 * (y mod 16) + z div 4" using assms by simp
  then have "unat (signed_drop_bit 2 w AND 0xFF) = 16 * (y mod 16) + z div 4"
    using unat_mask_8 [of 2 w] by simp
  then show ?thesis
    using assms by (simp add: dec_loop_sextet flip: w_def)
qed

lemma dec_loop_fourth:
  assumes "w < 64"
  shows "dec_loop (sextet_char w # cs) (acc6 v z) (-6) d =
     dec_loop cs (acc6 (acc6 v z) w) (-8) (d @ [char_of (64 * (z mod 4) + w)])"
proof -
  define u where "u = acc6 (acc6 v z) w"
  have "unat u mod (64 * 4) = (64 * (z mod 4) + w) mod (64 * 4)"
    unfolding u_def by (rule acc6_two [of 4 2]) simp_all
  then have "unat u mod 256 = 64 * (z mod 4) + w" using assms by simp
  then have "unat (signed_drop_bit 0 u AND 0xFF) = 64 * (z mod 4) + w"
    using unat_mask_8 [of 0 u] by simp
  then show ?thesis
    using assms by (simp add: dec_loop_sextet flip: u_def)
qed

lemma dec_loop_pad: "dec_loop (replicate n CHR ''='') v b d = d"
  by (cases n) (simp_all add: dec_loop_Cons)

lemma sextet_bound1: "x div 4 < 64" if "x < 256" for x :: nat
  using that by (simp add: less_mult_imp_div_less)

lemma sextet_bound2: "x mod 4 * 16 + y div 16 < 64" if "y < 256" for x y :: nat
  using that by simp

lemma sextet_bound3: "y mod 16 * 4 + z div 64 < 64" if "z < 256" for y z :: nat
  using that by simp

lemma sextet_bound4: "x mod 4 * 16 < (64 :: nat)"
  by simp

lemma sextet_bound5: "y mod 16 * 4 < (64 :: nat)"
  by simp

lemmas byte_split = sextet_bound1 sextet_bound2 sextet_bound3 sextet_bound4 sextet_bound5

lemma dec_loop_three:
  assumes "x < 64" "y < 64" "z < 64"
  obtains v' where "\<And>cs. dec_loop (sextet_char x # sextet_char y # sextet_char z # cs) v (-8) d =
     dec_loop cs v' (-6) (d @ [char_of (4 * x + y div 16), char_of (16 * (y mod 16) + z div 4)])"
  using assms that [of "acc6 (acc6 (acc6 v x) y) z"]
  by (simp add: dec_loop_two dec_loop_third)

lemma dec_loop_four:
  assumes "x < 64" "y < 64" "z < 64" "w < 64"
  obtains v' where "\<And>cs. dec_loop (sextet_char x # sextet_char y # sextet_char z # sextet_char w # cs) v (-8) d =
     dec_loop cs v' (-8) (d @ [char_of (4 * x + y div 16), char_of (16 * (y mod 16) + z div 4),
       char_of (64 * (z mod 4) + w)])"
  using assms that [of "acc6 (acc6 (acc6 (acc6 v x) y) z) w"]
  by (simp add: dec_loop_two dec_loop_third dec_loop_fourth)

lemma byte_join:
  fixes x y z :: nat
  shows "y < 256 \<Longrightarrow> 4 * (x div 4) + (x mod 4 * 16 + y div 16) div 16 = x"
    and "y < 256 \<Longrightarrow> 16 * ((x * 16 + y div 16) mod 16) + (y mod 16 * 4) div 4 = y"
    and "y < 256 \<Longrightarrow> z < 256 \<Longrightarrow>
      16 * ((x * 16 + y div 16) mod 16) + (y mod 16 * 4 + z div 64) div 4 = y"
    and "z < 256 \<Longrightarrow> 64 * ((y * 4 + z div 64) mod 4) + z mod 64 = z"
  by simp_all

lemma dec_loop_chunk3:
  "dec_loop (map sextet_char (chunk3 s) @ replicate n CHR ''='') v (-8) d = d @ s"
proof (induction s arbitrary: v d rule: chunk3.induct)
  case 1
  then show ?case by (simp add: dec_loop_pad)
next
  case (2 a)
  then show ?case by (simp add: dec_loop_two dec_loop_pad byte_split byte_of_less)
next
  case (3 a b)
  obtain v' where "\<And>cs. dec_loop (sextet_char (byte_of a div 4) #
      sextet_char (byte_of a mod 4 * 16 + byte_of b div 16) # sextet_char (byte_of b mod 16 * 4) # cs) v (-8) d =
      dec_loop cs v' (-6) (d @ [a, b])"
    using dec_loop_three [of "byte_of a div 4" "byte_of a mod 4 * 16 + byte_of b div 16"
        "byte_of b mod 16 * 4" v d]
    by (simp only: byte_split byte_of_less byte_join char_of_char simp_thms) blast
  then show ?case by (simp add: dec_loop_pad)
next
  case (4 a b c cs)
  obtain v' where "\<And>r. dec_loop (sextet_char (byte_of a div 4) #
      sextet_char (byte_of a mod 4 * 16 + byte_of b div 16) #
      sextet_char (byte_of b mod 16 * 4 + byte_of c div 64) # sextet_char (byte_of c mod 64) # r) v (-8) d =
      dec_loop r v' (-8) (d @ [a, b, c])"
    using dec_loop_four [of "byte_of a div 4" "byte_of a mod 4 * 16 + byte_of b div 16"
        "byte_of b mod 16 * 4 + byte_of c div 64" "byte_of c mod 64" v d]
    by (simp only: byte_split byte_of_less byte_join char_of_char simp_thms mod_less_divisor zero_less_numeral) blast
  with 4 show ?case by simp
qed

text \<open>
  decoding with \<^verbatim>\<open>from_base64\<close> what \<^verbatim>\<open>to_base64\<close> encoded gives back the original bytes,
  for every binary string, although the 32-bit accumulator of both loops overflows on long
  inputs.
\<close>

theorem base64_roundtrip: "from_base64 (to_base64 s) = s"
proof -
  have "to_base64 s = pad4 (map sextet_char (chunk3 s))"
    by (simp add: to_base64_final enc_loop_chunk3)
  then show ?thesis
    by (simp add: from_base64_def pad4_def dec_loop_chunk3)
qed

section \<open>Properties of subs and split\<close>

lemma split_cut: "delim \<noteq> [] \<Longrightarrow> split s delim = cut_pieces 1000 s 0 delim (pieces delim s)"
  using split_loop_pieces [of delim 0 s 1000 0 "[]"] by (simp add: split_def)

lemma split_pieces:
  "delim \<noteq> [] \<Longrightarrow> split s delim =
     (if occurrences delim s < 1000 then pieces delim s
      else take 1000 (pieces delim s) @ [join delim (drop 999 (pieces delim s))])"
  by (auto simp: split_cut cut_pieces_def occurrences_def less_diff_conv2 Suc_le_eq)

lemma subs_split:
  assumes "sq \<noteq> []"
  shows "subs s sq r = concat (map (\<lambda>p. p @ r) (butlast (split s sq))) @ last (split s sq)"
proof -
  obtain pr ot where "split_loop 1000 s sq 0 (Some 0) [] = (pr, ot)" by fastforce
  with assms subs_loop_split_loop [of 1000 s sq r 0 "Some 0" "[]"] show ?thesis
    by (auto simp: subs_def split_def split: prod.splits)
qed

lemma pieces_no_occurrence: "find_sub sq s = None \<Longrightarrow> pieces sq s = [s]"
  by (subst pieces.simps) simp

lemma subs_absent: "sq \<noteq> [] \<Longrightarrow> find_sub sq s = None \<Longrightarrow> subs s sq r = s"
  by (simp add: subs_split split_pieces occurrences_def pieces_no_occurrence)

text \<open>
  \<^verbatim>\<open>split\<close> returns the pieces between the delimiters as long as there are fewer than 1000 of
  them (joining them again gives the input); from 1000 delimiters on its time-out makes it
  return the first 1000 pieces and then the rest of the input from the start of the
  1000th piece, so that this piece is returned twice.
\<close>

theorem split_exact:
  assumes "delim \<noteq> []"
  shows "split s delim =
     (if occurrences delim s < 1000 then pieces delim s
      else take 1000 (pieces delim s) @ [join delim (drop 999 (pieces delim s))]) \<and>
    (occurrences delim s < 1000 \<longrightarrow> join delim (split s delim) = s)"
  using assms by (simp add: split_pieces join_pieces)

theorem split_exact_witness:
  "split ''a/bc/'' ''/'' = [''a'', ''bc'', []] \<and> join ''/'' (split ''a/bc/'' ''/'') = ''a/bc/''"
proof -
  have d: "''/'' \<noteq> ([] :: string)" by simp
  have p: "pieces ''/'' ''a/bc/'' = [''a'', ''bc'', []]" by code_simp
  show ?thesis using split_exact [OF d, of "''a/bc/''"] by (simp add: p occurrences_def)
qed

text \<open>
  With fewer than 1000 occurrences \<^verbatim>\<open>subs\<close> replaces every occurrence (left to right, not
  overlapping) of the sequence and nothing else.
\<close>

lemma subs_replaces_all:
  assumes "sq \<noteq> []" "occurrences sq s < 1000"
  shows "subs s sq r = replace_all s sq r"
  using assms by (simp add: subs_split split_pieces replace_all_def join_concat)

section \<open>readTimestamp\<close>

text \<open>
  \<^verbatim>\<open>std::from_chars\<close> into a 64-bit \<^verbatim>\<open>long\<close>: the first character is a digit here, so it
  reads the longest run of digits and fails with \<^verbatim>\<open>result_out_of_range\<close> above the maximum.
  The result is the new value of \<^verbatim>\<open>dest\<close> and the returned flag.
\<close>

definition readTimestamp :: "string \<Rightarrow> int \<Rightarrow> bool \<times> int" where
  "readTimestamp value dest =
     (if value = [] \<or> \<not> is_digit (hd value) then (False, dest)
      else let ds = takeWhile is_digit value; temp = int (nat_of_dec ds) in
        if temp < 2 ^ 63 \<and> length ds = length value then (True, temp) else (False, dest))"

end
