(* ===== verification/Catena_Path.thy ===== *)
theory Catena_Path
  imports Catena_Utils
begin

text \<open>
  \<^verbatim>\<open>common/include/Path.h\<close> and \<^verbatim>\<open>common/src/Path.cpp\<close>: a json pointer as a vector of segments
  with a cursor (\<^verbatim>\<open>frontIdx_\<close>). The theory holds the parser with its regular expression, the
  cursor operations, printing, and the locale \<open>segment_cursor\<close> through which the parameter
  lookup uses a path: it only relies on the cursor's laws.
\<close>

section \<open>Data\<close>

datatype segment = SIndex size_t | SOid string

record path =
  segments :: "segment list"
  frontIdx :: nat

definition kEnd :: size_t where "kEnd = -1"
definition kError :: size_t where "kError = kEnd - 1"
definition kNone :: size_t where "kNone = kEnd - 2"

section \<open>Parsing\<close>

definition is_alpha :: "char \<Rightarrow> bool" where
  "is_alpha c \<longleftrightarrow> (let n = (of_char c :: nat) in (65 \<le> n \<and> n \<le> 90) \<or> (97 \<le> n \<and> n \<le> 122))"

definition is_oid_start :: "char \<Rightarrow> bool" where
  "is_oid_start c \<longleftrightarrow> is_alpha c \<or> c = CHR ''_''"

definition is_word :: "char \<Rightarrow> bool" where
  "is_word c \<longleftrightarrow> is_alpha c \<or> is_digit c \<or> c = CHR ''_''"

text \<open>
  One match of \<^verbatim>\<open>kSegmentRegex\<close> at the start of the text, with the alternative that matched
  and the matched text (solidus included). All three alternatives are greedy.
\<close>

datatype seg_match = MatchOid string | MatchIdx string | MatchEnd string

fun match_segment :: "string \<Rightarrow> (seg_match \<times> string) option" where
  "match_segment (s # c # cs) =
     (if s \<noteq> CHR ''/'' then None
      else if is_oid_start c then
        Some (MatchOid (s # c # takeWhile is_word cs), dropWhile is_word cs)
      else if is_digit c then
        Some (MatchIdx (s # c # takeWhile is_digit cs), dropWhile is_digit cs)
      else if c = CHR ''-'' then Some (MatchEnd [s, c], cs)
      else None)"
| "match_segment _ = None"

lemma match_segment_shorter:
  "match_segment s = Some (m, r) \<Longrightarrow> length r < length s"
proof (induction s rule: match_segment.induct)
  case (1 s c cs)
  then show ?case
    using length_dropWhile_le [of is_word cs] length_dropWhile_le [of is_digit cs]
    by (auto split: if_splits)
qed simp_all

text \<open>
  Every match of the iterator over a text that \<^verbatim>\<open>kPathRegex\<close> accepts; \<^const>\<open>None\<close> when it
  does not accept. No segment contains a second solidus, so the matches are consecutive and
  the decomposition is unique (\<open>path_regex_iff\<close> below).
\<close>

function path_matches :: "string \<Rightarrow> seg_match list option" where
  "path_matches s =
     (if s = [] then Some []
      else case match_segment s of
             None \<Rightarrow> None
           | Some (m, r) \<Rightarrow> map_option ((#) m) (path_matches r))"
  by pat_completeness auto
termination
  by (relation "measure length") (auto dest: match_segment_shorter)

declare path_matches.simps [simp del]

definition escape :: "string \<Rightarrow> string" where
  "escape str = subs (subs str ''~'' ''~0'') ''/'' ''~1''"

definition unescape :: "string \<Rightarrow> string" where
  "unescape str = subs (subs str ''~0'' ''~'') ''~1'' ''/''"

text \<open>\<^verbatim>\<open>std::stoul\<close> on a run of digits: \<^verbatim>\<open>std::out_of_range\<close> above the maximum.\<close>

definition stoul :: "string \<Rightarrow> size_t res" where
  "stoul txt = (if nat_of_dec txt < 2 ^ 64 then Ret (of_nat (nat_of_dec txt)) else Throw StdOutOfRange)"

fun seg_of_match :: "seg_match \<Rightarrow> segment res" where
  "seg_of_match (MatchOid t) = Ret (SOid (drop 1 (unescape t)))"
| "seg_of_match (MatchIdx t) = res_bind (stoul (drop 1 (unescape t))) (\<lambda>i. Ret (SIndex i))"
| "seg_of_match (MatchEnd t) = Ret (SIndex kEnd)"

fun segs_of_matches :: "seg_match list \<Rightarrow> segment list res" where
  "segs_of_matches [] = Ret []"
| "segs_of_matches (m # ms) =
     res_bind (seg_of_match m) (\<lambda>s. res_bind (segs_of_matches ms) (\<lambda>ss. Ret (s # ss)))"

definition Path :: "string \<Rightarrow> path res" where
  "Path jptr =
     (case path_matches jptr of
        None \<Rightarrow> Throw (ExceptionWithStatus INVALID_ARGUMENT)
      | Some ms \<Rightarrow> res_bind (segs_of_matches ms) (\<lambda>ss. Ret \<lparr>segments = ss, frontIdx = 0\<rparr>))"

section \<open>Cursor operations\<close>

definition path_size :: "path \<Rightarrow> nat" where
  "path_size p = length (segments p) - frontIdx p"

definition path_empty :: "path \<Rightarrow> bool" where
  "path_empty p \<longleftrightarrow> frontIdx p \<ge> length (segments p)"

fun is_index :: "segment \<Rightarrow> bool" where
  "is_index (SIndex _) = True"
| "is_index (SOid _) = False"

definition front_is_index :: "path \<Rightarrow> bool" where
  "front_is_index p \<longleftrightarrow> frontIdx p < length (segments p) \<and> is_index (segments p ! frontIdx p)"

definition front_is_string :: "path \<Rightarrow> bool" where
  "front_is_string p \<longleftrightarrow> frontIdx p < length (segments p) \<and> \<not> is_index (segments p ! frontIdx p)"

definition front_as_index :: "path \<Rightarrow> size_t" where
  "front_as_index p =
     (if front_is_index p
      then (case segments p ! frontIdx p of SIndex i \<Rightarrow> i | SOid _ \<Rightarrow> kError)
      else kError)"

definition front_as_string :: "path \<Rightarrow> string" where
  "front_as_string p =
     (if front_is_string p
      then (case segments p ! frontIdx p of SOid s \<Rightarrow> s | SIndex _ \<Rightarrow> [])
      else [])"

definition back_is_string :: "path \<Rightarrow> bool" where
  "back_is_string p \<longleftrightarrow>
     length (segments p) > 0 \<and> \<not> is_index (segments p ! (length (segments p) - 1))"

definition back_is_index :: "path \<Rightarrow> bool" where
  "back_is_index p \<longleftrightarrow>
     length (segments p) > 0 \<and> is_index (segments p ! (length (segments p) - 1))"

definition back_as_index :: "path \<Rightarrow> size_t" where
  "back_as_index p =
     (if back_is_index p
      then (case segments p ! (length (segments p) - 1) of SIndex i \<Rightarrow> i | SOid _ \<Rightarrow> kError)
      else kError)"

definition back_as_string :: "path \<Rightarrow> string" where
  "back_as_string p =
     (if back_is_string p
      then (case segments p ! (length (segments p) - 1) of SOid s \<Rightarrow> s | SIndex _ \<Rightarrow> [])
      else [])"

definition path_pop :: "path \<Rightarrow> path" where
  "path_pop p = (if frontIdx p < length (segments p) then p\<lparr>frontIdx := frontIdx p + 1\<rparr> else p)"

definition path_popBack :: "path \<Rightarrow> path" where
  "path_popBack p =
     (if length (segments p) > 0
      then let ss = butlast (segments p) in
           p\<lparr>segments := ss, frontIdx := (if frontIdx p > length ss then length ss else frontIdx p)\<rparr>
      else p)"

definition walked :: "path \<Rightarrow> nat" where
  "walked p = frontIdx p"

definition path_rewind :: "path \<Rightarrow> path" where
  "path_rewind p = p\<lparr>frontIdx := 0\<rparr>"

definition path_unpop :: "path \<Rightarrow> path" where
  "path_unpop p = (if frontIdx p > 0 then p\<lparr>frontIdx := frontIdx p - 1\<rparr> else p)"

definition push_back_oid :: "string \<Rightarrow> path \<Rightarrow> path" where
  "push_back_oid sgm p =
     (if sgm = ''-'' then p\<lparr>segments := segments p @ [SIndex kEnd]\<rparr>
      else p\<lparr>segments := segments p @ [SOid (escape sgm)]\<rparr>)"

definition push_back_index :: "size_t \<Rightarrow> path \<Rightarrow> path" where
  "push_back_index idx p = p\<lparr>segments := segments p @ [SIndex idx]\<rparr>"

section \<open>Printing\<close>

fun seg_to_string :: "segment \<Rightarrow> string" where
  "seg_to_string (SIndex i) = (if i = kEnd then ''-'' else dec_of_nat (unat i))"
| "seg_to_string (SOid s) = s"

fun toString_loop :: "bool \<Rightarrow> bool \<Rightarrow> segment list \<Rightarrow> string" where
  "toString_loop leading_slash first [] = []"
| "toString_loop leading_slash first (s # ss) =
     (if first \<and> \<not> leading_slash then [] else ''/'') @ seg_to_string s
       @ toString_loop leading_slash False ss"

definition toString_from :: "bool \<Rightarrow> nat \<Rightarrow> path \<Rightarrow> string" where
  "toString_from leading_slash startIdx p = toString_loop leading_slash True (drop startIdx (segments p))"

definition path_toString :: "bool \<Rightarrow> path \<Rightarrow> string" where
  "path_toString leading_slash p = toString_from leading_slash (frontIdx p) p"

definition fqoid :: "path \<Rightarrow> string" where
  "fqoid p = toString_from True 0 p"


section \<open>The parser accepts exactly the language of the regular expression\<close>

inductive seg_lang :: "string \<Rightarrow> bool" where
  seg_oid: "is_oid_start c \<Longrightarrow> list_all is_word w \<Longrightarrow> seg_lang (CHR ''/'' # c # w)"
| seg_idx: "list_all is_digit ds \<Longrightarrow> ds \<noteq> [] \<Longrightarrow> seg_lang (CHR ''/'' # ds)"
| seg_end: "seg_lang ''/-''"

inductive path_lang :: "string \<Rightarrow> bool" where
  path_nil: "path_lang []"
| path_seg: "seg_lang a \<Longrightarrow> path_lang b \<Longrightarrow> path_lang (a @ b)"

fun match_text :: "seg_match \<Rightarrow> string" where
  "match_text (MatchOid t) = t"
| "match_text (MatchIdx t) = t"
| "match_text (MatchEnd t) = t"

text \<open>The shape of the text of each kind of match.\<close>

fun match_ok :: "seg_match \<Rightarrow> bool" where
  "match_ok (MatchOid t) \<longleftrightarrow> (\<exists>c w. t = CHR ''/'' # c # w \<and> is_oid_start c \<and> list_all is_word w)"
| "match_ok (MatchIdx t) \<longleftrightarrow> (\<exists>ds. t = CHR ''/'' # ds \<and> ds \<noteq> [] \<and> list_all is_digit ds)"
| "match_ok (MatchEnd t) \<longleftrightarrow> t = ''/-''"

definition next_seg :: "string \<Rightarrow> bool" where
  "next_seg r \<longleftrightarrow> r = [] \<or> hd r = CHR ''/''"

lemma not_word_slash [simp]: "\<not> is_word CHR ''/''" "\<not> is_digit CHR ''/''" "\<not> is_oid_start CHR ''/''"
  by (simp_all add: is_word_def is_digit_def is_alpha_def is_oid_start_def)

lemma not_word_dash [simp]: "\<not> is_oid_start CHR ''-''" "\<not> is_digit CHR ''-''"
  by (simp_all add: is_digit_def is_alpha_def is_oid_start_def)

lemma digit_not_oid_start: "is_digit c \<Longrightarrow> \<not> is_oid_start c"
  by (auto simp: is_digit_def is_alpha_def is_oid_start_def Let_def)

lemma digit_word: "is_digit c \<Longrightarrow> is_word c"
  by (simp add: is_word_def)

lemma oid_start_word: "is_oid_start c \<Longrightarrow> is_word c"
  by (auto simp: is_word_def is_oid_start_def)

lemma match_segment_sound:
  "match_segment s = Some (m, r) \<Longrightarrow> match_ok m \<and> s = match_text m @ r"
proof (induction s rule: match_segment.induct)
  case (1 s c cs)
  have "list_all is_word (takeWhile is_word cs)" "list_all is_digit (takeWhile is_digit cs)"
    by (auto simp: list_all_iff dest: set_takeWhileD)
  with 1 show ?case by (auto split: if_splits)
qed simp_all

lemma match_ok_seg_lang: "match_ok m \<Longrightarrow> seg_lang (match_text m)"
  by (cases m) (auto intro: seg_lang.intros)

lemma takeWhile_next:
  assumes "list_all P w" "\<not> P CHR ''/''" "next_seg r"
  shows "takeWhile P (w @ r) = w" and "dropWhile P (w @ r) = r"
  using assms by (cases r; simp add: next_seg_def list_all_iff takeWhile_append2 dropWhile_append2)+

lemma match_segment_complete:
  assumes "match_ok m" "next_seg r"
  shows "match_segment (match_text m @ r) = Some (m, r)"
proof (cases m)
  case (MatchOid t)
  with assms show ?thesis by (auto simp: takeWhile_next)
next
  case (MatchIdx t)
  with assms(1) obtain c ds where "t = CHR ''/'' # c # ds" "is_digit c" "list_all is_digit ds"
    by (auto simp: neq_Nil_conv)
  with MatchIdx assms(2) show ?thesis by (simp add: takeWhile_next digit_not_oid_start)
next
  case (MatchEnd t)
  with assms show ?thesis by simp
qed

lemma path_matches_sound:
  "path_matches s = Some ms \<Longrightarrow> list_all match_ok ms \<and> s = concat (map match_text ms)"
proof (induction s arbitrary: ms rule: path_matches.induct)
  case (1 s)
  show ?case
  proof (cases "s = []")
    case True
    with 1 show ?thesis by (simp add: path_matches.simps)
  next
    case False
    with 1 obtain m r ms' where "match_segment s = Some (m, r)" "path_matches r = Some ms'" "ms = m # ms'"
      by (subst (asm) (2) path_matches.simps) (auto split: option.splits prod.splits)
    with 1(1) [OF False] match_segment_sound [of s m r] show ?thesis by simp
  qed
qed

lemma match_text_hd: "match_ok m \<Longrightarrow> match_text m \<noteq> [] \<and> hd (match_text m) = CHR ''/''"
  by (cases m) auto

lemma next_seg_concat: "list_all match_ok ms \<Longrightarrow> next_seg (concat (map match_text ms))"
  by (cases ms) (auto simp: next_seg_def dest!: match_text_hd)

lemma path_matches_complete:
  "list_all match_ok ms \<Longrightarrow> path_matches (concat (map match_text ms)) = Some ms"
proof (induction ms)
  case Nil
  then show ?case by (simp add: path_matches.simps)
next
  case (Cons m ms)
  then show ?case
    using match_segment_complete [OF _ next_seg_concat, of m ms] match_text_hd [of m]
    by (subst path_matches.simps) auto
qed

lemma seg_lang_match: "seg_lang a \<Longrightarrow> \<exists>m. match_ok m \<and> match_text m = a"
proof (induction rule: seg_lang.induct)
  case (seg_oid c w)
  then show ?case by (intro exI [of _ "MatchOid (CHR ''/'' # c # w)"]) simp
next
  case (seg_idx ds)
  then show ?case by (intro exI [of _ "MatchIdx (CHR ''/'' # ds)"]) simp
next
  case seg_end
  then show ?case by (intro exI [of _ "MatchEnd ''/-''"]) simp
qed

lemma path_lang_matches:
  "path_lang s \<Longrightarrow> \<exists>ms. list_all match_ok ms \<and> concat (map match_text ms) = s"
proof (induction rule: path_lang.induct)
  case path_nil
  then show ?case by (intro exI [of _ "[]"]) simp
next
  case (path_seg a b)
  then obtain m ms where "match_ok m" "match_text m = a" "list_all match_ok ms"
    "concat (map match_text ms) = b" using seg_lang_match by blast
  then show ?case by (intro exI [of _ "m # ms"]) simp
qed

lemma matches_path_lang: "list_all match_ok ms \<Longrightarrow> path_lang (concat (map match_text ms))"
  by (induction ms) (auto intro: path_lang.intros match_ok_seg_lang)

lemma path_regex_iff: "path_matches s \<noteq> None \<longleftrightarrow> path_lang s"
proof
  assume "path_matches s \<noteq> None"
  then obtain ms where "path_matches s = Some ms" by blast
  then show "path_lang s" using path_matches_sound matches_path_lang by blast
next
  assume "path_lang s"
  then show "path_matches s \<noteq> None" using path_lang_matches path_matches_complete by fastforce
qed

section \<open>Parsed segments and the round trip\<close>

fun wf_segment :: "segment \<Rightarrow> bool" where
  "wf_segment (SIndex _) \<longleftrightarrow> True"
| "wf_segment (SOid s) \<longleftrightarrow> s \<noteq> [] \<and> is_oid_start (hd s) \<and> list_all is_word s"

definition wf_path :: "path \<Rightarrow> bool" where
  "wf_path p \<longleftrightarrow> frontIdx p \<le> length (segments p)"

lemma find_sub_absent: "p \<noteq> [] \<Longrightarrow> hd p \<notin> set s \<Longrightarrow> find_sub p s = None"
  by (induction s) (auto simp: starts_with_def neq_Nil_conv)

lemma unescape_id: "CHR ''~'' \<notin> set t \<Longrightarrow> unescape t = t"
  by (simp add: unescape_def subs_absent find_sub_absent)

lemma not_word_tilde [simp]:
  "\<not> is_word CHR ''~''" "\<not> is_digit CHR ''~''" "\<not> is_oid_start CHR ''~''"
  by (simp_all add: is_word_def is_digit_def is_alpha_def is_oid_start_def)

lemma list_all_notin: "list_all P xs \<Longrightarrow> \<not> P x \<Longrightarrow> x \<notin> set xs"
  by (auto simp: list_all_iff)

lemmas no_tilde = list_all_notin [of is_word _ "CHR ''~''", OF _ not_word_tilde(1)]
  list_all_notin [of is_digit _ "CHR ''~''", OF _ not_word_tilde(2)]

lemma match_ok_no_tilde: "match_ok m \<Longrightarrow> CHR ''~'' \<notin> set (match_text m)"
proof (cases m)
  case (MatchOid t)
  then show "match_ok m \<Longrightarrow> ?thesis" by (auto dest: no_tilde)
next
  case (MatchIdx t)
  then show "match_ok m \<Longrightarrow> ?thesis" by (auto dest: no_tilde)
qed simp

lemma seg_of_match_ok:
  assumes "match_ok m"
  shows "seg_of_match m = (case m of
      MatchOid t \<Rightarrow> Ret (SOid (drop 1 t))
    | MatchIdx t \<Rightarrow> res_bind (stoul (drop 1 t)) (\<lambda>i. Ret (SIndex i))
    | MatchEnd t \<Rightarrow> Ret (SIndex kEnd))"
  using match_ok_no_tilde [OF assms] by (cases m) (simp_all add: unescape_id)

lemma seg_of_match_wf: "match_ok m \<Longrightarrow> seg_of_match m = Ret sg \<Longrightarrow> wf_segment sg"
  by (simp only: seg_of_match_ok)
    (auto simp: res_simps oid_start_word split: seg_match.splits)

lemma segs_of_matches_wf:
  "list_all match_ok ms \<Longrightarrow> segs_of_matches ms = Ret ss \<Longrightarrow> list_all wf_segment ss"
  by (induction ms arbitrary: ss) (auto simp: res_simps dest: seg_of_match_wf)

lemma Path_Ret_wf:
  assumes "Path jptr = Ret p"
  shows "list_all wf_segment (segments p) \<and> frontIdx p = 0"
  using assms segs_of_matches_wf path_matches_sound
  by (fastforce simp: Path_def res_simps split: option.splits)

text \<open>The match that printing a segment gives back.\<close>

fun match_of_seg :: "segment \<Rightarrow> seg_match" where
  "match_of_seg (SIndex i) =
     (if i = kEnd then MatchEnd ''/-'' else MatchIdx (CHR ''/'' # dec_of_nat (unat i)))"
| "match_of_seg (SOid s) = MatchOid (CHR ''/'' # s)"

lemma match_of_seg_text: "match_text (match_of_seg s) = CHR ''/'' # seg_to_string s"
  by (cases s) simp_all

lemma match_of_seg_ok: "wf_segment s \<Longrightarrow> match_ok (match_of_seg s)"
proof (cases s)
  case (SOid x)
  then show "wf_segment s \<Longrightarrow> ?thesis" by (cases x) auto
qed (simp add: dec_of_nat_digits)

lemma seg_of_match_of_seg: "wf_segment s \<Longrightarrow> seg_of_match (match_of_seg s) = Ret s"
  using seg_of_match_ok [OF match_of_seg_ok, of s] unsigned_less [of "case s of SIndex i \<Rightarrow> i | _ \<Rightarrow> 0"]
  by (cases s) (auto simp: stoul_def)

lemma segs_of_match_of_seg:
  "list_all wf_segment ss \<Longrightarrow> segs_of_matches (map match_of_seg ss) = Ret ss"
  by (induction ss) (auto simp: seg_of_match_of_seg)

lemma toString_loop_slash: "toString_loop True first ss = concat (map (match_text \<circ> match_of_seg) ss)"
  by (induction ss arbitrary: first) (auto simp: match_of_seg_text)

lemma Path_fqoid:
  assumes "list_all wf_segment (segments p)"
  shows "Path (fqoid p) = Ret \<lparr>segments = segments p, frontIdx = 0\<rparr>"
proof -
  have "path_matches (fqoid p) = Some (map match_of_seg (segments p))"
    using path_matches_complete [of "map match_of_seg (segments p)"] assms
    by (simp add: fqoid_def toString_from_def toString_loop_slash list_all_iff match_of_seg_ok)
  then show ?thesis using assms by (simp add: Path_def segs_of_match_of_seg)
qed


text \<open>Evaluation of the constructor on a canonical text.\<close>

lemma Path_eval:
  assumes "list_all wf_segment ss" "toString_loop True True ss = s"
  shows "Path s = Ret \<lparr>segments = ss, frontIdx = 0\<rparr>"
  using Path_fqoid [of "\<lparr>segments = ss, frontIdx = 0\<rparr>"] assms
  by (simp add: fqoid_def toString_from_def)

section \<open>The cursor interface\<close>

text \<open>
  What the parameter lookup relies on: a path is a list of remaining segments from which
  \<open>pop\<close> takes the first.
\<close>

locale segment_cursor =
  fixes invar :: "'p \<Rightarrow> bool"
    and rest :: "'p \<Rightarrow> segment list"
    and pop :: "'p \<Rightarrow> 'p"
    and is_empty :: "'p \<Rightarrow> bool"
    and fr_string :: "'p \<Rightarrow> bool"
    and fr_index :: "'p \<Rightarrow> bool"
    and as_string :: "'p \<Rightarrow> string"
    and as_index :: "'p \<Rightarrow> size_t"
  assumes empty_rest: "invar p \<Longrightarrow> is_empty p \<longleftrightarrow> rest p = []"
    and pop_rest: "invar p \<Longrightarrow> rest (pop p) = tl (rest p)"
    and pop_invar: "invar p \<Longrightarrow> invar (pop p)"
    and no_front: "invar p \<Longrightarrow> rest p = [] \<Longrightarrow> \<not> fr_string p \<and> \<not> fr_index p"
    and string_front: "invar p \<Longrightarrow> rest p = SOid s # ss \<Longrightarrow> fr_string p \<and> \<not> fr_index p \<and> as_string p = s"
    and index_front: "invar p \<Longrightarrow> rest p = SIndex i # ss \<Longrightarrow> fr_index p \<and> \<not> fr_string p \<and> as_index p = i"
begin

lemma rest_cases:
  assumes "invar p"
  obtains (Empty) "rest p = []" "is_empty p" "\<not> fr_string p" "\<not> fr_index p"
    | (String) "rest p = SOid (as_string p) # rest (pop p)" "fr_string p" "\<not> fr_index p"
    | (Index) "rest p = SIndex (as_index p) # rest (pop p)" "fr_index p" "\<not> fr_string p"
proof (cases "rest p")
  case Nil
  with assms Empty show ?thesis by (simp add: empty_rest no_front)
next
  case (Cons s ss)
  with assms have p: "rest (pop p) = ss" by (simp add: pop_rest)
  from assms Cons p show ?thesis
    using String Index string_front [of p] index_front [of p] by (cases s) auto
qed

lemma pop_shorter: "invar p \<Longrightarrow> fr_string p \<or> fr_index p \<Longrightarrow> length (rest (pop p)) < length (rest p)"
  by (erule rest_cases) auto

lemma not_empty_front: "invar p \<Longrightarrow> \<not> is_empty p \<longleftrightarrow> fr_string p \<or> fr_index p"
  using empty_rest [of p] by (auto elim!: rest_cases)

end

definition remaining :: "path \<Rightarrow> segment list" where
  "remaining p = drop (frontIdx p) (segments p)"

lemma remaining_front: "remaining p = s # ss \<Longrightarrow> frontIdx p < length (segments p) \<and> segments p ! frontIdx p = s"
  unfolding remaining_def
  by (metis drop_eq_Nil hd_drop_conv_nth leI list.discI list.sel(1))

interpretation cur: segment_cursor wf_path remaining path_pop path_empty
  front_is_string front_is_index front_as_string front_as_index
proof
  fix p assume "wf_path p"
  show "path_empty p \<longleftrightarrow> remaining p = []" by (simp add: path_empty_def remaining_def)
  show "remaining (path_pop p) = tl (remaining p)"
    by (simp add: path_pop_def remaining_def drop_Suc tl_drop)
  from \<open>wf_path p\<close> show "wf_path (path_pop p)" by (simp add: wf_path_def path_pop_def)
next
  fix p assume "remaining p = []"
  then show "\<not> front_is_string p \<and> \<not> front_is_index p"
    by (simp add: remaining_def front_is_string_def front_is_index_def)
next
  fix p s ss assume "remaining p = SOid s # ss"
  from remaining_front [OF this] show "front_is_string p \<and> \<not> front_is_index p \<and> front_as_string p = s"
    by (simp add: front_is_string_def front_is_index_def front_as_string_def)
next
  fix p i ss assume "remaining p = SIndex i # ss"
  from remaining_front [OF this] show "front_is_index p \<and> \<not> front_is_string p \<and> front_as_index p = i"
    by (simp add: front_is_string_def front_is_index_def front_as_index_def)
qed

lemma length_remaining: "length (remaining p) = path_size p"
  by (simp add: remaining_def path_size_def)

lemma path_pop_size: "\<not> path_empty p \<Longrightarrow> path_size (path_pop p) < path_size p"
  by (simp add: path_pop_def path_size_def path_empty_def)

lemma front_not_empty: "front_is_string p \<or> front_is_index p \<Longrightarrow> \<not> path_empty p"
  by (auto simp: front_is_string_def front_is_index_def path_empty_def)

lemma segments_path_pop [simp]: "segments (path_pop p) = segments p"
  by (simp add: path_pop_def)

lemma fqoid_path_pop [simp]: "fqoid (path_pop p) = fqoid p"
  by (simp add: fqoid_def toString_from_def)

section \<open>Properties\<close>

text \<open>
  C38: every path the constructor accepts prints back (\<^verbatim>\<open>fqoid\<close>) to a pointer that parses to
  the same path.
\<close>

theorem path_roundtrip:
  assumes "Path jptr = Ret p"
  shows "Path (fqoid p) = Ret p"
proof -
  from Path_Ret_wf [OF assms] have "list_all wf_segment (segments p)" "frontIdx p = 0" by auto
  then show ?thesis using Path_fqoid [of p] by simp
qed

theorem path_roundtrip_witness:
  "Path ''/audio/7/-'' = Ret \<lparr>segments = [SOid ''audio'', SIndex 7, SIndex kEnd], frontIdx = 0\<rparr> \<and>
   Path (fqoid \<lparr>segments = [SOid ''audio'', SIndex 7, SIndex kEnd], frontIdx = 0\<rparr>) =
     Ret \<lparr>segments = [SOid ''audio'', SIndex 7, SIndex kEnd], frontIdx = 0\<rparr>"
proof -
  have a: "Path ''/audio/7/-'' = Ret \<lparr>segments = [SOid ''audio'', SIndex 7, SIndex kEnd], frontIdx = 0\<rparr>"
    by (rule Path_eval) code_simp+
  show ?thesis using a path_roundtrip [OF a] by simp
qed


end
