(* ===== verification/Float32.thy ===== *)
theory Float32
  imports Catena_Prelude
begin

text \<open>
  The IEEE 754 single precision numbers that the \<^verbatim>\<open>float\<close> parameters and constraints of the
  sources compute with. Every finite single precision number is a multiple of \<open>2 ^ -149\<close>,
  so a finite value is a sign and a magnitude counted in that unit, and the arithmetic is
  exact integer arithmetic followed by one rounding to nearest, ties to even. Evaluation is
  in \<^verbatim>\<open>float\<close> itself (no excess precision, no contraction into fused operations).
\<close>

datatype f32 = FNaN | FInf bool | FFin bool nat

fun f32_int :: "bool \<Rightarrow> nat \<Rightarrow> int" where
  "f32_int neg m = (if neg then - int m else int m)"

definition round_half_even :: "nat \<Rightarrow> nat \<Rightarrow> nat" where
  "round_half_even n d =
     (let q = n div d; r = n mod d in
      if 2 * r < d \<or> (2 * r = d \<and> even q) then q else q + 1)"

text \<open>The least exponent at which the integral part fits in the 24 bits of the significand.\<close>

fun f32_exp :: "nat \<Rightarrow> nat" where
  "f32_exp q = (if q < 2 ^ 24 then 0 else Suc (f32_exp (q div 2)))"

declare f32_exp.simps [simp del]

text \<open>The number \<open>n / d\<close> units, rounded; \<open>2 ^ 277\<close> units is \<open>2 ^ 128\<close>, the overflow threshold.\<close>

definition f32_round :: "bool \<Rightarrow> nat \<Rightarrow> nat \<Rightarrow> f32" where
  "f32_round neg n d =
     (let e = f32_exp (n div d); m = round_half_even n (d * 2 ^ e) * 2 ^ e in
      if m \<ge> 2 ^ 277 then FInf neg else FFin neg m)"

fun f32_lt :: "f32 \<Rightarrow> f32 \<Rightarrow> bool" where
  "f32_lt FNaN _ = False"
| "f32_lt _ FNaN = False"
| "f32_lt (FInf s) b = (s \<and> b \<noteq> FInf True)"
| "f32_lt (FFin _ _) (FInf s) = (\<not> s)"
| "f32_lt (FFin s m) (FFin s' m') = (f32_int s m < f32_int s' m')"

fun f32_eq :: "f32 \<Rightarrow> f32 \<Rightarrow> bool" where
  "f32_eq (FInf s) (FInf s') = (s = s')"
| "f32_eq (FFin s m) (FFin s' m') = (f32_int s m = f32_int s' m')"
| "f32_eq _ _ = False"

definition f32_le :: "f32 \<Rightarrow> f32 \<Rightarrow> bool" where
  "f32_le a b \<longleftrightarrow> f32_lt a b \<or> f32_eq a b"

fun f32_neg :: "f32 \<Rightarrow> f32" where
  "f32_neg FNaN = FNaN"
| "f32_neg (FInf s) = FInf (\<not> s)"
| "f32_neg (FFin s m) = FFin (\<not> s) m"

fun f32_add :: "f32 \<Rightarrow> f32 \<Rightarrow> f32" where
  "f32_add FNaN _ = FNaN"
| "f32_add _ FNaN = FNaN"
| "f32_add (FInf s) (FInf s') = (if s = s' then FInf s else FNaN)"
| "f32_add (FInf s) (FFin _ _) = FInf s"
| "f32_add (FFin _ _) (FInf s) = FInf s"
| "f32_add (FFin s m) (FFin s' m') =
     (let v = f32_int s m + f32_int s' m' in
      if v = 0 then FFin (s \<and> s') 0 else f32_round (v < 0) (nat \<bar>v\<bar>) 1)"

definition f32_sub :: "f32 \<Rightarrow> f32 \<Rightarrow> f32" where
  "f32_sub a b = f32_add a (f32_neg b)"

fun f32_mul :: "f32 \<Rightarrow> f32 \<Rightarrow> f32" where
  "f32_mul FNaN _ = FNaN"
| "f32_mul _ FNaN = FNaN"
| "f32_mul (FInf s) (FInf s') = FInf (s \<noteq> s')"
| "f32_mul (FInf s) (FFin s' m) = (if m = 0 then FNaN else FInf (s \<noteq> s'))"
| "f32_mul (FFin s m) (FInf s') = (if m = 0 then FNaN else FInf (s \<noteq> s'))"
| "f32_mul (FFin s m) (FFin s' m') = f32_round (s \<noteq> s') (m * m') (2 ^ 149)"

fun f32_div :: "f32 \<Rightarrow> f32 \<Rightarrow> f32" where
  "f32_div FNaN _ = FNaN"
| "f32_div _ FNaN = FNaN"
| "f32_div (FInf s) (FInf s') = FNaN"
| "f32_div (FInf s) (FFin s' m) = FInf (s \<noteq> s')"
| "f32_div (FFin s m) (FInf s') = FFin (s \<noteq> s') 0"
| "f32_div (FFin s m) (FFin s' m') =
     (if m' = 0 then (if m = 0 then FNaN else FInf (s \<noteq> s'))
      else f32_round (s \<noteq> s') (m * 2 ^ 149) m')"

fun f32_abs :: "f32 \<Rightarrow> f32" where
  "f32_abs FNaN = FNaN"
| "f32_abs (FInf _) = FInf False"
| "f32_abs (FFin _ m) = FFin False m"

text \<open>\<^verbatim>\<open>std::round\<close>: to the nearest integer, halves away from zero.\<close>

fun f32_nearest :: "f32 \<Rightarrow> f32" where
  "f32_nearest FNaN = FNaN"
| "f32_nearest (FInf s) = FInf s"
| "f32_nearest (FFin s m) = FFin s ((2 * m + 2 ^ 149) div 2 ^ 150 * 2 ^ 149)"

text \<open>The conversion of a \<^verbatim>\<open>float\<close> to \<^verbatim>\<open>bool\<close>.\<close>

fun f32_nonzero :: "f32 \<Rightarrow> bool" where
  "f32_nonzero (FFin _ m) = (m \<noteq> 0)"
| "f32_nonzero _ = True"

definition f32_zero :: f32 where "f32_zero = FFin False 0"

text \<open>The value of an integer, and of the decimal literal \<open>n / d\<close>.\<close>

definition f32_of_frac :: "bool \<Rightarrow> nat \<Rightarrow> nat \<Rightarrow> f32" where
  "f32_of_frac neg n d = f32_round neg (n * 2 ^ 149) d"

section \<open>Order\<close>

definition f32_finite :: "f32 \<Rightarrow> bool" where
  "f32_finite a \<longleftrightarrow> (case a of FFin _ _ \<Rightarrow> True | _ \<Rightarrow> False)"

lemma f32_le_refl: "a \<noteq> FNaN \<Longrightarrow> f32_le a a"
  by (cases a) (auto simp: f32_le_def)

lemma f32_not_lt: "a \<noteq> FNaN \<Longrightarrow> b \<noteq> FNaN \<Longrightarrow> \<not> f32_lt a b \<Longrightarrow> f32_le b a"
  by (cases a; cases b) (auto simp: f32_le_def)

lemma f32_lt_le: "f32_lt a b \<Longrightarrow> f32_le a b"
  by (simp add: f32_le_def)

lemma f32_le_trans: "f32_le a b \<Longrightarrow> f32_le b c \<Longrightarrow> f32_le a c"
  by (cases a; cases b; cases c) (auto simp: f32_le_def split: if_splits)

lemma f32_le_not_nan: "f32_le a b \<Longrightarrow> a \<noteq> FNaN \<and> b \<noteq> FNaN"
  by (cases a; cases b) (auto simp: f32_le_def)

lemma f32_round_not_nan [simp]: "f32_round s n d \<noteq> FNaN"
  by (simp add: f32_round_def Let_def)

lemma f32_add_not_nan: "a \<noteq> FNaN \<Longrightarrow> f32_finite b \<Longrightarrow> f32_add a b \<noteq> FNaN"
  by (cases a; cases b) (auto simp: f32_finite_def Let_def)

lemma f32_sub_not_nan: "a \<noteq> FNaN \<Longrightarrow> f32_finite b \<Longrightarrow> f32_sub a b \<noteq> FNaN"
  using f32_add_not_nan [of a "f32_neg b"] by (cases b) (auto simp: f32_sub_def f32_finite_def)

lemma f32_div_not_nan:
  "a \<noteq> FNaN \<Longrightarrow> f32_finite b \<Longrightarrow> f32_nonzero b \<Longrightarrow> f32_div a b \<noteq> FNaN"
  by (cases a; cases b) (auto simp: f32_finite_def)

lemma f32_nearest_not_nan: "a \<noteq> FNaN \<Longrightarrow> f32_nearest a \<noteq> FNaN"
  by (cases a) auto

lemma f32_mul_not_nan:
  "a \<noteq> FNaN \<Longrightarrow> f32_finite b \<Longrightarrow> f32_nonzero b \<Longrightarrow> f32_mul a b \<noteq> FNaN"
  by (cases a; cases b) (auto simp: f32_finite_def)

lemmas f32_not_nan = f32_add_not_nan f32_sub_not_nan f32_div_not_nan f32_nearest_not_nan f32_mul_not_nan

section \<open>Representable magnitudes\<close>

text \<open>A magnitude is representable when it is a 24-bit significand times a power of two.\<close>

definition f32_repr :: "nat \<Rightarrow> bool" where
  "f32_repr m \<longleftrightarrow> (\<exists>k e. k < 2 ^ 24 \<and> m = k * 2 ^ e)"

lemma f32_exp_fits: "q div 2 ^ f32_exp q < 2 ^ 24"
proof (induction q rule: f32_exp.induct)
  case (1 q)
  then show ?case
    by (subst f32_exp.simps) (auto simp: div_mult2_eq)
qed

lemma round_half_even_le: "d > 0 \<Longrightarrow> round_half_even n d \<le> n div d + 1"
  by (simp add: round_half_even_def Let_def)

lemma f32_round_repr:
  assumes "d > 0" "f32_round s n d = FFin s' m"
  shows "f32_repr m"
proof -
  let ?e = "f32_exp (n div d)"
  let ?k = "round_half_even n (d * 2 ^ ?e)"
  from assms have m: "m = ?k * 2 ^ ?e"
    by (auto simp: f32_round_def Let_def split: if_splits)
  have "?k \<le> n div (d * 2 ^ ?e) + 1" using assms(1) by (intro round_half_even_le) simp
  also have "\<dots> \<le> 2 ^ 24" using f32_exp_fits [of "n div d"] by (simp add: div_mult2_eq)
  finally consider "?k < 2 ^ 24" | "?k = 2 ^ 24" by linarith
  then show ?thesis
  proof cases
    case 1
    then show ?thesis using m f32_repr_def by blast
  next
    case 2
    with m have "m = 1 * 2 ^ (24 + ?e)" by (simp add: power_add)
    then show ?thesis unfolding f32_repr_def by (intro exI [of _ 1] exI [of _ "24 + ?e"]) simp
  qed
qed

end
