(* ===== verification/Catena_Value.thy ===== *)
theory Catena_Value
  imports Float32
begin

text \<open>
  The protobuf messages the parameter code reads and writes. \<^verbatim>\<open>st2138::Value\<close> is a oneof: one
  constructor per field and \<open>KindNotSet\<close> for none. A getter of a field that is not the one
  set returns the field's default, and \<^verbatim>\<open>clear_x\<close> clears the oneof only when \<open>x\<close> is the field
  that is set. The messages are those the sources of the Go SDK show under
  \<^verbatim>\<open>sdks/go/pkg/protos\<close>. A \<^verbatim>\<open>google::protobuf::Map\<close> is an association list.
\<close>

datatype ParamType =
    UNDEFINED | EMPTY | INT32 | FLOAT32 | STRING | STRUCT | STRUCT_VARIANT
  | INT32_ARRAY | FLOAT32_ARRAY | STRING_ARRAY | BINARY | STRUCT_ARRAY | STRUCT_VARIANT_ARRAY | DATA

type_synonym polyglot = "(string \<times> string) list"

datatype pvalue =
    KindNotSet
  | UndefinedValue
  | EmptyValue
  | Int32Value i32
  | Float32Value f32
  | StringValue string
  | StructValue "(string \<times> pvalue) list"
  | Int32Array "i32 list"
  | Float32Array "f32 list"
  | StringArray "string list"
  | StructArray "(string \<times> pvalue) list list"
  | DataPayload
  | StructVariantValue string pvalue
  | StructVariantArray "(string \<times> pvalue) list"

fun has_int32_value :: "pvalue \<Rightarrow> bool" where
  "has_int32_value (Int32Value _) = True" | "has_int32_value _ = False"

fun int32_value :: "pvalue \<Rightarrow> i32" where
  "int32_value (Int32Value i) = i" | "int32_value _ = 0"

fun has_float32_value :: "pvalue \<Rightarrow> bool" where
  "has_float32_value (Float32Value _) = True" | "has_float32_value _ = False"

fun float32_value :: "pvalue \<Rightarrow> f32" where
  "float32_value (Float32Value f) = f" | "float32_value _ = f32_zero"

fun has_string_value :: "pvalue \<Rightarrow> bool" where
  "has_string_value (StringValue _) = True" | "has_string_value _ = False"

fun string_value :: "pvalue \<Rightarrow> string" where
  "string_value (StringValue s) = s" | "string_value _ = []"

fun has_struct_value :: "pvalue \<Rightarrow> bool" where
  "has_struct_value (StructValue _) = True" | "has_struct_value _ = False"

fun struct_fields :: "pvalue \<Rightarrow> (string \<times> pvalue) list" where
  "struct_fields (StructValue fs) = fs" | "struct_fields _ = []"

fun has_int32_array_values :: "pvalue \<Rightarrow> bool" where
  "has_int32_array_values (Int32Array _) = True" | "has_int32_array_values _ = False"

fun int32_array_values :: "pvalue \<Rightarrow> i32 list" where
  "int32_array_values (Int32Array xs) = xs" | "int32_array_values _ = []"

fun has_float32_array_values :: "pvalue \<Rightarrow> bool" where
  "has_float32_array_values (Float32Array _) = True" | "has_float32_array_values _ = False"

fun float32_array_values :: "pvalue \<Rightarrow> f32 list" where
  "float32_array_values (Float32Array xs) = xs" | "float32_array_values _ = []"

fun has_string_array_values :: "pvalue \<Rightarrow> bool" where
  "has_string_array_values (StringArray _) = True" | "has_string_array_values _ = False"

fun string_array_values :: "pvalue \<Rightarrow> string list" where
  "string_array_values (StringArray xs) = xs" | "string_array_values _ = []"

fun has_struct_array_values :: "pvalue \<Rightarrow> bool" where
  "has_struct_array_values (StructArray _) = True" | "has_struct_array_values _ = False"

fun struct_array_values :: "pvalue \<Rightarrow> (string \<times> pvalue) list list" where
  "struct_array_values (StructArray xs) = xs" | "struct_array_values _ = []"

fun has_struct_variant_value :: "pvalue \<Rightarrow> bool" where
  "has_struct_variant_value (StructVariantValue _ _) = True" | "has_struct_variant_value _ = False"

fun struct_variant_value :: "pvalue \<Rightarrow> string \<times> pvalue" where
  "struct_variant_value (StructVariantValue t v) = (t, v)" | "struct_variant_value _ = ([], KindNotSet)"

fun has_struct_variant_array_values :: "pvalue \<Rightarrow> bool" where
  "has_struct_variant_array_values (StructVariantArray _) = True"
| "has_struct_variant_array_values _ = False"

fun struct_variant_array_values :: "pvalue \<Rightarrow> (string \<times> pvalue) list" where
  "struct_variant_array_values (StructVariantArray xs) = xs" | "struct_variant_array_values _ = []"

text \<open>\<^verbatim>\<open>clear_x\<close> of the oneof members that the serialisers clear.\<close>

definition clear_when :: "(pvalue \<Rightarrow> bool) \<Rightarrow> pvalue \<Rightarrow> pvalue" where
  "clear_when has v = (if has v then KindNotSet else v)"

lemma has_value_iff [simp]:
  "has_int32_value v \<longleftrightarrow> (\<exists>i. v = Int32Value i)"
  "has_float32_value v \<longleftrightarrow> (\<exists>f. v = Float32Value f)"
  "has_string_value v \<longleftrightarrow> (\<exists>s. v = StringValue s)"
  "has_struct_value v \<longleftrightarrow> (\<exists>fs. v = StructValue fs)"
  "has_int32_array_values v \<longleftrightarrow> (\<exists>xs. v = Int32Array xs)"
  "has_float32_array_values v \<longleftrightarrow> (\<exists>ys. v = Float32Array ys)"
  "has_string_array_values v \<longleftrightarrow> (\<exists>ss. v = StringArray ss)"
  "has_struct_array_values v \<longleftrightarrow> (\<exists>fss. v = StructArray fss)"
  "has_struct_variant_value v \<longleftrightarrow> (\<exists>t w. v = StructVariantValue t w)"
  "has_struct_variant_array_values v \<longleftrightarrow> (\<exists>ts. v = StructVariantArray ts)"
  by (cases v; simp)+

end
