(* ===== verification/Catena_Constraint.thy ===== *)
theory Catena_Constraint
  imports Catena_Value
begin

text \<open>
  \<^verbatim>\<open>RangeConstraint.h\<close>, \<^verbatim>\<open>ChoiceConstraint.h\<close> and \<^verbatim>\<open>ChoiceConstraint.cpp\<close> behind the interface
  of \<^verbatim>\<open>IConstraint.h\<close>. The template instances are one record each; the virtual dispatch is the
  datatype \<open>constraint\<close>. The locale \<open>rounding_constraint\<close> states what the parameter code
  relies on when it rounds a value into a range.
\<close>

section \<open>Protobuf message\<close>

datatype ConstraintType =
    CT_UNDEFINED | CT_INT_RANGE | CT_FLOAT_RANGE | CT_INT_CHOICE | CT_STRING_CHOICE
  | CT_STRING_STRING_CHOICE | CT_ALARM_TABLE

datatype pckind =
    CKindNotSet
  | CRefOid string
  | CInt32Range i32 i32 i32 i32 i32
  | CFloatRange f32 f32 f32 f32 f32
  | CInt32Choice "(i32 \<times> polyglot) list"
  | CStringChoice "string list" bool
  | CStringStringChoice "(string \<times> polyglot) list" bool

record pconstraint =
  pc_type :: ConstraintType
  pc_kind :: pckind

definition pconstraint_default :: pconstraint where
  "pconstraint_default = \<lparr>pc_type = CT_UNDEFINED, pc_kind = CKindNotSet\<rparr>"

fun mutable_int32_choice :: "pckind \<Rightarrow> (i32 \<times> polyglot) list" where
  "mutable_int32_choice (CInt32Choice cs) = cs" | "mutable_int32_choice _ = []"

fun mutable_string_choice :: "pckind \<Rightarrow> string list \<times> bool" where
  "mutable_string_choice (CStringChoice cs st) = (cs, st)" | "mutable_string_choice _ = ([], False)"

fun mutable_string_string_choice :: "pckind \<Rightarrow> (string \<times> polyglot) list \<times> bool" where
  "mutable_string_string_choice (CStringStringChoice cs st) = (cs, st)"
| "mutable_string_string_choice _ = ([], False)"

text \<open>\<^verbatim>\<open>PolyglotText::toProto\<close>: the destination is cleared, then filled by map insertion.\<close>

definition map_insert :: "string \<Rightarrow> 'a \<Rightarrow> (string \<times> 'a) list \<Rightarrow> (string \<times> 'a) list" where
  "map_insert k v m = (if map_of m k = None then m @ [(k, v)] else m)"

definition PolyglotText_toProto :: "polyglot \<Rightarrow> polyglot \<Rightarrow> polyglot" where
  "PolyglotText_toProto dst src = fold (\<lambda>(k, v) d. map_insert k v d) src []"

section \<open>Range constraints\<close>

record int_range =
  ir_min :: i32
  ir_max :: i32
  ir_step :: i32
  ir_display_min :: i32
  ir_display_max :: i32
  ir_oid :: string
  ir_shared :: bool

definition IntRangeConstraint ::
  "i32 \<Rightarrow> i32 \<Rightarrow> i32 \<Rightarrow> i32 \<Rightarrow> i32 \<Rightarrow> string \<Rightarrow> bool \<Rightarrow> int_range res" where
  "IntRangeConstraint mn mx step dmin dmax oid shared =
     res_bind (i32_abs step) (\<lambda>st.
     Ret \<lparr>ir_min = mn, ir_max = mx, ir_step = st, ir_display_min = dmin, ir_display_max = dmax,
          ir_oid = oid, ir_shared = shared\<rparr>)"

definition int_range_satisfied :: "int_range \<Rightarrow> pvalue \<Rightarrow> bool res" where
  "int_range_satisfied c src =
     (if has_int32_value src \<and> sint (int32_value src) \<ge> sint (ir_min c)
           \<and> sint (int32_value src) \<le> sint (ir_max c)
      then if ir_step c = 0 then Ret True
           else res_bind (i32_sub (int32_value src) (ir_min c)) (\<lambda>d.
                res_bind (i32_rem d (ir_step c)) (\<lambda>r. Ret (r = 0)))
      else Ret False)"

definition int_range_apply :: "int_range \<Rightarrow> pvalue \<Rightarrow> pvalue res" where
  "int_range_apply c src =
     (if has_int32_value src then
        let s = int32_value src in
        if sint s < sint (ir_min c) then Ret (Int32Value (ir_min c))
        else if sint s > sint (ir_max c) then Ret (Int32Value (ir_max c))
        else if ir_step c \<noteq> 0 then
          res_bind (i32_sub s (ir_min c)) (\<lambda>d.
          res_bind (i32_rem d (ir_step c)) (\<lambda>r.
          if r \<noteq> 0 then res_bind (i32_sub s r) (\<lambda>v. Ret (Int32Value v)) else Ret (Int32Value s)))
        else Ret (Int32Value s)
      else Ret KindNotSet)"

definition int_range_toProto :: "int_range \<Rightarrow> pconstraint \<Rightarrow> pconstraint" where
  "int_range_toProto c dst =
     dst\<lparr>pc_type := CT_INT_RANGE,
         pc_kind := CInt32Range (ir_min c) (ir_max c) (ir_step c) (ir_display_min c) (ir_display_max c)\<rparr>"

record float_range =
  fr_min :: f32
  fr_max :: f32
  fr_step :: f32
  fr_display_min :: f32
  fr_display_max :: f32
  fr_oid :: string
  fr_shared :: bool

definition FloatRangeConstraint ::
  "f32 \<Rightarrow> f32 \<Rightarrow> f32 \<Rightarrow> f32 \<Rightarrow> f32 \<Rightarrow> string \<Rightarrow> bool \<Rightarrow> float_range" where
  "FloatRangeConstraint mn mx step dmin dmax oid shared =
     \<lparr>fr_min = mn, fr_max = mx, fr_step = f32_abs step, fr_display_min = dmin,
      fr_display_max = dmax, fr_oid = oid, fr_shared = shared\<rparr>"

definition float_range_apply :: "float_range \<Rightarrow> pvalue \<Rightarrow> pvalue" where
  "float_range_apply c src =
     (if has_float32_value src then
        let val = float32_value src in
        if f32_lt val (fr_min c) then Float32Value (fr_min c)
        else if f32_lt (fr_max c) val then Float32Value (fr_max c)
        else if f32_nonzero (fr_step c) then
          let steps = f32_nearest (f32_div (f32_sub val (fr_min c)) (fr_step c));
              newVal = f32_add (f32_mul steps (fr_step c)) (fr_min c)
          in if f32_lt newVal (fr_min c) then Float32Value (fr_min c)
             else if f32_lt (fr_max c) newVal then Float32Value (fr_max c)
             else Float32Value newVal
        else Float32Value val
      else KindNotSet)"

definition kStepTolerance :: f32 where
  "kStepTolerance = f32_of_frac False 1 10000"

definition float_range_satisfied :: "float_range \<Rightarrow> pvalue \<Rightarrow> bool" where
  "float_range_satisfied c src =
     (has_float32_value src \<and>
      (let val = float32_value src in
       f32_le (fr_min c) val \<and> f32_le val (fr_max c) \<and>
       (\<not> f32_nonzero (fr_step c) \<or>
        f32_lt (f32_abs (f32_sub (float32_value (float_range_apply c src)) val))
               (f32_mul (fr_step c) kStepTolerance))))"

definition float_range_toProto :: "float_range \<Rightarrow> pconstraint \<Rightarrow> pconstraint" where
  "float_range_toProto c dst =
     dst\<lparr>pc_type := CT_FLOAT_RANGE,
         pc_kind := CFloatRange (fr_min c) (fr_max c) (fr_step c) (fr_display_min c) (fr_display_max c)\<rparr>"

section \<open>Choice constraints\<close>

record 'a choice =
  choices :: "('a \<times> polyglot) list"
  ch_strict :: bool
  ch_default :: 'a
  ch_oid :: string
  ch_shared :: bool

text \<open>
  The constructor: the map keeps the first of two entries with the same key, and reading the
  first entry of an empty initializer list is undefined.
\<close>

definition ChoiceConstraint ::
  "('a \<times> polyglot) list \<Rightarrow> bool \<Rightarrow> string \<Rightarrow> bool \<Rightarrow> 'a choice res" where
  "ChoiceConstraint init strict oid shared =
     (case init of
        [] \<Rightarrow> Undef
      | e # _ \<Rightarrow> Ret \<lparr>choices = AList.clearjunk init, ch_strict = strict, ch_default = fst e,
                      ch_oid = oid, ch_shared = shared\<rparr>)"

definition contains :: "('a \<times> 'b) list \<Rightarrow> 'a \<Rightarrow> bool" where
  "contains m k = (map_of m k \<noteq> None)"

definition int_choice_satisfied :: "i32 choice \<Rightarrow> pvalue \<Rightarrow> bool" where
  "int_choice_satisfied c src = contains (choices c) (int32_value src)"

definition string_choice_satisfied :: "string choice \<Rightarrow> pvalue \<Rightarrow> bool" where
  "string_choice_satisfied c src = (\<not> ch_strict c \<or> contains (choices c) (string_value src))"

definition string_string_choice_satisfied :: "string choice \<Rightarrow> pvalue \<Rightarrow> bool" where
  "string_string_choice_satisfied c src = (\<not> ch_strict c \<or> contains (choices c) (string_value src))"

definition int_choice_toProto :: "i32 choice \<Rightarrow> pconstraint \<Rightarrow> pconstraint" where
  "int_choice_toProto c dst =
     fold (\<lambda>(value, name) d.
             d\<lparr>pc_kind := CInt32Choice (mutable_int32_choice (pc_kind d)
                                         @ [(value, PolyglotText_toProto [] name)])\<rparr>)
          (choices c) (dst\<lparr>pc_type := CT_INT_CHOICE\<rparr>)"

definition string_choice_toProto :: "string choice \<Rightarrow> pconstraint \<Rightarrow> pconstraint" where
  "string_choice_toProto c dst =
     fold (\<lambda>(value, name) d.
             let (cs, st) = mutable_string_choice (pc_kind d) in
             d\<lparr>pc_kind := CStringChoice (cs @ [value]) st\<rparr>)
          (choices c) (dst\<lparr>pc_type := CT_STRING_CHOICE\<rparr>)"

definition string_string_choice_toProto :: "string choice \<Rightarrow> pconstraint \<Rightarrow> pconstraint" where
  "string_string_choice_toProto c dst =
     fold (\<lambda>(value, name) d.
             let (cs, st) = mutable_string_string_choice (pc_kind d) in
             d\<lparr>pc_kind := CStringStringChoice (cs @ [(value, PolyglotText_toProto [] name)]) st\<rparr>)
          (choices c) (dst\<lparr>pc_type := CT_STRING_STRING_CHOICE\<rparr>)"

section \<open>Dispatch\<close>

datatype constraint =
    IntRange int_range
  | FloatRange float_range
  | IntChoice "i32 choice"
  | StringChoice "string choice"
  | StringStringChoice "string choice"

fun satisfied :: "constraint \<Rightarrow> pvalue \<Rightarrow> bool res" where
  "satisfied (IntRange c) src = int_range_satisfied c src"
| "satisfied (FloatRange c) src = Ret (float_range_satisfied c src)"
| "satisfied (IntChoice c) src = Ret (int_choice_satisfied c src)"
| "satisfied (StringChoice c) src = Ret (string_choice_satisfied c src)"
| "satisfied (StringStringChoice c) src = Ret (string_string_choice_satisfied c src)"

fun apply_constraint :: "constraint \<Rightarrow> pvalue \<Rightarrow> pvalue res" where
  "apply_constraint (IntRange c) src = int_range_apply c src"
| "apply_constraint (FloatRange c) src = Ret (float_range_apply c src)"
| "apply_constraint _ src = Ret KindNotSet"

fun isRange :: "constraint \<Rightarrow> bool" where
  "isRange (IntRange _) = True"
| "isRange (FloatRange _) = True"
| "isRange _ = False"

fun isShared :: "constraint \<Rightarrow> bool" where
  "isShared (IntRange c) = ir_shared c"
| "isShared (FloatRange c) = fr_shared c"
| "isShared (IntChoice c) = ch_shared c"
| "isShared (StringChoice c) = ch_shared c"
| "isShared (StringStringChoice c) = ch_shared c"

fun constraint_getOid :: "constraint \<Rightarrow> string" where
  "constraint_getOid (IntRange c) = ir_oid c"
| "constraint_getOid (FloatRange c) = fr_oid c"
| "constraint_getOid (IntChoice c) = ch_oid c"
| "constraint_getOid (StringChoice c) = ch_oid c"
| "constraint_getOid (StringStringChoice c) = ch_oid c"

fun constraint_toProto :: "constraint \<Rightarrow> pconstraint \<Rightarrow> pconstraint" where
  "constraint_toProto (IntRange c) dst = int_range_toProto c dst"
| "constraint_toProto (FloatRange c) dst = float_range_toProto c dst"
| "constraint_toProto (IntChoice c) dst = int_choice_toProto c dst"
| "constraint_toProto (StringChoice c) dst = string_choice_toProto c dst"
| "constraint_toProto (StringStringChoice c) dst = string_string_choice_toProto c dst"

section \<open>Rounding into an integer range\<close>

definition wf_int_range :: "int_range \<Rightarrow> bool" where
  "wf_int_range c \<longleftrightarrow>
     sint (ir_min c) \<le> sint (ir_max c) \<and> sint (ir_max c) - sint (ir_min c) < 2 ^ 31 \<and> sint (ir_step c) \<ge> 0"

lemma i32_sub_Ret:
  "- (2 ^ 31) \<le> sint a - sint b \<Longrightarrow> sint a - sint b < 2 ^ 31 \<Longrightarrow>
   \<exists>d. i32_sub a b = Ret d \<and> sint d = sint a - sint b"
  using sint_word_of_int32 [of "sint a - sint b"] by (auto simp: i32_sub_def i32_of_int_def)

lemma sint_eq_0_iff: "sint (w :: i32) = 0 \<longleftrightarrow> w = 0"
  using signed_word_eqI [of w 0] by auto

lemma smod_nonneg: "0 \<le> (a :: int) \<Longrightarrow> a smod b = a mod \<bar>b\<bar>"
  by (cases "a = 0") (auto simp: smod_int_alt_def)

lemma i32_rem_Ret:
  assumes "0 \<le> sint a" "b \<noteq> 0"
  shows "\<exists>r. i32_rem a b = Ret r \<and> sint r = sint a mod \<bar>sint b\<bar>"
proof -
  have "\<bar>sint b\<bar> > 0" using assms(2) by (simp add: sint_eq_0_iff)
  then have "0 \<le> sint a mod \<bar>sint b\<bar>" by simp
  moreover have "sint a mod \<bar>sint b\<bar> \<le> sint a" using assms(1) by (simp add: zmod_le_nonneg_dividend)
  ultimately show ?thesis
    using assms sint_i32_range(2) [of a]
    by (auto simp: i32_rem_def i32_of_int_def smod_nonneg sint_word_of_int32)
qed

text \<open>The step arithmetic of a value that is in the range, when nothing overflows.\<close>

lemma int_range_step:
  assumes "sint (ir_min c) \<le> sint s" "sint s - sint (ir_min c) < 2 ^ 31" "ir_step c \<noteq> 0"
  obtains d r v where "i32_sub s (ir_min c) = Ret d" "i32_rem d (ir_step c) = Ret r"
    "sint r = (sint s - sint (ir_min c)) mod \<bar>sint (ir_step c)\<bar>"
    "i32_sub s r = Ret v" "sint v = sint s - sint r" "sint (ir_min c) \<le> sint v"
proof -
  from assms obtain d where d: "i32_sub s (ir_min c) = Ret d" "sint d = sint s - sint (ir_min c)"
    using i32_sub_Ret [of s "ir_min c"] by auto
  with assms obtain r where r: "i32_rem d (ir_step c) = Ret r" "sint r = sint d mod \<bar>sint (ir_step c)\<bar>"
    using i32_rem_Ret [of d "ir_step c"] by auto
  have pos: "\<bar>sint (ir_step c)\<bar> > 0" using assms(3) by (simp add: sint_eq_0_iff)
  have le: "0 \<le> sint r" "sint r \<le> sint d"
    using r(2) d(2) assms(1) pos by (simp_all add: zmod_le_nonneg_dividend)
  with d assms obtain v where v: "i32_sub s r = Ret v" "sint v = sint s - sint r"
    using i32_sub_Ret [of s r] sint_i32_range [of s] sint_i32_range [of "ir_min c"] by auto
  show ?thesis using d r v le by (intro that [of d r v]) auto
qed

lemma int_range_apply_cases:
  assumes "wf_int_range c"
  obtains r where "int_range_apply c (Int32Value s) = Ret (Int32Value r)"
    "sint (ir_min c) \<le> sint r" "sint r \<le> sint (ir_max c)"
    "sint (ir_min c) \<le> sint s \<Longrightarrow> sint r \<le> sint s"
    "sint s < sint (ir_min c) \<Longrightarrow> r = ir_min c"
    "sint (ir_max c) < sint s \<Longrightarrow> r = ir_max c"
    "sint s \<le> sint (ir_max c) \<Longrightarrow> sint (ir_step c) dvd (sint r - sint (ir_min c)) \<or> ir_step c = 0"
    "sint (ir_min c) \<le> sint s \<Longrightarrow> sint s \<le> sint (ir_max c) \<Longrightarrow>
       (if ir_step c = 0 then r = s else sint s - sint r < sint (ir_step c))"
proof (cases "sint (ir_min c) \<le> sint s \<and> sint s \<le> sint (ir_max c) \<and> ir_step c \<noteq> 0")
  case False
  then show ?thesis
    using assms by (intro that [of "if sint s < sint (ir_min c) then ir_min c
                                     else if sint (ir_max c) < sint s then ir_max c else s"])
                   (auto simp: int_range_apply_def wf_int_range_def)
next
  case True
  with assms have b: "sint (ir_min c) \<le> sint s" "sint s - sint (ir_min c) < 2 ^ 31" "ir_step c \<noteq> 0"
    by (auto simp: wf_int_range_def)
  from int_range_step [OF b] obtain d r v where
    st: "i32_sub s (ir_min c) = Ret d" "i32_rem d (ir_step c) = Ret r"
    "sint r = (sint s - sint (ir_min c)) mod \<bar>sint (ir_step c)\<bar>"
    "i32_sub s r = Ret v" "sint v = sint s - sint r" "sint (ir_min c) \<le> sint v" .
  have step: "0 < sint (ir_step c)"
    using assms True by (metis order_le_less sint_eq_0_iff wf_int_range_def)
  have r: "sint r = (sint s - sint (ir_min c)) mod sint (ir_step c)" "0 \<le> sint r" "sint r < sint (ir_step c)"
    using st(3) step by simp_all
  have "sint (ir_step c) dvd (sint s - sint (ir_min c) - sint r)"
    using r(1) by (simp add: minus_mod_eq_mult_div)
  moreover have "sint s - sint (ir_min c) - sint r = sint v - sint (ir_min c)"
    using st(5) by simp
  ultimately have dvd: "sint (ir_step c) dvd (sint v - sint (ir_min c))" by metis
  have eq: "int_range_apply c (Int32Value s) = Ret (Int32Value v)"
  proof (cases "r = 0")
    case True
    with st(5) have "v = s" by (simp add: signed_word_eqI)
    with True st(1,2) \<open>sint (ir_min c) \<le> sint s \<and> _\<close> show ?thesis by (simp add: int_range_apply_def)
  next
    case False
    with st(1,2,4) True show ?thesis by (simp add: int_range_apply_def)
  qed
  show ?thesis using eq st(5,6) r dvd True
    by (intro that [of v]) auto
qed

text \<open>
  The interface the array code uses: rounding every element of an array one after the other.
  \<open>ok\<close> is what the rounding needs and \<open>inb\<close> what it promises of each result.
\<close>

locale bounded_rounding =
  fixes rnd :: "'a \<Rightarrow> 'a res"
    and ok :: "'a \<Rightarrow> bool"
    and inb :: "'a \<Rightarrow> bool"
  assumes rnd_inb: "ok x \<Longrightarrow> \<exists>y. rnd x = Ret y \<and> inb y"
begin

lemma rounds_all:
  "list_all ok xs \<Longrightarrow> \<exists>ys. res_map rnd xs = Ret ys \<and> length ys = length xs \<and> list_all inb ys"
proof (induction xs)
  case (Cons x xs)
  then obtain ys where "res_map rnd xs = Ret ys" "length ys = length xs" "list_all inb ys" by auto
  moreover from Cons.prems obtain y where "rnd x = Ret y" "inb y" using rnd_inb by auto
  ultimately show ?case by simp
qed simp

end

definition round_int :: "int_range \<Rightarrow> i32 \<Rightarrow> i32 res" where
  "round_int c i = res_bind (int_range_apply c (Int32Value i)) (\<lambda>v. Ret (int32_value v))"

definition in_int_range :: "int_range \<Rightarrow> i32 \<Rightarrow> bool" where
  "in_int_range c i \<longleftrightarrow> sint (ir_min c) \<le> sint i \<and> sint i \<le> sint (ir_max c)"

interpretation int_rounding: bounded_rounding "round_int c" "\<lambda>_. wf_int_range c" "in_int_range c"
  for c
proof
  fix s
  assume "wf_int_range c"
  then obtain r where "int_range_apply c (Int32Value s) = Ret (Int32Value r)"
    "sint (ir_min c) \<le> sint r" "sint r \<le> sint (ir_max c)"
    by (rule int_range_apply_cases [of c s]) blast
  then show "\<exists>y. round_int c s = Ret y \<and> in_int_range c y"
    by (simp add: round_int_def in_int_range_def)
qed

section \<open>Rounding into a float range\<close>

definition wf_float_range :: "float_range \<Rightarrow> bool" where
  "wf_float_range c \<longleftrightarrow>
     f32_finite (fr_min c) \<and> f32_finite (fr_step c) \<and> f32_le (fr_min c) (fr_max c)"

definition round_float :: "float_range \<Rightarrow> f32 \<Rightarrow> f32 res" where
  "round_float c f = Ret (float32_value (float_range_apply c (Float32Value f)))"

definition in_float_range :: "float_range \<Rightarrow> f32 \<Rightarrow> bool" where
  "in_float_range c f \<longleftrightarrow> f32_le (fr_min c) f \<and> f32_le f (fr_max c)"

lemma f32_finite_not_nan: "f32_finite a \<Longrightarrow> a \<noteq> FNaN"
  by (auto simp: f32_finite_def)

lemma float_step_not_nan:
  assumes "wf_float_range c" "val \<noteq> FNaN" "f32_nonzero (fr_step c)"
  shows "f32_add (f32_mul (f32_nearest (f32_div (f32_sub val (fr_min c)) (fr_step c))) (fr_step c)) (fr_min c) \<noteq> FNaN"
  using assms by (simp add: wf_float_range_def f32_not_nan)

lemma clamp_in_float_range:
  assumes "f32_le (fr_min c) (fr_max c)" "v \<noteq> FNaN"
  shows "in_float_range c (if f32_lt v (fr_min c) then fr_min c
                           else if f32_lt (fr_max c) v then fr_max c else v)"
proof -
  have nn: "fr_min c \<noteq> FNaN" "fr_max c \<noteq> FNaN" using f32_le_not_nan [OF assms(1)] by auto
  show ?thesis
    using assms nn by (auto simp: in_float_range_def f32_le_refl f32_not_lt)
qed

lemma float_range_apply_in:
  assumes "wf_float_range c" "val \<noteq> FNaN"
  shows "\<exists>r. float_range_apply c (Float32Value val) = Float32Value r \<and> in_float_range c r"
proof -
  have le: "f32_le (fr_min c) (fr_max c)" using assms(1) by (simp add: wf_float_range_def)
  define nv where
    "nv = f32_add (f32_mul (f32_nearest (f32_div (f32_sub val (fr_min c)) (fr_step c))) (fr_step c)) (fr_min c)"
  have nv: "f32_nonzero (fr_step c) \<Longrightarrow> nv \<noteq> FNaN"
    unfolding nv_def by (rule float_step_not_nan [OF assms])
  have nn: "fr_min c \<noteq> FNaN" "fr_max c \<noteq> FNaN" using f32_le_not_nan [OF le] by auto
  show ?thesis
    using clamp_in_float_range [OF le assms(2)] clamp_in_float_range [OF le nv] le nn
    by (auto simp: float_range_apply_def Let_def nv_def [symmetric] in_float_range_def f32_le_refl
             split: if_splits)
qed

interpretation float_rounding:
  bounded_rounding "round_float c" "\<lambda>f. wf_float_range c \<and> f \<noteq> FNaN" "in_float_range c"
  for c
proof
  fix f
  assume "wf_float_range c \<and> f \<noteq> FNaN"
  then show "\<exists>y. round_float c f = Ret y \<and> in_float_range c y"
    using float_range_apply_in [of c f] by (auto simp: round_float_def)
qed

section \<open>Properties\<close>



text \<open>
  an integer satisfies a range constraint exactly when rounding leaves it as it is, so the
  two operations of the constraint agree on which values are valid, whatever the bounds.
\<close>

theorem int_range_satisfied_iff_fixpoint:
  "int_range_satisfied c v = Ret True \<longleftrightarrow> has_int32_value v \<and> int_range_apply c v = Ret v"
proof (cases v)
  case (Int32Value s)
  show ?thesis
  proof (cases "sint (ir_min c) \<le> sint s \<and> sint s \<le> sint (ir_max c) \<and> ir_step c \<noteq> 0")
    case False
    with Int32Value show ?thesis by (auto simp: int_range_satisfied_def int_range_apply_def)
  next
    case in_range: True
    show ?thesis
    proof (cases "sint s - sint (ir_min c) < 2 ^ 31")
      case False
      with in_range Int32Value show ?thesis
        by (simp add: int_range_satisfied_def int_range_apply_def i32_sub_def i32_of_int_def)
    next
      case True
      with in_range obtain d r w where
        st: "i32_sub s (ir_min c) = Ret d" "i32_rem d (ir_step c) = Ret r" "i32_sub s r = Ret w"
            "sint w = sint s - sint r"
        using int_range_step [of c s] by metis
      have "w = s \<longleftrightarrow> r = 0" using st(4) sint_eq_0_iff [of r] signed_word_eqI [of w s] by auto
      with st in_range Int32Value show ?thesis
        by (simp add: int_range_satisfied_def int_range_apply_def)
    qed
  qed
qed (simp_all add: int_range_satisfied_def)

text \<open>
  C33: rounding a number that is not a NaN into a float range with finite minimum and step gives
  a number between the minimum and the maximum, whatever the rounding errors of the step
  arithmetic are.
\<close>

theorem float_range_apply_in_range:
  assumes "wf_float_range c" "val \<noteq> FNaN"
  shows "\<exists>r. float_range_apply c (Float32Value val) = Float32Value r
           \<and> f32_le (fr_min c) r \<and> f32_le r (fr_max c)"
  using float_range_apply_in [OF assms] by (simp add: in_float_range_def)

theorem float_range_apply_in_range_witness:
  "\<exists>r. float_range_apply
         (FloatRangeConstraint (FFin True (2 ^ 148)) (FFin False (7 * 2 ^ 148)) (FFin True (2 ^ 147))
                               f32_zero f32_zero [] False)
         (Float32Value (FFin False (3 * 2 ^ 146))) = Float32Value r
       \<and> f32_le (FFin True (2 ^ 148)) r \<and> f32_le r (FFin False (7 * 2 ^ 148))"
proof -
  let ?c = "FloatRangeConstraint (FFin True (2 ^ 148)) (FFin False (7 * 2 ^ 148)) (FFin True (2 ^ 147))
              f32_zero f32_zero [] False"
  have "wf_float_range ?c"
    by (simp add: wf_float_range_def FloatRangeConstraint_def f32_finite_def f32_le_def)
  then show ?thesis
    using float_range_apply_in_range [of ?c "FFin False (3 * 2 ^ 146)"]
    by (simp add: FloatRangeConstraint_def)
qed

text \<open>A value above a maximum that is not on a step is rounded to one that violates the constraint.\<close>

lemma int_range_apply_off_step:
  "\<exists>c v w. IntRangeConstraint 0 10 3 0 10 [] False = Ret c \<and> int_range_apply c v = Ret w
         \<and> int_range_satisfied c w = Ret False"
  by (rule exI [of _ "\<lparr>ir_min = 0, ir_max = 10, ir_step = 3, ir_display_min = 0, ir_display_max = 10,
                      ir_oid = [], ir_shared = False\<rparr>"],
      rule exI [of _ "Int32Value 11"], rule exI [of _ "Int32Value 10"]) code_simp

end
