(* ===== verification/Catena_Authorizer.thy ===== *)
theory Catena_Authorizer
  imports Catena_Prelude
begin

text \<open>
  \<^verbatim>\<open>common/src/Authorizer.cpp\<close> with the scopes of \<^verbatim>\<open>Enums.h\<close>. Decoding the token is the
  third-party \<^verbatim>\<open>jwt-cpp\<close>: it is the argument \<open>decode\<close> of the constructor, which gives the
  claims of the payload or fails. The locale \<open>scoped_access\<close> is what the rest of the program
  relies on: write access to a scope includes read access.
\<close>

section \<open>Scopes\<close>

datatype Scopes_e = kUndefined | kMonitor | kOperate | kConfig | kAdmin

fun scope_name :: "Scopes_e \<Rightarrow> string" where
  "scope_name kUndefined = ''undefined''"
| "scope_name kMonitor = ''st2138:mon''"
| "scope_name kOperate = ''st2138:op''"
| "scope_name kConfig = ''st2138:cfg''"
| "scope_name kAdmin = ''st2138:adm''"

section \<open>Construction from a token\<close>

text \<open>A claim of the payload: a string, a number (its integral part) or anything else.\<close>

datatype claim = ClaimString string | ClaimNumber int | ClaimOther

record authorizer =
  authzDisabled :: bool
  exp_time :: u32
  clientScopes :: "string set"

definition kAuthzDisabled :: authorizer where
  "kAuthzDisabled = \<lparr>authzDisabled = True, exp_time = 0, clientScopes = {[]}\<rparr>"

text \<open>The words \<^verbatim>\<open>std::getline\<close> with delimiter \<open>d\<close> reads from a stream, until it fails.\<close>

function getlines :: "char \<Rightarrow> string \<Rightarrow> string list" where
  "getlines d s =
     (if s = [] then []
      else takeWhile (\<lambda>c. c \<noteq> d) s # getlines d (drop 1 (dropWhile (\<lambda>c. c \<noteq> d) s)))"
  by pat_completeness auto
termination
proof (relation "measure (\<lambda>(d, s). length s)")
  fix d :: char and s :: string
  assume "s \<noteq> []"
  moreover have "length (dropWhile (\<lambda>c. c \<noteq> d) s) \<le> length s" by (rule length_dropWhile_le)
  ultimately show "((d, drop 1 (dropWhile (\<lambda>c. c \<noteq> d) s)), d, s) \<in> measure (\<lambda>(d, s). length s)"
    by (cases s) auto
qed simp

declare getlines.simps [simp del]

text \<open>One turn of the loop over the claims; a failing conversion throws out of the \<^verbatim>\<open>try\<close>.\<close>

fun read_claim :: "string \<times> claim \<Rightarrow> authorizer \<Rightarrow> authorizer res" where
  "read_claim (name, c) a =
     (if name = ''scope'' then
        (case c of
           ClaimString s \<Rightarrow> Ret (a\<lparr>clientScopes := clientScopes a \<union> set (getlines CHR '' '' s)\<rparr>)
         | _ \<Rightarrow> Throw RuntimeError)
      else if name = ''exp'' then
        (case c of
           ClaimNumber n \<Rightarrow> (if 0 \<le> n \<and> n < 2 ^ 32 then Ret (a\<lparr>exp_time := word_of_int n\<rparr>) else Undef)
         | _ \<Rightarrow> Throw RuntimeError)
      else Ret a)"

fun read_claims :: "(string \<times> claim) list \<Rightarrow> authorizer \<Rightarrow> authorizer res" where
  "read_claims [] a = Ret a"
| "read_claims (c # cs) a = res_bind (read_claim c a) (read_claims cs)"

definition Authorizer :: "(string \<Rightarrow> (string \<times> claim) list option) \<Rightarrow> string \<Rightarrow> authorizer res" where
  "Authorizer decode JWSToken =
     (case decode JWSToken of
        None \<Rightarrow> Throw (ExceptionWithStatus UNAUTHENTICATED)
      | Some claims \<Rightarrow>
          (case read_claims claims \<lparr>authzDisabled = False, exp_time = 0, clientScopes = {}\<rparr> of
             Throw _ \<Rightarrow> Throw (ExceptionWithStatus UNAUTHENTICATED)
           | r \<Rightarrow> r))"

text \<open>\<open>now\<close> is the system clock in seconds.\<close>

definition isExpired :: "authorizer \<Rightarrow> int \<Rightarrow> bool" where
  "isExpired a now \<longleftrightarrow> exp_time a \<noteq> 0 \<and> uint (exp_time a) < now"

section \<open>Access checks\<close>

definition hasAuthz :: "authorizer \<Rightarrow> string \<Rightarrow> bool" where
  "hasAuthz a scope \<longleftrightarrow> authzDisabled a \<or> scope \<in> clientScopes a"

definition writeAuthz_scope :: "authorizer \<Rightarrow> string \<Rightarrow> bool" where
  "writeAuthz_scope a scope \<longleftrightarrow> hasAuthz a (scope @ '':w'')"

definition writeAuthz_e :: "authorizer \<Rightarrow> Scopes_e \<Rightarrow> bool" where
  "writeAuthz_e a scope \<longleftrightarrow> writeAuthz_scope a (scope_name scope)"

definition readAuthz_scope :: "authorizer \<Rightarrow> string \<Rightarrow> bool" where
  "readAuthz_scope a scope \<longleftrightarrow> hasAuthz a scope \<or> writeAuthz_scope a scope"

definition readAuthz_e :: "authorizer \<Rightarrow> Scopes_e \<Rightarrow> bool" where
  "readAuthz_e a scope \<longleftrightarrow> readAuthz_scope a (scope_name scope)"

lemma kAuthzDisabled_all [simp]:
  "hasAuthz kAuthzDisabled s" "writeAuthz_scope kAuthzDisabled s" "readAuthz_scope kAuthzDisabled s"
  by (simp_all add: hasAuthz_def writeAuthz_scope_def readAuthz_scope_def kAuthzDisabled_def)

text \<open>
  Access to objects that carry a scope and a read-only flag, over the checks on scopes.
\<close>

locale scoped_access =
  fixes rd :: "string \<Rightarrow> bool"
    and wr :: "string \<Rightarrow> bool"
    and ro :: "'p \<Rightarrow> bool"
    and scope_of :: "'p \<Rightarrow> string"
  assumes wr_rd: "wr s \<Longrightarrow> rd s"
begin

definition may_read :: "'p \<Rightarrow> bool" where "may_read p \<longleftrightarrow> rd (scope_of p)"
definition may_write :: "'p \<Rightarrow> bool" where "may_write p \<longleftrightarrow> \<not> ro p \<and> wr (scope_of p)"

lemma write_needs_read: "may_write p \<Longrightarrow> may_read p"
  by (simp add: may_read_def may_write_def wr_rd)

lemma read_only_blocks: "ro p \<Longrightarrow> \<not> may_write p"
  by (simp add: may_write_def)

end

section \<open>The words of a scope claim\<close>

lemma takeWhile_neq_append: "d \<notin> set w \<Longrightarrow> takeWhile (\<lambda>c. c \<noteq> d) (w @ d # t) = w"
  by (induction w) auto

lemma dropWhile_neq_append: "d \<notin> set w \<Longrightarrow> dropWhile (\<lambda>c. c \<noteq> d) (w @ d # t) = d # t"
  by (induction w) auto

text \<open>A word of the text: delimited on both sides by the delimiter or the ends of the text.\<close>

definition word_in :: "char \<Rightarrow> string \<Rightarrow> string \<Rightarrow> bool" where
  "word_in d w s \<longleftrightarrow>
     w \<noteq> [] \<and> d \<notin> set w \<and>
     (\<exists>a b. s = a @ w @ b \<and> (a = [] \<or> last a = d) \<and> (b = [] \<or> hd b = d))"

lemma word_in_nodelim: "d \<notin> set s \<Longrightarrow> word_in d w s \<longleftrightarrow> s \<noteq> [] \<and> w = s"
proof
  assume nd: "d \<notin> set s" and "word_in d w s"
  then obtain a b where s: "s = a @ w @ b" "a = [] \<or> last a = d" "b = [] \<or> hd b = d" "w \<noteq> []"
    by (auto simp: word_in_def)
  moreover have "a = []" "b = []"
    using nd s by (metis Un_iff last_in_set set_append, metis Un_iff hd_in_set set_append)
  ultimately show "s \<noteq> [] \<and> w = s" by simp
next
  assume "d \<notin> set s" "s \<noteq> [] \<and> w = s"
  then show "word_in d w s" unfolding word_in_def by (intro conjI exI [of _ "[]"]) auto
qed

lemma split_at_delim:
  assumes "h @ d # t = a @ d # r" "d \<notin> set h"
  shows "\<exists>a'. (a' = [] \<or> last a' = d) \<and> t = a' @ r"
proof -
  from assms(1) obtain us where
    "(h = a @ us \<and> us @ d # t = d # r) \<or> (h @ us = a \<and> d # t = us @ d # r)"
    by (auto simp: append_eq_append_conv2)
  then show ?thesis
  proof
    assume u: "h = a @ us \<and> us @ d # t = d # r"
    with assms(2) have "us = []" by (cases us) auto
    with u show ?thesis by simp
  next
    assume u: "h @ us = a \<and> d # t = us @ d # r"
    then show ?thesis
    proof (cases us)
      case (Cons x us')
      with u show ?thesis by (intro exI [of _ "us' @ [d]"]) simp
    qed simp
  qed
qed

lemma word_in_cons:
  assumes "d \<notin> set h"
  shows "word_in d w (h @ d # t) \<longleftrightarrow> (w = h \<and> h \<noteq> []) \<or> word_in d w t"
proof
  assume "word_in d w (h @ d # t)"
  then obtain a b where s: "h @ d # t = a @ w @ b" "a = [] \<or> last a = d" "b = [] \<or> hd b = d"
    "w \<noteq> []" "d \<notin> set w" by (auto simp: word_in_def)
  show "(w = h \<and> h \<noteq> []) \<or> word_in d w t"
  proof (cases a)
    case Nil
    with s have "w @ b = h @ d # t" by simp
    moreover from this s obtain b' where "b = d # b'"
      by (cases b) (auto dest!: arg_cong [of _ _ set])
    ultimately have "w = h"
      using takeWhile_neq_append [OF s(5), of b'] takeWhile_neq_append [OF assms, of t] by simp
    with s(4) show ?thesis by simp
  next
    case (Cons x xs)
    then have la: "a = butlast a @ [d]" using s(2) by (metis append_butlast_last_id list.distinct(1))
    with s(1) have "h @ d # t = butlast a @ d # (w @ b)" by (metis append.assoc append_Cons append_Nil)
    with assms obtain a' where "(a' = [] \<or> last a' = d) \<and> t = a' @ w @ b"
      using split_at_delim [where a = "butlast a" and r = "w @ b"] by blast
    with s show ?thesis unfolding word_in_def by blast
  qed
next
  assume "(w = h \<and> h \<noteq> []) \<or> word_in d w t"
  then show "word_in d w (h @ d # t)"
  proof
    assume "w = h \<and> h \<noteq> []"
    moreover have "h @ d # t = [] @ h @ d # t" by simp
    ultimately show ?thesis using assms unfolding word_in_def by (metis list.sel(1))
  next
    assume "word_in d w t"
    then obtain a b where "t = a @ w @ b" "a = [] \<or> last a = d" "b = [] \<or> hd b = d" "w \<noteq> []" "d \<notin> set w"
      by (auto simp: word_in_def)
    then show ?thesis unfolding word_in_def
      by (intro conjI exI [of _ "h @ d # a"] exI [of _ b]) auto
  qed
qed

lemma getlines_words: "w \<noteq> [] \<Longrightarrow> w \<in> set (getlines d s) \<longleftrightarrow> word_in d w s"
proof (induction d s rule: getlines.induct)
  case (1 d s)
  show ?case
  proof (cases "d \<in> set s")
    case True
    then obtain h t where s: "s = h @ d # t" "d \<notin> set h" by (meson split_list_first)
    then have "getlines d s = h # getlines d t"
      by (subst getlines.simps) (simp add: takeWhile_neq_append dropWhile_neq_append)
    moreover have "w \<in> set (getlines d t) \<longleftrightarrow> word_in d w t"
      using 1 s by (simp add: dropWhile_neq_append)
    ultimately show ?thesis using s 1(2) by (auto simp: word_in_cons)
  next
    case False
    then have tw: "takeWhile (\<lambda>c. c \<noteq> d) s = s" "dropWhile (\<lambda>c. c \<noteq> d) s = []"
      by (auto simp: dropWhile_eq_Nil_conv)
    have "getlines d s = (if s = [] then [] else [s])"
      using getlines.simps [of d s] getlines.simps [of d "[]"] unfolding tw by simp
    with False show ?thesis by (auto simp: word_in_nodelim)
  qed
qed

lemma read_claim_scopes:
  "read_claim (n, c) a = Ret b \<Longrightarrow>
     clientScopes b = clientScopes a \<union>
       (if n = ''scope'' then (case c of ClaimString s \<Rightarrow> set (getlines CHR '' '' s) | _ \<Rightarrow> {}) else {})
   \<and> authzDisabled b = authzDisabled a"
  by (auto split: if_splits claim.splits)

lemma read_claims_other:
  "read_claims cs a = Ret b \<Longrightarrow> ''scope'' \<notin> fst ` set cs \<Longrightarrow>
     clientScopes b = clientScopes a \<and> authzDisabled b = authzDisabled a"
proof (induction cs arbitrary: a)
  case (Cons c cs)
  obtain n x where c: "c = (n, x)" by (cases c)
  with Cons.prems obtain a' where "read_claim (n, x) a = Ret a'" "read_claims cs a' = Ret b"
    by (auto simp: res_bind_Ret_iff simp del: read_claim.simps)
  with Cons c read_claim_scopes [of n x a a'] show ?case by auto
qed simp

lemma read_claims_scopes:
  "read_claims cs a = Ret b \<Longrightarrow> distinct (map fst cs) \<Longrightarrow>
   map_of cs ''scope'' = Some (ClaimString s) \<Longrightarrow>
     clientScopes b = clientScopes a \<union> set (getlines CHR '' '' s) \<and> authzDisabled b = authzDisabled a"
proof (induction cs arbitrary: a)
  case (Cons c cs)
  obtain n x where c: "c = (n, x)" by (cases c)
  with Cons.prems obtain a' where a': "read_claim (n, x) a = Ret a'" "read_claims cs a' = Ret b"
    by (auto simp: res_bind_Ret_iff simp del: read_claim.simps)
  show ?case
  proof (cases "n = ''scope''")
    case True
    with Cons.prems c have "x = ClaimString s" "''scope'' \<notin> fst ` set cs" by auto
    with True read_claim_scopes [OF a'(1)] read_claims_other [OF a'(2)] show ?thesis by simp
  next
    case False
    with Cons c a' read_claim_scopes [OF a'(1)] show ?thesis by auto
  qed
qed simp

section \<open>Properties\<close>

text \<open>
  C31: an authorizer built from a token grants exactly what the token's scope claim says: write
  access to a scope needs the word \<^verbatim>\<open>scope:w\<close> among the words of the claim, read access the word
  \<^verbatim>\<open>scope\<close> or the word \<^verbatim>\<open>scope:w\<close>; no other token content grants anything.
\<close>

theorem token_grants_its_words:
  assumes "decode tok = Some claims" "distinct (map fst claims)"
    and "map_of claims ''scope'' = Some (ClaimString s)"
    and "Authorizer decode tok = Ret a" "sc \<noteq> []"
  shows "(writeAuthz_scope a sc \<longleftrightarrow> word_in CHR '' '' (sc @ '':w'') s)
       \<and> (readAuthz_scope a sc \<longleftrightarrow> word_in CHR '' '' sc s \<or> word_in CHR '' '' (sc @ '':w'') s)"
proof -
  have "read_claims claims \<lparr>authzDisabled = False, exp_time = 0, clientScopes = {}\<rparr> = Ret a"
    using assms(1,4) by (auto simp: Authorizer_def split: res.splits)
  with read_claims_scopes assms(2,3)
  have "clientScopes a = set (getlines CHR '' '' s)" "\<not> authzDisabled a" by fastforce+
  with assms(5) show ?thesis
    by (simp add: writeAuthz_scope_def readAuthz_scope_def hasAuthz_def getlines_words)
qed

theorem token_grants_its_words_witness:
  "\<exists>a. Authorizer (\<lambda>t. Some [(''exp'', ClaimNumber 9), (''scope'', ClaimString ''st2138:mon st2138:op:w'')]) ''t'' = Ret a
     \<and> writeAuthz_scope a ''st2138:op'' \<and> \<not> writeAuthz_scope a ''st2138:mon''"
proof -
  let ?d = "\<lambda>t :: string. Some [(''exp'', ClaimNumber 9), (''scope'', ClaimString ''st2138:mon st2138:op:w'')]"
  obtain a where a: "Authorizer ?d ''t'' = Ret a"
    by (simp add: Authorizer_def split: res.split)
  have "word_in CHR '' '' ''st2138:op:w'' ''st2138:mon st2138:op:w''"
       "\<not> word_in CHR '' '' ''st2138:mon:w'' ''st2138:mon st2138:op:w''"
    unfolding getlines_words [OF list.distinct(2), symmetric] by code_simp+
  then show ?thesis
    using a token_grants_its_words [of ?d, OF refl _ _ a, of _ "''st2138:op''"]
      token_grants_its_words [of ?d, OF refl _ _ a, of _ "''st2138:mon''"] by simp
qed

text \<open>
  A token that cannot be decoded, or whose scope or expiry claim has the wrong type, is
  refused as unauthenticated; the constructor throws nothing else.
\<close>

lemma bad_token_unauthenticated:
  "Authorizer decode tok = Throw e \<longleftrightarrow>
     e = ExceptionWithStatus UNAUTHENTICATED \<and>
     (case decode tok of
        None \<Rightarrow> True
      | Some claims \<Rightarrow>
          \<exists>x. read_claims claims \<lparr>authzDisabled = False, exp_time = 0, clientScopes = {}\<rparr> = Throw x)"
  by (auto simp: Authorizer_def split: option.splits res.splits)

end
