(* ===== verification/Catena_Descriptor.thy ===== *)
theory Catena_Descriptor
  imports Catena_Constraint Catena_Authorizer
begin

text \<open>
  \<^verbatim>\<open>ParamDescriptor.h\<close> and \<^verbatim>\<open>ParamDescriptor.cpp\<close>. A descriptor is its own members and its sub
  parameters; a reference to a descriptor (\<open>dref\<close>) is the node together with its ancestors, the
  chain the code walks through \<^verbatim>\<open>parent_\<close>, and the settings of the device it belongs to
  (\<^verbatim>\<open>dev_\<close>). The command implementation a descriptor may hold is user code and stays outside.
\<close>

section \<open>Data\<close>

record dinfo =
  pd_type :: ParamType
  pd_oid_aliases :: "string list"
  pd_name :: polyglot
  pd_widget :: string
  pd_scope :: string
  pd_read_only :: bool
  pd_stateless :: bool
  pd_oid :: string
  pd_template_oid :: string
  pd_constraint :: "constraint option"
  pd_isCommand :: bool
  pd_response :: bool
  pd_max_length :: u32
  pd_total_length :: size_t
  pd_precision :: u32
  pd_minimal_set :: bool

datatype pdesc = PDesc (dinfo_of: dinfo) (subParams: "(string \<times> pdesc) list")

record devcfg =
  default_scope :: string
  default_max_length :: u32
  default_total_length :: u32

record dref =
  chain :: "pdesc list"
  dev :: devcfg

text \<open>The members of the node a reference stands for. The chain of a reference is never empty.\<close>

definition node :: "dref \<Rightarrow> dinfo" where
  "node d = dinfo_of (hd (chain d))"

section \<open>Operations\<close>

fun readOnly_chain :: "pdesc list \<Rightarrow> bool" where
  "readOnly_chain [] = False"
| "readOnly_chain (p # parents) = (pd_read_only (dinfo_of p) \<or> (parents \<noteq> [] \<and> readOnly_chain parents))"

definition readOnly :: "dref \<Rightarrow> bool" where
  "readOnly d = readOnly_chain (chain d)"

fun getScope_chain :: "string \<Rightarrow> pdesc list \<Rightarrow> string" where
  "getScope_chain dflt [] = dflt"
| "getScope_chain dflt (p # parents) =
     (if pd_scope (dinfo_of p) = []
      then (if parents \<noteq> [] then getScope_chain dflt parents else dflt)
      else pd_scope (dinfo_of p))"

definition getScope :: "dref \<Rightarrow> string" where
  "getScope d = getScope_chain (default_scope (dev d)) (chain d)"

definition max_length :: "dref \<Rightarrow> u32" where
  "max_length d = (if pd_max_length (node d) > 0 then pd_max_length (node d) else default_max_length (dev d))"

definition total_length :: "dref \<Rightarrow> size_t" where
  "total_length d =
     (if pd_total_length (node d) > 0 then pd_total_length (node d) else ucast (default_total_length (dev d)))"

definition hasTemplateOid :: "dref \<Rightarrow> bool" where
  "hasTemplateOid d \<longleftrightarrow> pd_template_oid (node d) \<noteq> []"

text \<open>The operations that change a descriptor; a null sub parameter is \<open>None\<close>.\<close>

definition setOid :: "string \<Rightarrow> pdesc \<Rightarrow> pdesc" where
  "setOid oid p = PDesc ((dinfo_of p)\<lparr>pd_oid := oid\<rparr>) (subParams p)"

definition set_readOnly :: "bool \<Rightarrow> pdesc \<Rightarrow> pdesc" where
  "set_readOnly flag p = PDesc ((dinfo_of p)\<lparr>pd_read_only := flag\<rparr>) (subParams p)"

definition setMinimalSet :: "bool \<Rightarrow> pdesc \<Rightarrow> pdesc" where
  "setMinimalSet flag p = PDesc ((dinfo_of p)\<lparr>pd_minimal_set := flag\<rparr>) (subParams p)"

definition addSubParam :: "string \<Rightarrow> pdesc option \<Rightarrow> pdesc \<Rightarrow> pdesc res" where
  "addSubParam oid item p =
     (case item of
        None \<Rightarrow> Throw RuntimeError
      | Some sub \<Rightarrow> Ret (PDesc (dinfo_of p) (AList.update oid sub (subParams p))))"

definition getSubParam :: "dref \<Rightarrow> string \<Rightarrow> dref res" where
  "getSubParam d oid =
     (case map_of (subParams (hd (chain d))) oid of
        None \<Rightarrow> Throw RuntimeError
      | Some p \<Rightarrow> Ret (d\<lparr>chain := p # chain d\<rparr>))"

definition name_in_language :: "dref \<Rightarrow> string \<Rightarrow> string" where
  "name_in_language d language =
     (if contains (pd_name (node d)) language then the (map_of (pd_name (node d)) language) else [])"

section \<open>Access checks on descriptors\<close>

definition writeAuthz :: "authorizer \<Rightarrow> dref \<Rightarrow> bool" where
  "writeAuthz a d \<longleftrightarrow> \<not> readOnly d \<and> writeAuthz_scope a (getScope d)"

definition readAuthz :: "authorizer \<Rightarrow> dref \<Rightarrow> bool" where
  "readAuthz a d \<longleftrightarrow> readAuthz_scope a (getScope d)"

interpretation pd_access: scoped_access "readAuthz_scope a" "writeAuthz_scope a" readOnly getScope
  rewrites "scoped_access.may_read (readAuthz_scope a) getScope = readAuthz a"
    and "scoped_access.may_write (writeAuthz_scope a) readOnly getScope = writeAuthz a"
  for a
proof -
  show *: "scoped_access (readAuthz_scope a) (writeAuthz_scope a)"
    by unfold_locales (simp add: readAuthz_scope_def)
  show "scoped_access.may_read (readAuthz_scope a) getScope = readAuthz a"
    by (simp add: fun_eq_iff scoped_access.may_read_def [OF *] readAuthz_def)
  show "scoped_access.may_write (writeAuthz_scope a) readOnly getScope = writeAuthz a"
    by (simp add: fun_eq_iff scoped_access.may_write_def [OF *] writeAuthz_def)
qed

lemma readOnly_iff: "readOnly d \<longleftrightarrow> (\<exists>p \<in> set (chain d). pd_read_only (dinfo_of p))"
proof -
  have "readOnly_chain ps \<longleftrightarrow> (\<exists>p \<in> set ps. pd_read_only (dinfo_of p))" for ps
    by (induction ps) auto
  then show ?thesis by (simp add: readOnly_def)
qed

lemma getSubParam_chain:
  "getSubParam d oid = Ret s \<Longrightarrow>
     \<exists>p. map_of (subParams (hd (chain d))) oid = Some p \<and> chain s = p # chain d \<and> dev s = dev d"
  by (auto simp: getSubParam_def split: option.splits)

lemma readOnly_inherited: "getSubParam d oid = Ret s \<Longrightarrow> readOnly d \<Longrightarrow> readOnly s"
  by (auto simp: readOnly_iff dest!: getSubParam_chain)

lemma getScope_inherited:
  "getSubParam d oid = Ret s \<Longrightarrow> chain d \<noteq> [] \<Longrightarrow> pd_scope (node s) = [] \<Longrightarrow> getScope s = getScope d"
  by (auto simp: getScope_def node_def dest!: getSubParam_chain)

section \<open>Serialisation of the meta data\<close>

text \<open>The fields of \<^verbatim>\<open>st2138::Param\<close> and \<^verbatim>\<open>st2138::ParamInfo\<close> that the sources set.\<close>

datatype pparam = PParam
  (pp_type: ParamType) (pp_read_only: bool) (pp_stateless: bool) (pp_widget: string)
  (pp_minimal_set: bool) (pp_precision: u32) (pp_response: bool) (pp_oid_aliases: "string list")
  (pp_name: polyglot) (pp_constraint: "pconstraint option") (pp_params: "(string \<times> pparam) list")
  (pp_template_oid: string) (pp_value: "pvalue option")

record pparaminfo =
  pi_type :: ParamType
  pi_oid :: string
  pi_template_oid :: string
  pi_name :: polyglot

definition pparam_default :: pparam where
  "pparam_default = PParam UNDEFINED False False [] False 0 False [] [] None [] [] None"

definition pparaminfo_default :: pparaminfo where
  "pparaminfo_default = \<lparr>pi_type = UNDEFINED, pi_oid = [], pi_template_oid = [], pi_name = []\<rparr>"

text \<open>\<open>m[k] = v\<close> for every entry of the source map.\<close>

definition put_all :: "(string \<times> 'a) list \<Rightarrow> (string \<times> 'a) list \<Rightarrow> (string \<times> 'a) list" where
  "put_all src dst = fold (\<lambda>(k, v) m. AList.update k v m) src dst"

definition constraint_field :: "constraint option \<Rightarrow> pconstraint option \<Rightarrow> pconstraint option" where
  "constraint_field c dst =
     (case c of
        None \<Rightarrow> dst
      | Some k \<Rightarrow>
          (let m = (case dst of None \<Rightarrow> pconstraint_default | Some m \<Rightarrow> m) in
           Some (if isShared k then m\<lparr>pc_kind := CRefOid (constraint_getOid k)\<rparr>
                 else constraint_toProto k m)))"

definition subparam_at :: "(string \<times> pparam) list \<Rightarrow> string \<Rightarrow> pparam" where
  "subparam_at m k = (case map_of m k of None \<Rightarrow> pparam_default | Some p \<Rightarrow> p)"

lemma size_subParams: "(oid, sub) \<in> set (subParams p) \<Longrightarrow> size sub < size p"
  using size_list_estimation' [of "(oid, sub)" "subParams p" "size sub" "size_prod (\<lambda>_. 0) size"]
  by (cases p) simp

function pd_toProto :: "dref \<Rightarrow> authorizer \<Rightarrow> pparam \<Rightarrow> pparam" where
  "pd_toProto d authz param =
     (case chain d of
        [] \<Rightarrow> param
      | p # parents \<Rightarrow>
          PParam (pd_type (dinfo_of p)) (pd_read_only (dinfo_of p)) (pd_stateless (dinfo_of p))
            (pd_widget (dinfo_of p)) (pd_minimal_set (dinfo_of p)) (pd_precision (dinfo_of p))
            (pd_response (dinfo_of p))
            (pp_oid_aliases param @ pd_oid_aliases (dinfo_of p))
            (put_all (pd_name (dinfo_of p)) (pp_name param))
            (constraint_field (pd_constraint (dinfo_of p)) (pp_constraint param))
            (fold (\<lambda>(oid, sub) m.
                     let s = d\<lparr>chain := sub # p # parents\<rparr> in
                     if readAuthz authz s
                     then AList.update oid (pd_toProto s authz (subparam_at m oid)) m
                     else m)
                  (subParams p) (pp_params param))
            (pd_template_oid (dinfo_of p)) (pp_value param))"
  by pat_completeness auto

termination
  apply (relation "measure (\<lambda>(d, a, q). size (hd (chain d)))")
   apply (auto intro: size_subParams)
  done

declare pd_toProto.simps [simp del]

definition pd_toProto_info :: "dref \<Rightarrow> pparaminfo \<Rightarrow> pparaminfo" where
  "pd_toProto_info d info =
     \<lparr>pi_type = pd_type (node d), pi_oid = pd_oid (node d), pi_template_oid = pd_template_oid (node d),
      pi_name = put_all (pd_name (node d)) (pi_name info)\<rparr>"

section \<open>Properties\<close>

text \<open>A descendant reached through a chain of \<^verbatim>\<open>getSubParam\<close> calls.\<close>

fun descend :: "dref \<Rightarrow> string list \<Rightarrow> dref res" where
  "descend d [] = Ret d"
| "descend d (oid # oids) = res_bind (getSubParam d oid) (\<lambda>s. descend s oids)"

lemma descend_readOnly: "descend d oids = Ret s \<Longrightarrow> readOnly d \<Longrightarrow> readOnly s"
  by (induction oids arbitrary: d) (auto simp: res_simps intro: readOnly_inherited)

text \<open>A sub parameter is found under the oid it was added with, and others stay as they were.\<close>

lemma getSubParam_addSubParam:
  assumes "chain d = p # parents" "addSubParam oid (Some sub) p = Ret p'"
  shows "map_res (\<lambda>r. hd (chain r)) (getSubParam (d\<lparr>chain := p' # parents\<rparr>) oid') =
     (if oid' = oid then Ret sub else map_res (\<lambda>r. hd (chain r)) (getSubParam d oid'))"
  using assms by (auto simp: addSubParam_def getSubParam_def update_conv' split: if_splits option.splits)

text \<open>Marking a parameter read-only protects it and all its descendants, whatever their own flags.\<close>

lemma set_readOnly_protects:
  "chain d = set_readOnly True p # parents \<Longrightarrow> descend d oids = Ret s \<Longrightarrow> \<not> writeAuthz a s"
  using descend_readOnly [of d oids s] by (simp add: readOnly_def set_readOnly_def writeAuthz_def)

text \<open>
  C30: below a read-only parameter nothing is writable, at any depth and for every authorizer,
  the one that disables authorization included.
\<close>

theorem read_only_protects_descendants:
  assumes "readOnly d" "descend d oids = Ret s"
  shows "\<not> writeAuthz a s"
  using descend_readOnly [OF assms(2,1)] by (rule pd_access.read_only_blocks)

definition example_info :: "string \<Rightarrow> ParamType \<Rightarrow> dinfo" where
  "example_info oid t =
     \<lparr>pd_type = t, pd_oid_aliases = [], pd_name = [], pd_widget = [], pd_scope = [],
      pd_read_only = False, pd_stateless = False, pd_oid = oid, pd_template_oid = [],
      pd_constraint = None, pd_isCommand = False, pd_response = False, pd_max_length = 0,
      pd_total_length = 0, pd_precision = 0, pd_minimal_set = False\<rparr>"

definition example_cfg :: devcfg where
  "example_cfg = \<lparr>default_scope = ''st2138:op'', default_max_length = 4, default_total_length = 16\<rparr>"

theorem read_only_protects_descendants_witness:
  "\<exists>d s. descend d [''x''] = Ret s \<and> \<not> pd_read_only (node s) \<and> \<not> writeAuthz kAuthzDisabled s"
proof -
  let ?x = "PDesc (example_info ''x'' INT32) []"
  let ?p = "PDesc (example_info ''p'' STRUCT\<lparr>pd_read_only := True\<rparr>) [(''x'', ?x)]"
  let ?d = "\<lparr>chain = [?p], dev = example_cfg\<rparr>"
  let ?s = "\<lparr>chain = [?x, ?p], dev = example_cfg\<rparr>"
  have "readOnly ?d" "descend ?d [''x''] = Ret ?s"
    by (simp_all add: readOnly_def getSubParam_def example_info_def)
  moreover from this have "\<not> writeAuthz kAuthzDisabled ?s" by (rule read_only_protects_descendants)
  moreover have "\<not> pd_read_only (node ?s)" by (simp add: node_def example_info_def)
  ultimately show ?thesis by blast
qed

definition sub_ref :: "dref \<Rightarrow> pdesc \<Rightarrow> dref" where
  "sub_ref d sub = d\<lparr>chain := sub # chain d\<rparr>"

lemma map_of_fold_filtered:
  assumes "distinct (map fst xs)"
  shows "map_of (fold (\<lambda>(k, x) m. if P x then AList.update k (f x (map_of m k)) m else m) xs m0) k =
         (case map_of xs k of
            Some x \<Rightarrow> if P x then Some (f x (map_of m0 k)) else map_of m0 k
          | None \<Rightarrow> map_of m0 k)"
  using assms
proof (induction xs arbitrary: m0)
  case (Cons kx xs)
  obtain k' x where kx: "kx = (k', x)" by (cases kx)
  with Cons.prems have "map_of xs k' = None" by (simp add: map_of_eq_None_iff)
  with Cons kx show ?case by (auto simp: update_conv' split: option.splits)
qed simp

text \<open>
  the serialised meta data of a parameter contains a sub parameter exactly when the client
  may read it, and then it is that sub parameter's own serialisation, so that nothing the
  client may not read is reported at any depth.
\<close>

theorem pd_toProto_readable_subparams:
  assumes "chain d = p # parents" "distinct (map fst (subParams p))"
  shows "map_of (pp_params (pd_toProto d authz pparam_default)) oid =
           (case map_of (subParams p) oid of
              None \<Rightarrow> None
            | Some sub \<Rightarrow> if readAuthz authz (sub_ref d sub)
                          then Some (pd_toProto (sub_ref d sub) authz pparam_default) else None)"
proof -
  have "pp_params (pd_toProto d authz pparam_default) =
        fold (\<lambda>(k, x) m. if readAuthz authz (sub_ref d x)
                then AList.update k ((\<lambda>x q. pd_toProto (sub_ref d x) authz
                       (case q of None \<Rightarrow> pparam_default | Some p \<Rightarrow> p)) x (map_of m k)) m else m)
             (subParams p) []"
    using assms(1) by (subst pd_toProto.simps)
      (simp add: pparam_default_def Let_def sub_ref_def subparam_at_def split_def cong: if_cong)
  also have "map_of \<dots> oid =
         (case map_of (subParams p) oid of
            Some x \<Rightarrow> if readAuthz authz (sub_ref d x)
                      then Some (pd_toProto (sub_ref d x) authz pparam_default) else None
          | None \<Rightarrow> None)"
    by (subst map_of_fold_filtered [OF assms(2)]) (simp split: option.split)
  finally show ?thesis by (simp split: option.splits)
qed

theorem pd_toProto_readable_subparams_witness:
  "map_of (pp_params (pd_toProto
       \<lparr>chain = [PDesc (example_info ''p'' STRUCT)
                  [(''x'', PDesc (example_info ''x'' INT32\<lparr>pd_scope := ''st2138:adm''\<rparr>) [])]],
        dev = example_cfg\<rparr>
       \<lparr>authzDisabled = False, exp_time = 0, clientScopes = {''st2138:op''}\<rparr> pparam_default)) ''x'' = None"
proof -
  let ?x = "PDesc (example_info ''x'' INT32\<lparr>pd_scope := ''st2138:adm''\<rparr>) []"
  let ?p = "PDesc (example_info ''p'' STRUCT) [(''x'', ?x)]"
  let ?d = "\<lparr>chain = [?p], dev = example_cfg\<rparr> :: dref"
  let ?a = "\<lparr>authzDisabled = False, exp_time = 0, clientScopes = {''st2138:op''}\<rparr> :: authorizer"
  have "\<not> readAuthz ?a (sub_ref ?d ?x)" by code_simp
  then show ?thesis
    using pd_toProto_readable_subparams [of ?d ?p "[]" ?a "''x''"] by simp
qed

end
