(* ===== verification/Struct_Info.thy ===== *)
theory Struct_Info
  imports Catena_Descriptor
begin

text \<open>
  \<^verbatim>\<open>StructInfo.h\<close> and \<^verbatim>\<open>StructInfo.cpp\<close>: the templates that move the value of a parameter between
  its C++ type and \<^verbatim>\<open>st2138::Value\<close>. The template parameter is the datatype \<open>ctype\<close>, whose
  struct fields and variant alternatives carry the names the code generator supplies in
  \<^verbatim>\<open>StructInfo<T>::fields\<close> and \<^verbatim>\<open>alternativeNames<T>\<close>; one equation of each function is one
  specialisation. A type with no specialisation (a vector of vectors, a vector of
  \<^verbatim>\<open>EmptyValue\<close>) does not link and is undefined here. The C++ type system is \<open>has_type\<close>.

  \<^verbatim>\<open>validFromProto\<close> returns whether its out-parameter \<^verbatim>\<open>rc\<close> is OK; the model returns \<^verbatim>\<open>rc\<close>. Only
  the \<^verbatim>\<open>EmptyValue\<close> specialisation returns \<^verbatim>\<open>true\<close> whatever \<^verbatim>\<open>rc\<close> is, and every caller that reads
  the result passes an \<^verbatim>\<open>rc\<close> that is OK. Lengths of strings and arrays in memory are below
  \<open>2 ^ 31\<close>, so that their comparison with the limits is a comparison of numbers.
\<close>

section \<open>Values and types\<close>

datatype ctype =
    TEmpty | TInt | TFloat | TString
  | TStruct "(string \<times> ctype) list"
  | TVariant "(string \<times> ctype) list"
  | TVec ctype

datatype cval =
    VEmpty | VInt i32 | VFloat f32 | VString string
  | VStruct "cval list"
  | VVariant nat cval
  | VVec "cval list"

fun default_val :: "ctype \<Rightarrow> cval" where
  "default_val TEmpty = VEmpty"
| "default_val TInt = VInt 0"
| "default_val TFloat = VFloat f32_zero"
| "default_val TString = VString []"
| "default_val (TStruct fs) = VStruct (map (\<lambda>(n, t). default_val t) fs)"
| "default_val (TVariant alts) = (case alts of [] \<Rightarrow> VVariant 0 VEmpty | (n, t) # _ \<Rightarrow> VVariant 0 (default_val t))"
| "default_val (TVec t) = VVec []"

section \<open>Validation\<close>

definition check_choice :: "dref \<Rightarrow> pvalue \<Rightarrow> StatusCode \<Rightarrow> StatusCode res" where
  "check_choice d src rc =
     (case pd_constraint (node d) of
        Some c \<Rightarrow> if \<not> isRange c
                  then res_bind (satisfied c src) (\<lambda>ok. Ret (if \<not> ok then INVALID_ARGUMENT else rc))
                  else Ret rc
      | None \<Rightarrow> Ret rc)"

text \<open>The loop over the elements of an array, which stops at the first bad one.\<close>

fun valid_loop :: "('a \<Rightarrow> StatusCode \<Rightarrow> StatusCode res) \<Rightarrow> 'a list \<Rightarrow> StatusCode \<Rightarrow> StatusCode res" where
  "valid_loop f [] rc = Ret rc"
| "valid_loop f (x # xs) rc =
     res_bind (f x rc) (\<lambda>rc'. if rc' \<noteq> OK then Ret rc' else valid_loop f xs rc')"

fun valid_strings :: "dref \<Rightarrow> string list \<Rightarrow> nat \<Rightarrow> StatusCode \<Rightarrow> (nat \<times> StatusCode) res" where
  "valid_strings d [] tot rc = Ret (tot, rc)"
| "valid_strings d (s # ss) tot rc =
     (case pd_constraint (node d) of
        None \<Rightarrow> valid_strings d ss (tot + length s) rc
      | Some c \<Rightarrow> res_bind (satisfied c (StringValue s)) (\<lambda>ok.
          if \<not> ok then Ret (tot + length s, INVALID_ARGUMENT)
          else valid_strings d ss (tot + length s) rc))"

fun findTypeIndex :: "string \<Rightarrow> (string \<times> 'a) list \<Rightarrow> nat" where
  "findTypeIndex typeName [] = 0"
| "findTypeIndex typeName ((n, t) # alts) = (if n = typeName then 0 else Suc (findTypeIndex typeName alts))"

text \<open>\<^verbatim>\<open>_changeType\<close>: the default value of the alternative, the variant unchanged when out of range.\<close>

definition changeType :: "(string \<times> ctype) list \<Rightarrow> cval \<Rightarrow> nat \<Rightarrow> cval" where
  "changeType alts v newTypeIndex =
     (if newTypeIndex < length alts
      then VVariant newTypeIndex (default_val (snd (alts ! newTypeIndex))) else v)"

definition valid_int32 :: "pvalue \<Rightarrow> dref \<Rightarrow> StatusCode \<Rightarrow> authorizer \<Rightarrow> StatusCode res" where
  "valid_int32 src d rc authz =
     (if \<not> writeAuthz authz d then Ret PERMISSION_DENIED
      else if \<not> has_int32_value src then Ret INVALID_ARGUMENT
      else check_choice d src rc)"

definition valid_float32 :: "pvalue \<Rightarrow> dref \<Rightarrow> StatusCode \<Rightarrow> authorizer \<Rightarrow> StatusCode res" where
  "valid_float32 src d rc authz =
     (if \<not> writeAuthz authz d then Ret PERMISSION_DENIED
      else if \<not> has_float32_value src then Ret INVALID_ARGUMENT
      else check_choice d src rc)"

definition valid_string :: "pvalue \<Rightarrow> dref \<Rightarrow> StatusCode \<Rightarrow> authorizer \<Rightarrow> StatusCode res" where
  "valid_string src d rc authz =
     (if \<not> writeAuthz authz d then Ret PERMISSION_DENIED
      else if \<not> has_string_value src then Ret INVALID_ARGUMENT
      else if pd_type (node d) = STRING \<and> length (string_value src) > unat (total_length d) then Ret OUT_OF_RANGE
      else (case pd_constraint (node d) of
              Some c \<Rightarrow> res_bind (satisfied c src) (\<lambda>ok. Ret (if \<not> ok then INVALID_ARGUMENT else rc))
            | None \<Rightarrow> Ret rc))"

definition valid_int32_array :: "pvalue \<Rightarrow> dref \<Rightarrow> StatusCode \<Rightarrow> authorizer \<Rightarrow> StatusCode res" where
  "valid_int32_array src d rc authz =
     (if \<not> writeAuthz authz d then Ret PERMISSION_DENIED
      else if \<not> has_int32_array_values src then Ret INVALID_ARGUMENT
      else if length (int32_array_values src) > unat (max_length d) then Ret OUT_OF_RANGE
      else valid_loop (\<lambda>i. check_choice d (Int32Value i)) (int32_array_values src) rc)"

definition valid_float32_array :: "pvalue \<Rightarrow> dref \<Rightarrow> StatusCode \<Rightarrow> authorizer \<Rightarrow> StatusCode res" where
  "valid_float32_array src d rc authz =
     (if \<not> writeAuthz authz d then Ret PERMISSION_DENIED
      else if \<not> has_float32_array_values src then Ret INVALID_ARGUMENT
      else if length (float32_array_values src) > unat (max_length d) then Ret OUT_OF_RANGE
      else valid_loop (\<lambda>f. check_choice d (Float32Value f)) (float32_array_values src) rc)"

definition valid_string_array :: "pvalue \<Rightarrow> dref \<Rightarrow> StatusCode \<Rightarrow> authorizer \<Rightarrow> StatusCode res" where
  "valid_string_array src d rc authz =
     res_bind
       (if \<not> writeAuthz authz d then Ret (0, PERMISSION_DENIED)
        else if \<not> has_string_array_values src then Ret (0, INVALID_ARGUMENT)
        else if length (string_array_values src) > unat (max_length d) then Ret (0, OUT_OF_RANGE)
        else valid_strings d (string_array_values src) 0 rc)
       (\<lambda>(tot, rc'). Ret (if tot > unat (total_length d) then OUT_OF_RANGE else rc'))"

text \<open>
  The specialisations that recurse take the functions of their fields, alternatives or
  elements: the fold over the tuple \<^verbatim>\<open>StructInfo<T>::fields\<close> is a list of functions, \<^verbatim>\<open>std::visit\<close>
  picks one of them.
\<close>

type_synonym validator = "pvalue \<Rightarrow> dref \<Rightarrow> StatusCode \<Rightarrow> authorizer \<Rightarrow> StatusCode res"

fun valid_fields :: "(string \<times> validator) list \<Rightarrow> (string \<times> pvalue) list \<Rightarrow> dref \<Rightarrow> StatusCode \<Rightarrow> authorizer \<Rightarrow> StatusCode res" where
  "valid_fields [] srcFields d rc authz = Ret rc"
| "valid_fields ((name, valid) # fs) srcFields d rc authz =
     res_bind (getSubParam d name) (\<lambda>sub.
     res_bind
       (if rc = OK then
          (case map_of srcFields name of
             None \<Rightarrow> Ret INVALID_ARGUMENT
           | Some v \<Rightarrow> valid v sub rc authz)
        else Ret rc)
       (\<lambda>rc'. valid_fields fs srcFields d rc' authz))"

definition valid_struct :: "(string \<times> validator) list \<Rightarrow> validator" where
  "valid_struct fs src d rc authz =
     (if \<not> writeAuthz authz d then Ret PERMISSION_DENIED
      else if \<not> has_struct_value src then Ret INVALID_ARGUMENT
      else valid_fields fs (struct_fields src) d rc authz)"

definition valid_struct_array :: "validator \<Rightarrow> validator" where
  "valid_struct_array elem src d rc authz =
     (if \<not> writeAuthz authz d then Ret PERMISSION_DENIED
      else if \<not> has_struct_array_values src then Ret INVALID_ARGUMENT
      else if length (struct_array_values src) > unat (max_length d) then Ret OUT_OF_RANGE
      else valid_loop (\<lambda>item rc'. elem (StructValue item) d rc' authz) (struct_array_values src) rc)"

definition valid_variant :: "(string \<times> validator) list \<Rightarrow> validator" where
  "valid_variant alts src d rc authz =
     (if \<not> writeAuthz authz d then Ret PERMISSION_DENIED
      else if \<not> has_struct_variant_value src then Ret INVALID_ARGUMENT
      else let (variantType, value) = struct_variant_value src;
               typeIndex = findTypeIndex variantType alts in
           if typeIndex \<ge> length alts then Ret INVALID_ARGUMENT
           else res_bind (getSubParam d variantType) (\<lambda>sub.
                if rc = OK then snd (alts ! typeIndex) value sub rc authz else Ret rc))"

definition valid_variant_array :: "validator \<Rightarrow> validator" where
  "valid_variant_array elem src d rc authz =
     (if \<not> writeAuthz authz d then Ret PERMISSION_DENIED
      else if \<not> has_struct_variant_array_values src then Ret INVALID_ARGUMENT
      else if length (struct_variant_array_values src) > unat (max_length d) then Ret OUT_OF_RANGE
      else valid_loop (\<lambda>(t, v) rc'. elem (StructVariantValue t v) d rc' authz)
             (struct_variant_array_values src) rc)"

definition valid_vec :: "ctype \<Rightarrow> validator \<Rightarrow> validator" where
  "valid_vec t elem =
     (case t of
        TInt \<Rightarrow> valid_int32_array
      | TFloat \<Rightarrow> valid_float32_array
      | TString \<Rightarrow> valid_string_array
      | TStruct _ \<Rightarrow> valid_struct_array elem
      | TVariant _ \<Rightarrow> valid_variant_array elem
      | _ \<Rightarrow> (\<lambda>src d rc authz. Undef))"

primrec validFromProto :: "ctype \<Rightarrow> validator" where
  "validFromProto TEmpty = (\<lambda>src d rc authz. Ret rc)"
| "validFromProto TInt = valid_int32"
| "validFromProto TFloat = valid_float32"
| "validFromProto TString = valid_string"
| "validFromProto (TStruct fs) = valid_struct (map (map_prod id validFromProto) fs)"
| "validFromProto (TVariant alts) = valid_variant (map (map_prod id validFromProto) alts)"
| "validFromProto (TVec t) = valid_vec t (validFromProto t)"

section \<open>Deserialisation\<close>

definition from_int32 :: "pvalue \<Rightarrow> cval \<Rightarrow> dref \<Rightarrow> authorizer \<Rightarrow> (StatusCode \<times> cval) res" where
  "from_int32 src dst d authz =
     res_bind (valid_int32 src d OK authz) (\<lambda>rc.
     if rc \<noteq> OK then Ret (rc, dst)
     else (case pd_constraint (node d) of
             Some c \<Rightarrow> if isRange c
                       then res_bind (apply_constraint c src) (\<lambda>v. Ret (rc, VInt (int32_value v)))
                       else Ret (rc, VInt (int32_value src))
           | None \<Rightarrow> Ret (rc, VInt (int32_value src))))"

definition from_float32 :: "pvalue \<Rightarrow> cval \<Rightarrow> dref \<Rightarrow> authorizer \<Rightarrow> (StatusCode \<times> cval) res" where
  "from_float32 src dst d authz =
     res_bind (valid_float32 src d OK authz) (\<lambda>rc.
     if rc \<noteq> OK then Ret (rc, dst)
     else (case pd_constraint (node d) of
             Some c \<Rightarrow> if isRange c
                       then res_bind (apply_constraint c src) (\<lambda>v. Ret (rc, VFloat (float32_value v)))
                       else Ret (rc, VFloat (float32_value src))
           | None \<Rightarrow> Ret (rc, VFloat (float32_value src))))"

definition from_string :: "pvalue \<Rightarrow> cval \<Rightarrow> dref \<Rightarrow> authorizer \<Rightarrow> (StatusCode \<times> cval) res" where
  "from_string src dst d authz =
     res_bind (valid_string src d OK authz) (\<lambda>rc.
     if rc \<noteq> OK then Ret (rc, dst) else Ret (rc, VString (string_value src)))"

definition from_int32_array :: "pvalue \<Rightarrow> cval \<Rightarrow> dref \<Rightarrow> authorizer \<Rightarrow> (StatusCode \<times> cval) res" where
  "from_int32_array src dst d authz =
     res_bind (valid_int32_array src d OK authz) (\<lambda>rc.
     if rc \<noteq> OK then Ret (rc, dst)
     else res_bind
            (res_map (\<lambda>i. case pd_constraint (node d) of
                            Some c \<Rightarrow> if isRange c
                                      then res_bind (apply_constraint c (Int32Value i)) (\<lambda>v. Ret (VInt (int32_value v)))
                                      else Ret (VInt i)
                          | None \<Rightarrow> Ret (VInt i))
                     (int32_array_values src))
            (\<lambda>xs. Ret (rc, VVec xs)))"

definition from_float32_array :: "pvalue \<Rightarrow> cval \<Rightarrow> dref \<Rightarrow> authorizer \<Rightarrow> (StatusCode \<times> cval) res" where
  "from_float32_array src dst d authz =
     res_bind (valid_float32_array src d OK authz) (\<lambda>rc.
     if rc \<noteq> OK then Ret (rc, dst)
     else res_bind
            (res_map (\<lambda>f. case pd_constraint (node d) of
                            Some c \<Rightarrow> if isRange c
                                      then res_bind (apply_constraint c (Float32Value f)) (\<lambda>v. Ret (VFloat (float32_value v)))
                                      else Ret (VFloat f)
                          | None \<Rightarrow> Ret (VFloat f))
                     (float32_array_values src))
            (\<lambda>xs. Ret (rc, VVec xs)))"

definition from_string_array :: "pvalue \<Rightarrow> cval \<Rightarrow> dref \<Rightarrow> authorizer \<Rightarrow> (StatusCode \<times> cval) res" where
  "from_string_array src dst d authz =
     res_bind (valid_string_array src d OK authz) (\<lambda>rc.
     if rc \<noteq> OK then Ret (rc, dst) else Ret (rc, VVec (map VString (string_array_values src))))"

type_synonym reader = "pvalue \<Rightarrow> cval \<Rightarrow> dref \<Rightarrow> authorizer \<Rightarrow> (StatusCode \<times> cval) res"

text \<open>\<^verbatim>\<open>srcFields.at(name)\<close> aborts the process when the field is missing.\<close>

fun from_fields :: "(string \<times> reader) list \<Rightarrow> (string \<times> pvalue) list \<Rightarrow> cval list \<Rightarrow> dref \<Rightarrow> authorizer \<Rightarrow> cval list res" where
  "from_fields [] srcFields [] d authz = Ret []"
| "from_fields ((name, rd) # fs) srcFields (v # vs) d authz =
     res_bind (getSubParam d name) (\<lambda>sub.
     case map_of srcFields name of
       None \<Rightarrow> Undef
     | Some src \<Rightarrow>
         res_bind (rd src v sub authz) (\<lambda>(rc, v').
         res_bind (from_fields fs srcFields vs d authz) (\<lambda>vs'. Ret (v' # vs'))))"
| "from_fields _ srcFields _ d authz = Undef"

definition from_struct :: "validator \<Rightarrow> (string \<times> reader) list \<Rightarrow> reader" where
  "from_struct valid fs src dst d authz =
     res_bind (valid src d OK authz) (\<lambda>rc.
     if rc \<noteq> OK then Ret (rc, dst)
     else (case dst of
             VStruct vs \<Rightarrow> res_bind (from_fields fs (struct_fields src) vs d authz) (\<lambda>vs'. Ret (rc, VStruct vs'))
           | _ \<Rightarrow> Undef))"

definition from_struct_array :: "validator \<Rightarrow> reader \<Rightarrow> cval \<Rightarrow> reader" where
  "from_struct_array valid elem fresh src dst d authz =
     res_bind (valid src d OK authz) (\<lambda>rc.
     if rc \<noteq> OK then Ret (rc, dst)
     else res_bind
            (res_map (\<lambda>item. res_bind (elem (StructValue item) fresh d authz) (\<lambda>(rc', v). Ret v))
                     (struct_array_values src))
            (\<lambda>xs. Ret (rc, VVec xs)))"

definition from_variant :: "validator \<Rightarrow> (string \<times> ctype) list \<Rightarrow> (string \<times> reader) list \<Rightarrow> reader" where
  "from_variant valid alts readers src dst d authz =
     res_bind (valid src d OK authz) (\<lambda>rc.
     if rc \<noteq> OK then Ret (rc, dst)
     else let (variantType, value) = struct_variant_value src;
              typeIndex = findTypeIndex variantType alts in
          if typeIndex < length alts then
            (case dst of
               VVariant idx v \<Rightarrow>
                 (case (if typeIndex \<noteq> idx then changeType alts dst typeIndex else dst) of
                    VVariant j w \<Rightarrow>
                      res_bind (getSubParam d variantType) (\<lambda>sub.
                      res_bind (snd (readers ! j) value w sub authz) (\<lambda>(rc', w').
                      Ret (rc, VVariant j w')))
                  | _ \<Rightarrow> Undef)
             | _ \<Rightarrow> Undef)
          else Ret (rc, dst))"

definition from_variant_array :: "validator \<Rightarrow> reader \<Rightarrow> cval \<Rightarrow> reader" where
  "from_variant_array valid elem fresh src dst d authz =
     res_bind (valid src d OK authz) (\<lambda>rc.
     if rc \<noteq> OK then Ret (rc, dst)
     else res_bind
            (res_map (\<lambda>(t, x). res_bind (elem (StructVariantValue t x) fresh d authz) (\<lambda>(rc', v). Ret v))
                     (struct_variant_array_values src))
            (\<lambda>xs. Ret (rc, VVec xs)))"

definition from_vec :: "ctype \<Rightarrow> reader \<Rightarrow> reader" where
  "from_vec t elem =
     (case t of
        TInt \<Rightarrow> from_int32_array
      | TFloat \<Rightarrow> from_float32_array
      | TString \<Rightarrow> from_string_array
      | TStruct _ \<Rightarrow> from_struct_array (validFromProto (TVec t)) elem (default_val t)
      | TVariant _ \<Rightarrow> from_variant_array (validFromProto (TVec t)) elem (default_val t)
      | _ \<Rightarrow> (\<lambda>src dst d authz. Undef))"

primrec fromProto :: "ctype \<Rightarrow> reader" where
  "fromProto TEmpty = (\<lambda>src dst d authz. Ret (OK, dst))"
| "fromProto TInt = from_int32"
| "fromProto TFloat = from_float32"
| "fromProto TString = from_string"
| "fromProto (TStruct fs) =
     from_struct (validFromProto (TStruct fs)) (map (map_prod id fromProto) fs)"
| "fromProto (TVariant alts) =
     from_variant (validFromProto (TVariant alts)) alts (map (map_prod id fromProto) alts)"
| "fromProto (TVec t) = from_vec t (fromProto t)"

section \<open>Serialisation\<close>

type_synonym writer = "pvalue \<Rightarrow> cval \<Rightarrow> dref \<Rightarrow> authorizer \<Rightarrow> (StatusCode \<times> pvalue) res"

definition to_int32 :: writer where
  "to_int32 dst src d authz =
     (case src of
        VInt i \<Rightarrow> if \<not> readAuthz authz d then Ret (PERMISSION_DENIED, dst) else Ret (OK, Int32Value i)
      | _ \<Rightarrow> Undef)"

definition to_float32 :: writer where
  "to_float32 dst src d authz =
     (case src of
        VFloat f \<Rightarrow> if \<not> readAuthz authz d then Ret (PERMISSION_DENIED, dst) else Ret (OK, Float32Value f)
      | _ \<Rightarrow> Undef)"

definition to_string :: writer where
  "to_string dst src d authz =
     (case src of
        VString s \<Rightarrow> if \<not> readAuthz authz d then Ret (PERMISSION_DENIED, dst) else Ret (OK, StringValue s)
      | _ \<Rightarrow> Undef)"

fun vec_ints :: "cval list \<Rightarrow> i32 list res" where
  "vec_ints [] = Ret []"
| "vec_ints (VInt i # vs) = res_bind (vec_ints vs) (\<lambda>is. Ret (i # is))"
| "vec_ints _ = Undef"

fun vec_floats :: "cval list \<Rightarrow> f32 list res" where
  "vec_floats [] = Ret []"
| "vec_floats (VFloat f # vs) = res_bind (vec_floats vs) (\<lambda>fs. Ret (f # fs))"
| "vec_floats _ = Undef"

fun vec_strings :: "cval list \<Rightarrow> string list res" where
  "vec_strings [] = Ret []"
| "vec_strings (VString s # vs) = res_bind (vec_strings vs) (\<lambda>ss. Ret (s # ss))"
| "vec_strings _ = Undef"

definition to_int32_array :: writer where
  "to_int32_array dst src d authz =
     (case src of
        VVec vs \<Rightarrow> if \<not> readAuthz authz d then Ret (PERMISSION_DENIED, dst)
                   else res_bind (vec_ints vs) (\<lambda>is. Ret (OK, Int32Array is))
      | _ \<Rightarrow> Undef)"

definition to_float32_array :: writer where
  "to_float32_array dst src d authz =
     (case src of
        VVec vs \<Rightarrow> if \<not> readAuthz authz d then Ret (PERMISSION_DENIED, dst)
                   else res_bind (vec_floats vs) (\<lambda>fs. Ret (OK, Float32Array fs))
      | _ \<Rightarrow> Undef)"

definition to_string_array :: writer where
  "to_string_array dst src d authz =
     (case src of
        VVec vs \<Rightarrow> if \<not> readAuthz authz d then Ret (PERMISSION_DENIED, dst)
                   else res_bind (vec_strings vs) (\<lambda>ss. Ret (OK, StringArray ss))
      | _ \<Rightarrow> Undef)"

fun to_fields :: "(string \<times> writer) list \<Rightarrow> cval list \<Rightarrow> (string \<times> pvalue) list \<Rightarrow> StatusCode \<Rightarrow> dref \<Rightarrow> authorizer \<Rightarrow> (StatusCode \<times> (string \<times> pvalue) list) res" where
  "to_fields [] [] dstFields rc d authz = Ret (rc, dstFields)"
| "to_fields ((name, wr) # fs) (v # vs) dstFields rc d authz =
     (if rc = OK then
        res_bind (getSubParam d name) (\<lambda>sub.
        res_bind (wr (case map_of dstFields name of None \<Rightarrow> KindNotSet | Some x \<Rightarrow> x) v sub authz) (\<lambda>(rc', x).
        to_fields fs vs (AList.update name x dstFields) rc' d authz))
      else to_fields fs vs dstFields rc d authz)"
| "to_fields _ _ dstFields rc d authz = Undef"

definition to_struct :: "(string \<times> writer) list \<Rightarrow> writer" where
  "to_struct fs dst src d authz =
     (case src of
        VStruct vs \<Rightarrow>
          if \<not> readAuthz authz d then Ret (PERMISSION_DENIED, clear_when has_struct_value dst)
          else res_bind (to_fields fs vs [] OK d authz) (\<lambda>(rc, dstFields).
               Ret (rc, if rc \<noteq> OK then KindNotSet else StructValue dstFields))
      | _ \<Rightarrow> Undef)"

fun to_struct_loop :: "writer \<Rightarrow> cval list \<Rightarrow> (string \<times> pvalue) list list \<Rightarrow> dref \<Rightarrow> authorizer \<Rightarrow> (StatusCode \<times> (string \<times> pvalue) list list) res" where
  "to_struct_loop elem [] dstArray d authz = Ret (OK, dstArray)"
| "to_struct_loop elem (v # vs) dstArray d authz =
     res_bind (elem KindNotSet v d authz) (\<lambda>(rc, elemValue).
     if rc \<noteq> OK then Ret (rc, dstArray @ [struct_fields elemValue])
     else to_struct_loop elem vs (dstArray @ [struct_fields elemValue]) d authz)"

definition to_struct_array :: "writer \<Rightarrow> writer" where
  "to_struct_array elem dst src d authz =
     (case src of
        VVec vs \<Rightarrow>
          if \<not> readAuthz authz d then Ret (PERMISSION_DENIED, clear_when has_struct_array_values dst)
          else res_bind (to_struct_loop elem vs [] d authz) (\<lambda>(rc, dstArray).
               Ret (rc, if rc \<noteq> OK then KindNotSet else StructArray dstArray))
      | _ \<Rightarrow> Undef)"

definition to_variant :: "(string \<times> writer) list \<Rightarrow> writer" where
  "to_variant alts dst src d authz =
     (case src of
        VVariant i v \<Rightarrow>
          if \<not> readAuthz authz d then Ret (PERMISSION_DENIED, clear_when has_struct_variant_value dst)
          else if i < length alts then
            let variantType = fst (alts ! i) in
            res_bind (getSubParam d variantType) (\<lambda>sub.
            res_bind (snd (alts ! i) KindNotSet v sub authz) (\<lambda>(rc, elemValue).
            Ret (rc, if rc \<noteq> OK then KindNotSet else StructVariantValue variantType elemValue)))
          else Undef
      | _ \<Rightarrow> Undef)"

text \<open>The array message is created by the first element only: an empty vector leaves the oneof unset.\<close>

fun to_variant_loop :: "writer \<Rightarrow> cval list \<Rightarrow> pvalue \<Rightarrow> dref \<Rightarrow> authorizer \<Rightarrow> (StatusCode \<times> pvalue) res" where
  "to_variant_loop elem [] dst d authz = Ret (OK, dst)"
| "to_variant_loop elem (v # vs) dst d authz =
     res_bind (elem KindNotSet v d authz) (\<lambda>(rc, elemValue).
     let dst' = StructVariantArray (struct_variant_array_values dst @ [struct_variant_value elemValue]) in
     if rc \<noteq> OK then Ret (rc, dst') else to_variant_loop elem vs dst' d authz)"

definition to_variant_array :: "writer \<Rightarrow> writer" where
  "to_variant_array elem dst src d authz =
     (case src of
        VVec vs \<Rightarrow>
          if \<not> readAuthz authz d then Ret (PERMISSION_DENIED, clear_when has_struct_variant_array_values dst)
          else res_bind (to_variant_loop elem vs (clear_when has_struct_variant_array_values dst) d authz) (\<lambda>(rc, dst').
               Ret (rc, if rc \<noteq> OK then clear_when has_struct_variant_array_values dst' else dst'))
      | _ \<Rightarrow> Undef)"

definition to_vec :: "ctype \<Rightarrow> writer \<Rightarrow> writer" where
  "to_vec t elem =
     (case t of
        TInt \<Rightarrow> to_int32_array
      | TFloat \<Rightarrow> to_float32_array
      | TString \<Rightarrow> to_string_array
      | TStruct _ \<Rightarrow> to_struct_array elem
      | TVariant _ \<Rightarrow> to_variant_array elem
      | _ \<Rightarrow> (\<lambda>dst src d authz. Undef))"

primrec toProto :: "ctype \<Rightarrow> writer" where
  "toProto TEmpty = (\<lambda>dst src d authz. Ret (OK, dst))"
| "toProto TInt = to_int32"
| "toProto TFloat = to_float32"
| "toProto TString = to_string"
| "toProto (TStruct fs) = to_struct (map (map_prod id toProto) fs)"
| "toProto (TVariant alts) = to_variant (map (map_prod id toProto) alts)"
| "toProto (TVec t) = to_vec t (toProto t)"

section \<open>The C++ type system\<close>

primrec has_type :: "ctype \<Rightarrow> cval \<Rightarrow> bool" where
  "has_type TEmpty = (\<lambda>v. v = VEmpty)"
| "has_type TInt = (\<lambda>v. case v of VInt _ \<Rightarrow> True | _ \<Rightarrow> False)"
| "has_type TFloat = (\<lambda>v. case v of VFloat _ \<Rightarrow> True | _ \<Rightarrow> False)"
| "has_type TString = (\<lambda>v. case v of VString _ \<Rightarrow> True | _ \<Rightarrow> False)"
| "has_type (TStruct fs) =
     (\<lambda>v. case v of VStruct vs \<Rightarrow> list_all2 (\<lambda>p x. snd p x) (map (map_prod id has_type) fs) vs | _ \<Rightarrow> False)"
| "has_type (TVariant alts) =
     (\<lambda>v. case v of VVariant i x \<Rightarrow> i < length alts \<and> snd (map (map_prod id has_type) alts ! i) x | _ \<Rightarrow> False)"
| "has_type (TVec t) = (\<lambda>v. case v of VVec vs \<Rightarrow> list_all (has_type t) vs | _ \<Rightarrow> False)"

text \<open>
  The types the code generator produces: alternatives and fields have distinct names, a variant
  has an alternative, and vectors hold scalars, structs or variants.
\<close>

primrec wf_ctype :: "ctype \<Rightarrow> bool" where
  "wf_ctype TEmpty = True"
| "wf_ctype TInt = True"
| "wf_ctype TFloat = True"
| "wf_ctype TString = True"
| "wf_ctype (TStruct fs) \<longleftrightarrow> distinct (map fst fs) \<and> list_all snd (map (map_prod id wf_ctype) fs)"
| "wf_ctype (TVariant alts) \<longleftrightarrow>
     alts \<noteq> [] \<and> distinct (map fst alts) \<and> list_all snd (map (map_prod id wf_ctype) alts)"
| "wf_ctype (TVec t) \<longleftrightarrow> wf_ctype t \<and> (case t of TEmpty \<Rightarrow> False | TVec _ \<Rightarrow> False | _ \<Rightarrow> True)"

lemma has_type_struct:
  "has_type (TStruct fs) v \<longleftrightarrow> (\<exists>vs. v = VStruct vs \<and> list_all2 (\<lambda>(n, t). has_type t) fs vs)"
  by (cases v) (auto simp: list_all2_map1 split_def)

lemma has_type_variant:
  "has_type (TVariant alts) v \<longleftrightarrow>
     (\<exists>i x. v = VVariant i x \<and> i < length alts \<and> has_type (snd (alts ! i)) x)"
  by (cases v) auto

lemma has_type_vec: "has_type (TVec t) v \<longleftrightarrow> (\<exists>vs. v = VVec vs \<and> list_all (has_type t) vs)"
  by (cases v) auto

text \<open>The functions of the members of a struct or a variant, under the members' names.\<close>

definition members :: "('t \<Rightarrow> 'f) \<Rightarrow> (string \<times> 't) list \<Rightarrow> (string \<times> 'f) list" where
  "members f fs = map (\<lambda>(n, t). (n, f t)) fs"

lemma members_simps [simp]:
  "members f [] = []"
  "members f ((n, t) # fs) = (n, f t) # members f fs"
  "length (members f fs) = length fs"
  by (simp_all add: members_def)

lemma members_nth [simp]: "i < length fs \<Longrightarrow> members f fs ! i = (fst (fs ! i), f (snd (fs ! i)))"
  by (simp add: members_def split_def)

lemma members_set: "(n, g) \<in> set (members f fs) \<longleftrightarrow> (\<exists>t. (n, t) \<in> set fs \<and> g = f t)"
  by (auto simp: members_def)

lemma map_members: "map (map_prod id f) fs = members f fs"
  by (simp add: members_def map_prod_def)

lemma members_ball [simp]: "(\<forall>x \<in> set (members f fs). P x) \<longleftrightarrow> (\<forall>(n, t) \<in> set fs. P (n, f t))"
  by (auto simp: members_def)

lemmas valid_simps [simp] = validFromProto.simps(5,6) [unfolded map_members]
lemmas from_simps [simp] = fromProto.simps(5,6) [unfolded map_members]
lemmas to_simps [simp] = toProto.simps(5,6) [unfolded map_members]

declare validFromProto.simps(5,6) [simp del] fromProto.simps(5,6) [simp del] toProto.simps(5,6) [simp del]

lemma wf_ctype_members:
  "wf_ctype (TStruct fs) \<longleftrightarrow> distinct (map fst fs) \<and> (\<forall>(n, t) \<in> set fs. wf_ctype t)"
  "wf_ctype (TVariant alts) \<longleftrightarrow> alts \<noteq> [] \<and> distinct (map fst alts) \<and> (\<forall>(n, t) \<in> set alts. wf_ctype t)"
  by (auto simp: list_all_iff)

declare has_type.simps(5-7) [simp del] wf_ctype.simps(5,6) [simp del]

lemma ctype_induct [case_names TEmpty TInt TFloat TString TStruct TVariant TVec]:
  assumes "P TEmpty" "P TInt" "P TFloat" "P TString"
    and st: "\<And>fs. (\<And>n t. (n, t) \<in> set fs \<Longrightarrow> P t) \<Longrightarrow> P (TStruct fs)"
    and va: "\<And>alts. (\<And>n t. (n, t) \<in> set alts \<Longrightarrow> P t) \<Longrightarrow> P (TVariant alts)"
    and ve: "\<And>t. P t \<Longrightarrow> P (TVec t)"
  shows "P t"
proof (induction t)
  case (TStruct fs)
  then show ?case by (intro st) (metis snds.intros snd_conv)
next
  case (TVariant alts)
  then show ?case by (intro va) (metis snds.intros snd_conv)
qed (use assms in auto)

lemma default_val_typed: "wf_ctype t \<Longrightarrow> has_type t (default_val t)"
proof (induction t rule: ctype_induct)
  case (TStruct fs)
  then show ?case
    by (auto simp: has_type_struct wf_ctype_members list_all2_map2 list_all2_same split_def)
next
  case (TVariant alts)
  then obtain n t alts' where "alts = (n, t) # alts'"
    by (cases alts) (auto simp: wf_ctype_members)
  moreover from this TVariant have "has_type t (default_val t)" by (auto simp: wf_ctype_members)
  ultimately show ?case by (simp add: has_type_variant)
qed (auto simp: has_type_vec)

end
