(* ===== verification/Struct_Props.thy ===== *)
theory Struct_Props
  imports Struct_Info
begin

text \<open>
  Correctness of the value conversions of \<open>Struct_Info\<close>: a rejected value leaves the
  destination as it was, an accepted one keeps the C++ type and respects every limit and
  constraint of the descriptors, and a serialised value is read back unchanged.
\<close>

section \<open>What validation establishes\<close>

lemma valid_loop_OK: "valid_loop f xs OK = Ret OK \<longleftrightarrow> (\<forall>x \<in> set xs. f x OK = Ret OK)"
  by (induction xs) (auto simp: res_simps)

lemma valid_fields_err: "rc \<noteq> OK \<Longrightarrow> valid_fields fs src d rc a \<noteq> Ret OK"
  by (induction fs src d rc a rule: valid_fields.induct) (auto simp: res_simps)

lemma valid_fields_rc: "valid_fields fs src d rc a = Ret OK \<Longrightarrow> rc = OK"
  using valid_fields_err by blast

lemma valid_fields_OK:
  "valid_fields fs src d OK a = Ret OK \<longleftrightarrow>
     (\<forall>(n, valid) \<in> set fs. \<exists>sub x. getSubParam d n = Ret sub \<and> map_of src n = Some x \<and> valid x sub OK a = Ret OK)"
proof (induction fs)
  case (Cons f fs)
  obtain n valid where f: "f = (n, valid)" by (cases f)
  have "valid_fields (f # fs) src d OK a = Ret OK \<longleftrightarrow>
        (\<exists>sub x. getSubParam d n = Ret sub \<and> map_of src n = Some x \<and> valid x sub OK a = Ret OK)
        \<and> valid_fields fs src d OK a = Ret OK"
  proof (cases "map_of src n")
    case None
    then show ?thesis unfolding f by (auto simp: res_simps dest!: valid_fields_rc)
  next
    case (Some x)
    then show ?thesis unfolding f by (auto simp: res_simps) (auto dest: valid_fields_rc)
  qed
  with Cons.IH f show ?case by simp
qed simp

lemma findTypeIndex_map: "findTypeIndex n (members f alts) = findTypeIndex n alts"
  by (induction alts) auto

lemma findTypeIndex_nth: "findTypeIndex n alts < length alts \<Longrightarrow> fst (alts ! findTypeIndex n alts) = n"
  by (induction alts) (auto split: if_splits)

lemma findTypeIndex_distinct:
  "distinct (map fst alts) \<Longrightarrow> i < length alts \<Longrightarrow> findTypeIndex (fst (alts ! i)) alts = i"
  by (induction alts arbitrary: i) (auto simp: nth_Cons split: nat.splits)

lemma valid_struct_OK:
  "validFromProto (TStruct fs) src d OK a = Ret OK \<longleftrightarrow>
     writeAuthz a d \<and> (\<exists>sf. src = StructValue sf \<and>
       (\<forall>(n, t) \<in> set fs. \<exists>sub x. getSubParam d n = Ret sub \<and> map_of sf n = Some x
          \<and> validFromProto t x sub OK a = Ret OK))"
  by (auto simp: valid_struct_def valid_fields_OK split_def)

lemma valid_variant_OK:
  "validFromProto (TVariant alts) src d OK a = Ret OK \<longleftrightarrow>
     writeAuthz a d \<and> (\<exists>vt x sub. src = StructVariantValue vt x
        \<and> findTypeIndex vt alts < length alts \<and> getSubParam d vt = Ret sub
        \<and> validFromProto (snd (alts ! findTypeIndex vt alts)) x sub OK a = Ret OK)"
  by (auto simp: valid_variant_def findTypeIndex_map res_simps not_le Let_def split: if_splits)

lemma valid_struct_array_OK:
  "validFromProto (TVec (TStruct fs)) src d OK a = Ret OK \<longleftrightarrow>
     writeAuthz a d \<and> (\<exists>xs. src = StructArray xs \<and> length xs \<le> unat (max_length d)
        \<and> (\<forall>x \<in> set xs. validFromProto (TStruct fs) (StructValue x) d OK a = Ret OK))"
  by (auto simp: valid_vec_def valid_struct_array_def valid_loop_OK simp del: valid_simps)

lemma valid_variant_array_OK:
  "validFromProto (TVec (TVariant alts)) src d OK a = Ret OK \<longleftrightarrow>
     writeAuthz a d \<and> (\<exists>xs. src = StructVariantArray xs \<and> length xs \<le> unat (max_length d)
        \<and> (\<forall>(t, x) \<in> set xs. validFromProto (TVariant alts) (StructVariantValue t x) d OK a = Ret OK))"
  by (auto simp: valid_vec_def valid_variant_array_def valid_loop_OK split_def simp del: valid_simps)

section \<open>A rejected value changes nothing\<close>

lemma from_valid:
  "fromProto t src dst d a = Ret (rc, v) \<Longrightarrow>
     validFromProto t src d OK a = Ret rc \<and> (rc \<noteq> OK \<longrightarrow> v = dst)"
proof (cases t)
  case (TVec e)
  assume "fromProto t src dst d a = Ret (rc, v)"
  with TVec show ?thesis
    by (cases e)
       (auto simp: from_vec_def valid_vec_def from_int32_array_def from_float32_array_def
          from_string_array_def from_struct_array_def from_variant_array_def res_simps
        split: if_splits)
qed (auto simp: from_int32_def from_float32_def from_string_def from_struct_def from_variant_def
        res_simps Let_def split: if_splits cval.splits option.splits prod.splits)

section \<open>What an accepted value is turned into\<close>

lemma from_fields_all:
  assumes "from_fields (members fromProto fs) src vs d a = Ret vs'"
    and "list_all2 (\<lambda>(n, t). has_type t) fs vs"
    and "\<forall>(n, t) \<in> set fs. \<forall>sub x v rc w. getSubParam d n = Ret sub \<longrightarrow> map_of src n = Some x \<longrightarrow>
           has_type t v \<longrightarrow> fromProto t x v sub a = Ret (rc, w) \<longrightarrow> P n t w"
  shows "list_all2 (\<lambda>(n, t). P n t) fs vs'"
  using assms
proof (induction fs arbitrary: vs vs')
  case Nil
  then show ?case by auto
next
  case (Cons f fs)
  obtain n t where f: "f = (n, t)" by (cases f)
  from Cons.prems(2) f obtain v ws where
    vs: "vs = v # ws" "has_type t v" "list_all2 (\<lambda>(n, t). has_type t) fs ws"
    by (auto simp: list_all2_Cons1)
  from Cons.prems(1) f vs obtain sub x rc w ws' where
    w: "fromProto t x v sub a = Ret (rc, w)" "vs' = w # ws'" "getSubParam d n = Ret sub" "map_of src n = Some x"
       "from_fields (members fromProto fs) src ws d a = Ret ws'"
    by (auto simp: res_simps split: option.splits)
  have "list_all2 (\<lambda>(n, t). P n t) fs ws'"
    using Cons.IH [OF w(5) vs(3)] Cons.prems(3) by auto
  moreover have "P n t w" using Cons.prems(3) f w vs(2) by auto
  ultimately show ?case using f w(2) by simp
qed

lemma res_map_all:
  assumes "res_map f xs = Ret ys" "\<forall>x \<in> set xs. \<forall>y. f x = Ret y \<longrightarrow> P y"
  shows "list_all P ys \<and> length ys = length xs"
  using assms by (induction xs arbitrary: ys) (auto simp: res_simps)

lemma from_variant_OK:
  "fromProto (TVariant alts) src (VVariant i0 x0) d a = Ret (OK, v) \<longleftrightarrow>
     validFromProto (TVariant alts) src d OK a = Ret OK \<and>
     (\<exists>vt x sub rc' w'. src = StructVariantValue vt x \<and> findTypeIndex vt alts < length alts
        \<and> getSubParam d vt = Ret sub \<and> v = VVariant (findTypeIndex vt alts) w'
        \<and> fromProto (snd (alts ! findTypeIndex vt alts)) x
             (if findTypeIndex vt alts = i0 then x0 else default_val (snd (alts ! findTypeIndex vt alts)))
             sub a = Ret (rc', w'))"
  (is "?l \<longleftrightarrow> ?v \<and> ?r")
proof (cases ?v)
  case True
  then obtain vt x sub where src: "src = StructVariantValue vt x" "findTypeIndex vt alts < length alts"
    "getSubParam d vt = Ret sub" unfolding valid_variant_OK by blast
  with True show ?thesis
    by (auto simp: from_variant_def changeType_def res_simps Let_def simp del: valid_simps
             split: if_splits)
next
  case False
  then show ?thesis using from_valid [of "TVariant alts"] by blast
qed

lemma from_struct_OK:
  "fromProto (TStruct fs) src (VStruct vs) d a = Ret (OK, v) \<longleftrightarrow>
     validFromProto (TStruct fs) src d OK a = Ret OK \<and>
     (\<exists>vs'. v = VStruct vs'
        \<and> from_fields (members fromProto fs) (struct_fields src) vs d a = Ret vs')"
  by (auto simp: from_struct_def res_simps simp del: valid_simps split: if_splits)

text \<open>The rounding of the numbers of an array and of a single number.\<close>

definition rnd_int :: "dref \<Rightarrow> i32 \<Rightarrow> cval res" where
  "rnd_int d i =
     (case pd_constraint (node d) of
        Some c \<Rightarrow> if isRange c
                  then res_bind (apply_constraint c (Int32Value i)) (\<lambda>v. Ret (VInt (int32_value v)))
                  else Ret (VInt i)
      | None \<Rightarrow> Ret (VInt i))"

definition rnd_float :: "dref \<Rightarrow> f32 \<Rightarrow> cval res" where
  "rnd_float d f =
     (case pd_constraint (node d) of
        Some c \<Rightarrow> if isRange c
                  then res_bind (apply_constraint c (Float32Value f)) (\<lambda>v. Ret (VFloat (float32_value v)))
                  else Ret (VFloat f)
      | None \<Rightarrow> Ret (VFloat f))"

lemma from_scalar_OK:
  "fromProto TInt src dst d a = Ret (OK, v) \<longleftrightarrow>
     validFromProto TInt src d OK a = Ret OK \<and> (\<exists>i. src = Int32Value i \<and> rnd_int d i = Ret v)"
  "fromProto TFloat src dst d a = Ret (OK, v) \<longleftrightarrow>
     validFromProto TFloat src d OK a = Ret OK \<and> (\<exists>f. src = Float32Value f \<and> rnd_float d f = Ret v)"
  "fromProto TString src dst d a = Ret (OK, v) \<longleftrightarrow>
     validFromProto TString src d OK a = Ret OK \<and> (\<exists>s. src = StringValue s \<and> v = VString s)"
  by (auto simp: from_int32_def valid_int32_def rnd_int_def from_float32_def valid_float32_def
        rnd_float_def from_string_def valid_string_def res_simps
      split: if_splits option.splits)

lemma from_vec_TInt_OK:
  "fromProto (TVec TInt) src dst d a = Ret (OK, v) \<longleftrightarrow>
     validFromProto (TVec TInt) src d OK a = Ret OK \<and>
     (\<exists>is vs. src = Int32Array is \<and> res_map (rnd_int d) is = Ret vs \<and> v = VVec vs)"
  by (auto simp: from_vec_def valid_vec_def from_int32_array_def valid_int32_array_def rnd_int_def [abs_def]
        res_simps split: if_splits)

lemma from_vec_TFloat_OK:
  "fromProto (TVec TFloat) src dst d a = Ret (OK, v) \<longleftrightarrow>
     validFromProto (TVec TFloat) src d OK a = Ret OK \<and>
     (\<exists>fs vs. src = Float32Array fs \<and> res_map (rnd_float d) fs = Ret vs \<and> v = VVec vs)"
  by (auto simp: from_vec_def valid_vec_def from_float32_array_def valid_float32_array_def rnd_float_def [abs_def]
        res_simps split: if_splits)

lemma from_vec_TString_OK:
  "fromProto (TVec TString) src dst d a = Ret (OK, v) \<longleftrightarrow>
     validFromProto (TVec TString) src d OK a = Ret OK \<and>
     (\<exists>ss. src = StringArray ss \<and> v = VVec (map VString ss))"
  by (auto simp: from_vec_def valid_vec_def from_string_array_def valid_string_array_def
        res_simps split: if_splits)

text \<open>One element of an array of structs or variants, read into a fresh element.\<close>

definition from_elem :: "ctype \<Rightarrow> dref \<Rightarrow> authorizer \<Rightarrow> pvalue \<Rightarrow> cval res" where
  "from_elem t d a x = res_bind (fromProto t x (default_val t) d a) (\<lambda>(rc, v). Ret v)"

lemma from_vec_TStruct_OK:
  "fromProto (TVec (TStruct fs)) src dst d a = Ret (OK, v) \<longleftrightarrow>
     validFromProto (TVec (TStruct fs)) src d OK a = Ret OK \<and>
     (\<exists>xs vs. src = StructArray xs \<and> v = VVec vs \<and>
        res_map (\<lambda>x. from_elem (TStruct fs) d a (StructValue x)) xs = Ret vs)"
  (is "_ \<longleftrightarrow> ?v \<and> _")
proof (cases ?v)
  case True
  then obtain xs where "src = StructArray xs" unfolding valid_struct_array_OK by blast
  with True show ?thesis
    by (simp add: from_vec_def from_struct_array_def from_elem_def res_simps del: from_simps default_val.simps
             validFromProto.simps) blast
next
  case False
  then show ?thesis using from_valid [of "TVec (TStruct fs)"] by blast
qed

lemma from_vec_TVariant_OK:
  "fromProto (TVec (TVariant alts)) src dst d a = Ret (OK, v) \<longleftrightarrow>
     validFromProto (TVec (TVariant alts)) src d OK a = Ret OK \<and>
     (\<exists>xs vs. src = StructVariantArray xs \<and> v = VVec vs \<and>
        res_map (\<lambda>p. from_elem (TVariant alts) d a (StructVariantValue (fst p) (snd p))) xs = Ret vs)"
  (is "_ \<longleftrightarrow> ?v \<and> _")
proof (cases ?v)
  case True
  then obtain xs where "src = StructVariantArray xs" unfolding valid_variant_array_OK by blast
  with True show ?thesis
    by (simp add: from_vec_def from_variant_array_def from_elem_def res_simps split_def
             del: from_simps default_val.simps validFromProto.simps) blast
next
  case False
  then show ?thesis using from_valid [of "TVec (TVariant alts)"] by blast
qed

lemmas from_OK_simps = from_scalar_OK from_struct_OK from_variant_OK
  from_vec_TInt_OK from_vec_TFloat_OK from_vec_TString_OK from_vec_TStruct_OK from_vec_TVariant_OK

section \<open>Accepted values keep their type\<close>

lemma rnd_typed:
  "rnd_int d i = Ret v \<Longrightarrow> has_type TInt v"
  "rnd_float d f = Ret w \<Longrightarrow> has_type TFloat w"
  by (auto simp: rnd_int_def rnd_float_def res_simps split: option.splits if_splits)

lemma from_elem_Ret: "from_elem t d a x = Ret v \<longleftrightarrow> (\<exists>rc. fromProto t x (default_val t) d a = Ret (rc, v))"
  by (auto simp: from_elem_def res_simps)

lemma from_vec_typed:
  assumes "wf_ctype (TVec t)" "fromProto (TVec t) src dst d a = Ret (OK, v)"
    and IH: "\<And>src dst d rc v. has_type t dst \<Longrightarrow> fromProto t src dst d a = Ret (rc, v) \<Longrightarrow> has_type t v"
  shows "has_type (TVec t) v"
proof -
  have el: "from_elem t d a x = Ret y \<Longrightarrow> has_type t y" for x y
    using IH [OF default_val_typed] assms(1) by (auto simp: from_elem_Ret)
  show ?thesis
  proof (cases t)
    case TInt
    with assms(2) show ?thesis unfolding TInt from_vec_TInt_OK has_type_vec
      using res_map_all [where f = "rnd_int d" and P = "has_type TInt"] rnd_typed(1) by blast
  next
    case TFloat
    with assms(2) show ?thesis unfolding TFloat from_vec_TFloat_OK has_type_vec
      using res_map_all [where f = "rnd_float d" and P = "has_type TFloat"] rnd_typed(2) by blast
  next
    case TString
    with assms(2) show ?thesis unfolding TString from_vec_TString_OK has_type_vec by (auto simp: list_all_iff)
  next
    case (TStruct fs)
    with assms(2) el show ?thesis unfolding TStruct from_vec_TStruct_OK has_type_vec
      using res_map_all [where f = "\<lambda>x. from_elem (TStruct fs) d a (StructValue x)"
          and P = "has_type (TStruct fs)"] by blast
  next
    case (TVariant alts)
    with assms(2) el show ?thesis unfolding TVariant from_vec_TVariant_OK has_type_vec
      using res_map_all [where f = "\<lambda>p. from_elem (TVariant alts) d a (StructVariantValue (fst p) (snd p))"
          and P = "has_type (TVariant alts)"] by blast
  qed (use assms(1) in simp_all)
qed

lemma alt_member: "j < length alts \<Longrightarrow> (fst (alts ! j), snd (alts ! j)) \<in> set alts"
  by simp

lemma from_typed:
  "wf_ctype t \<Longrightarrow> has_type t dst \<Longrightarrow> fromProto t src dst d a = Ret (rc, v) \<Longrightarrow> has_type t v"
proof (induction t arbitrary: src dst d rc v rule: ctype_induct)
  case (TStruct fs)
  obtain vs where dst: "dst = VStruct vs" "list_all2 (\<lambda>(n, t). has_type t) fs vs"
    using TStruct.prems(2) by (auto simp: has_type_struct)
  show ?case
  proof (cases "rc = OK")
    case True
    with TStruct.prems(3) dst obtain vs' where
      v: "v = VStruct vs'" "from_fields (members fromProto fs) (struct_fields src) vs d a = Ret vs'"
      using from_struct_OK by blast
    have "list_all2 (\<lambda>(n, t). has_type t) fs vs'"
      using TStruct.IH TStruct.prems(1)
      by (intro from_fields_all [OF v(2) dst(2), where P = "\<lambda>n. has_type"]) (auto simp: wf_ctype_members)
    with v show ?thesis by (simp add: has_type_struct)
  qed (use TStruct.prems from_valid in blast)
next
  case (TVariant alts)
  obtain i0 x0 where dst: "dst = VVariant i0 x0" "i0 < length alts" "has_type (snd (alts ! i0)) x0"
    using TVariant.prems(2) by (auto simp: has_type_variant)
  show ?case
  proof (cases "rc = OK")
    case True
    with TVariant.prems(3) dst obtain j w x sub rc' w' where v: "v = VVariant j w'" "j < length alts"
      "fromProto (snd (alts ! j)) x (if j = i0 then x0 else default_val (snd (alts ! j))) sub a = Ret (rc', w')"
      using from_variant_OK by blast
    have j: "wf_ctype (snd (alts ! j))" "(fst (alts ! j), snd (alts ! j)) \<in> set alts"
      using alt_member [OF v(2)] TVariant.prems(1) by (auto simp: wf_ctype_members)
    have "has_type (snd (alts ! j)) w'"
      using dst(3) by (intro TVariant.IH [OF j(2) j(1) _ v(3)]) (auto intro: default_val_typed [OF j(1)])
    with v show ?thesis by (simp add: has_type_variant)
  qed (use TVariant.prems from_valid in blast)
next
  case (TVec t)
  show ?case
  proof (cases "rc = OK")
    case True
    with TVec show ?thesis by (intro from_vec_typed) auto
  qed (use TVec.prems from_valid in blast)
qed (auto simp: from_int32_def from_float32_def from_string_def res_simps
       split: if_splits option.splits)

section \<open>Accepted values respect the limits and constraints of the descriptors\<close>

text \<open>
  A constraint is well formed when its rounding is defined on every value; the constraints of a
  descriptor and of all its sub parameters are.
\<close>

fun constraint_ok :: "constraint \<Rightarrow> bool" where
  "constraint_ok (IntRange c) = wf_int_range c"
| "constraint_ok (FloatRange c) = wf_float_range c"
| "constraint_ok _ = True"

primrec desc_ok :: "pdesc \<Rightarrow> bool" where
  "desc_ok (PDesc i subs) \<longleftrightarrow>
     (case pd_constraint i of None \<Rightarrow> True | Some c \<Rightarrow> constraint_ok c)
     \<and> list_all snd (map (map_prod id desc_ok) subs)"

definition dref_ok :: "dref \<Rightarrow> bool" where
  "dref_ok d \<longleftrightarrow> chain d \<noteq> [] \<and> desc_ok (hd (chain d))"

lemma dref_ok_sub: "getSubParam d n = Ret sub \<Longrightarrow> dref_ok d \<Longrightarrow> dref_ok sub"
  by (cases "hd (chain d)")
     (force simp: dref_ok_def list_all_iff dest!: getSubParam_chain map_of_SomeD)

lemma dref_ok_constraint: "dref_ok d \<Longrightarrow> pd_constraint (node d) = Some c \<Longrightarrow> constraint_ok c"
  by (cases "hd (chain d)") (auto simp: dref_ok_def node_def)

definition int_within :: "dref \<Rightarrow> i32 \<Rightarrow> bool" where
  "int_within d i \<longleftrightarrow>
     (case pd_constraint (node d) of
        Some (IntRange c) \<Rightarrow> in_int_range c i
      | Some (IntChoice c) \<Rightarrow> contains (choices c) i
      | _ \<Rightarrow> True)"

definition float_within :: "dref \<Rightarrow> f32 \<Rightarrow> bool" where
  "float_within d f \<longleftrightarrow>
     (case pd_constraint (node d) of
        Some (FloatRange c) \<Rightarrow> f = FNaN \<or> in_float_range c f
      | _ \<Rightarrow> True)"

definition string_within :: "dref \<Rightarrow> string \<Rightarrow> bool" where
  "string_within d s \<longleftrightarrow>
     (case pd_constraint (node d) of
        Some (StringChoice c) \<Rightarrow> ch_strict c \<longrightarrow> contains (choices c) s
      | Some (StringStringChoice c) \<Rightarrow> ch_strict c \<longrightarrow> contains (choices c) s
      | _ \<Rightarrow> True)"

primrec within :: "ctype \<Rightarrow> cval \<Rightarrow> dref \<Rightarrow> bool" where
  "within TEmpty = (\<lambda>v d. True)"
| "within TInt = (\<lambda>v d. case v of VInt i \<Rightarrow> int_within d i | _ \<Rightarrow> False)"
| "within TFloat = (\<lambda>v d. case v of VFloat f \<Rightarrow> float_within d f | _ \<Rightarrow> False)"
| "within TString =
     (\<lambda>v d. case v of
              VString s \<Rightarrow> string_within d s
                           \<and> (if pd_type (node d) = STRING then length s \<le> unat (total_length d) else True)
            | _ \<Rightarrow> False)"
| "within (TStruct fs) =
     (\<lambda>v d. case v of
              VStruct vs \<Rightarrow> list_all2 (\<lambda>(n, w) x. \<exists>sub. getSubParam d n = Ret sub \<and> w x sub)
                                      (map (map_prod id within) fs) vs
            | _ \<Rightarrow> False)"
| "within (TVariant alts) =
     (\<lambda>v d. case v of
              VVariant i x \<Rightarrow> i < length alts \<and>
                (\<exists>sub. getSubParam d (fst (alts ! i)) = Ret sub \<and> snd (map (map_prod id within) alts ! i) x sub)
            | _ \<Rightarrow> False)"
| "within (TVec t) =
     (\<lambda>v d. case v of
              VVec vs \<Rightarrow> length vs \<le> unat (max_length d) \<and>
                (case t of
                   TString \<Rightarrow> (\<exists>ss. vs = map VString ss \<and> list_all (string_within d) ss
                                    \<and> sum_list (map length ss) \<le> unat (total_length d))
                 | _ \<Rightarrow> list_all (\<lambda>x. within t x d) vs)
            | _ \<Rightarrow> False)"

lemma within_struct:
  "within (TStruct fs) (VStruct vs) d \<longleftrightarrow>
     list_all2 (\<lambda>(n, t) x. \<exists>sub. getSubParam d n = Ret sub \<and> within t x sub) fs vs"
  by (simp add: list_all2_map1 split_def)

lemma within_variant:
  "within (TVariant alts) (VVariant i x) d \<longleftrightarrow> i < length alts \<and>
     (\<exists>sub. getSubParam d (fst (alts ! i)) = Ret sub \<and> within (snd (alts ! i)) x sub)"
  by auto

lemma rnd_int_within:
  assumes "dref_ok d" "check_choice d (Int32Value i) OK = Ret OK" "rnd_int d i = Ret v"
  shows "within TInt v d"
proof (cases "pd_constraint (node d)")
  case (Some c)
  note ok = dref_ok_constraint [OF assms(1) Some]
  show ?thesis
  proof (cases c)
    case (IntRange r)
    with ok obtain w where "round_int r i = Ret w" "in_int_range r w"
      using int_rounding.rnd_inb [of r i] by auto
    with assms(3) Some IntRange show ?thesis
      by (auto simp: rnd_int_def round_int_def res_simps int_within_def)
  qed (use assms Some in \<open>auto simp: rnd_int_def check_choice_def int_within_def int_choice_satisfied_def
                             res_simps split: if_splits\<close>)
qed (use assms in \<open>auto simp: rnd_int_def int_within_def\<close>)

lemma float_range_apply_nan: "float_range_apply c (Float32Value FNaN) = Float32Value FNaN"
proof -
  have "f32_lt FNaN x = False" "f32_lt x FNaN = False" "f32_sub FNaN x = FNaN" "f32_div FNaN x = FNaN"
    "f32_nearest FNaN = FNaN" "f32_mul FNaN x = FNaN" "f32_add FNaN x = FNaN" for x
    by (cases x; simp add: f32_sub_def)+
  then show ?thesis by (simp add: float_range_apply_def Let_def)
qed

lemma rnd_float_within:
  assumes "dref_ok d" "rnd_float d f = Ret v"
  shows "within TFloat v d"
proof (cases "pd_constraint (node d)")
  case (Some c)
  note ok = dref_ok_constraint [OF assms(1) Some]
  show ?thesis
  proof (cases c)
    case (FloatRange r)
    show ?thesis
    proof (cases "f = FNaN")
      case True
      with assms(2) Some FloatRange show ?thesis
        by (auto simp: rnd_float_def float_within_def float_range_apply_nan)
    next
      case False
      with ok FloatRange obtain w where "round_float r f = Ret w" "in_float_range r w"
        using float_rounding.rnd_inb [of r f] by auto
      with assms(2) Some FloatRange show ?thesis
        by (auto simp: rnd_float_def round_float_def float_within_def)
    qed
  qed (use assms Some in \<open>auto simp: rnd_float_def float_within_def res_simps split: if_splits\<close>)
qed (use assms in \<open>auto simp: rnd_float_def float_within_def\<close>)

lemma string_within_satisfied:
  "(case pd_constraint (node d) of
      Some c \<Rightarrow> res_bind (satisfied c (StringValue s)) (\<lambda>ok. Ret (if \<not> ok then INVALID_ARGUMENT else OK))
    | None \<Rightarrow> Ret OK) = Ret OK \<Longrightarrow> string_within d s"
  by (auto simp: string_within_def string_choice_satisfied_def string_string_choice_satisfied_def
           split: option.splits constraint.splits if_splits)

lemma valid_strings_OK:
  "valid_strings d ss tot OK = Ret (tot', OK) \<Longrightarrow>
     list_all (string_within d) ss \<and> tot' = tot + sum_list (map length ss)"
proof (induction ss arbitrary: tot)
  case (Cons s ss)
  show ?case
  proof (cases "pd_constraint (node d)")
    case None
    with Cons.IH [of "tot + length s"] Cons.prems show ?thesis by (auto simp: string_within_def)
  next
    case (Some c)
    with Cons.prems obtain ok where "satisfied c (StringValue s) = Ret ok" "ok"
      "valid_strings d ss (tot + length s) OK = Ret (tot', OK)"
      by (auto simp: res_simps split: if_splits)
    with Cons.IH [of "tot + length s"] Some string_within_satisfied [where d = d and s = s] show ?thesis by auto
  qed
qed simp

lemma from_elem_valid:
  assumes "validFromProto t x d OK a = Ret OK" "from_elem t d a x = Ret y"
  shows "fromProto t x (default_val t) d a = Ret (OK, y)"
proof -
  from assms(2) obtain rc where rc: "fromProto t x (default_val t) d a = Ret (rc, y)"
    by (auto simp: from_elem_Ret)
  with from_valid [OF this] assms(1) show ?thesis by simp
qed

lemma from_elem_within:
  assumes "wf_ctype t" "validFromProto t x d OK a = Ret OK" "from_elem t d a x = Ret y"
    and IH: "\<forall>src dst v. has_type t dst \<longrightarrow> fromProto t src dst d a = Ret (OK, v) \<longrightarrow> within t v d"
  shows "within t y d"
  using from_elem_valid [OF assms(2,3)] IH default_val_typed [OF assms(1)] by blast

lemma from_vec_within:
  assumes "wf_ctype (TVec t)" "dref_ok d" "fromProto (TVec t) src dst d a = Ret (OK, v)"
    and IH: "\<forall>src dst v. has_type t dst \<longrightarrow> fromProto t src dst d a = Ret (OK, v) \<longrightarrow> within t v d"
  shows "within (TVec t) v d"
proof (cases t)
  case TInt
  with assms(3) obtain xs vs where v: "v = VVec vs" "res_map (rnd_int d) xs = Ret vs" "src = Int32Array xs"
    and val: "validFromProto (TVec TInt) src d OK a = Ret OK"
    using from_vec_TInt_OK by blast
  from val v(3) have "length xs \<le> unat (max_length d)" "\<forall>i \<in> set xs. check_choice d (Int32Value i) OK = Ret OK"
    by (auto simp: valid_vec_def valid_int32_array_def valid_loop_OK split: if_splits)
  moreover from this have "list_all (\<lambda>v. within TInt v d) vs \<and> length vs = length xs"
    by (intro res_map_all [OF v(2)]) (blast intro: rnd_int_within [OF assms(2)])
  ultimately show ?thesis using v TInt by simp
next
  case TFloat
  with assms(3) obtain xs vs where v: "v = VVec vs" "res_map (rnd_float d) xs = Ret vs" "src = Float32Array xs"
    and val: "validFromProto (TVec TFloat) src d OK a = Ret OK"
    using from_vec_TFloat_OK by blast
  from val v(3) have "length xs \<le> unat (max_length d)"
    by (auto simp: valid_vec_def valid_float32_array_def split: if_splits)
  with v show ?thesis
    using res_map_all [of "rnd_float d" xs vs "\<lambda>v. within TFloat v d"] rnd_float_within [OF assms(2)] TFloat by simp
next
  case TString
  with assms(3) obtain ss where "v = VVec (map VString ss)" "src = StringArray ss"
    and val: "validFromProto (TVec TString) src d OK a = Ret OK"
    using from_vec_TString_OK by blast
  then show ?thesis using TString
    by (auto simp: valid_vec_def valid_string_array_def res_simps not_less dest!: valid_strings_OK split: if_splits)
next
  case (TStruct fs)
  with assms(3) obtain xs vs where v: "v = VVec vs" "src = StructArray xs"
    "res_map (\<lambda>x. from_elem t d a (StructValue x)) xs = Ret vs"
    and val: "validFromProto (TVec t) src d OK a = Ret OK"
    using from_vec_TStruct_OK by blast
  have ok: "length xs \<le> unat (max_length d)" "\<forall>x \<in> set xs. validFromProto t (StructValue x) d OK a = Ret OK"
    using val v(2) unfolding TStruct valid_struct_array_OK by auto
  with res_map_all [OF v(3), of "\<lambda>y. within t y d"] from_elem_within [OF _ _ _ IH] assms(1)
  have "list_all (\<lambda>y. within t y d) vs" "length vs = length xs" by (metis wf_ctype.simps(7))+
  with ok(1) v(1) TStruct show ?thesis by simp
next
  case (TVariant alts)
  with assms(3) obtain xs vs where v: "v = VVec vs" "src = StructVariantArray xs"
    "res_map (\<lambda>p. from_elem t d a (StructVariantValue (fst p) (snd p))) xs = Ret vs"
    and val: "validFromProto (TVec t) src d OK a = Ret OK"
    using from_vec_TVariant_OK by blast
  have ok: "length xs \<le> unat (max_length d)"
    "\<forall>p \<in> set xs. validFromProto t (StructVariantValue (fst p) (snd p)) d OK a = Ret OK"
    using val v(2) unfolding TVariant valid_variant_array_OK by auto
  with res_map_all [OF v(3), of "\<lambda>y. within t y d"] from_elem_within [OF _ _ _ IH] assms(1)
  have "list_all (\<lambda>y. within t y d) vs" "length vs = length xs" by (metis wf_ctype.simps(7))+
  with ok(1) v(1) TVariant show ?thesis by simp
qed (use assms(1) in simp_all)

lemma from_within:
  "wf_ctype t \<Longrightarrow> has_type t dst \<Longrightarrow> dref_ok d \<Longrightarrow> fromProto t src dst d a = Ret (OK, v) \<Longrightarrow> within t v d"
proof (induction t arbitrary: src dst d v rule: ctype_induct)
  case TInt
  then obtain i where i: "validFromProto TInt src d OK a = Ret OK" "src = Int32Value i" "rnd_int d i = Ret v"
    by (auto simp only: from_scalar_OK)
  then have "check_choice d (Int32Value i) OK = Ret OK"
    by (auto simp: valid_int32_def split: if_splits)
  with i(3) TInt.prems(3) show ?case by (blast intro: rnd_int_within)
next
  case TFloat
  then show ?case by (auto simp only: from_scalar_OK intro: rnd_float_within)
next
  case TString
  then show ?case
    by (auto simp: from_string_def valid_string_def string_within_satisfied res_simps not_less split: if_splits)
next
  case (TStruct fs)
  obtain vs where dst: "dst = VStruct vs" "list_all2 (\<lambda>(n, t). has_type t) fs vs"
    using TStruct.prems(2) by (auto simp: has_type_struct)
  with TStruct.prems(4) obtain vs' where val: "validFromProto (TStruct fs) src d OK a = Ret OK"
    and v: "v = VStruct vs'" "from_fields (members fromProto fs) (struct_fields src) vs d a = Ret vs'"
    using from_struct_OK by blast
  have "within t w sub"
    if "(n, t) \<in> set fs" "getSubParam d n = Ret sub" "map_of (struct_fields src) n = Some x"
      "has_type t u" "fromProto t x u sub a = Ret (rc, w)" for n t sub x u rc w
  proof -
    have "validFromProto t x sub OK a = Ret OK" using val that(1-3) unfolding valid_struct_OK by force
    with from_valid [OF that(5)] have "rc = OK" by simp
    with that TStruct.prems(1,3) show ?thesis
      by (intro TStruct.IH [OF that(1)]) (auto simp: wf_ctype_members intro: dref_ok_sub)
  qed
  then have "list_all2 (\<lambda>(n, t) x. \<exists>sub. getSubParam d n = Ret sub \<and> within t x sub) fs vs'"
    using val
    by (intro from_fields_all [OF v(2) dst(2), where P = "\<lambda>n t x. \<exists>sub. getSubParam d n = Ret sub \<and> within t x sub"])
       blast
  with v show ?case by (simp only: within_struct)
next
  case (TVariant alts)
  obtain i0 x0 where dst: "dst = VVariant i0 x0" "i0 < length alts" "has_type (snd (alts ! i0)) x0"
    using TVariant.prems(2) by (auto simp: has_type_variant)
  with TVariant.prems(4) obtain vt x sub rc' w' where
    val: "validFromProto (TVariant alts) src d OK a = Ret OK" and
    v: "src = StructVariantValue vt x" "findTypeIndex vt alts < length alts" "getSubParam d vt = Ret sub"
       "v = VVariant (findTypeIndex vt alts) w'"
       "fromProto (snd (alts ! findTypeIndex vt alts)) x
          (if findTypeIndex vt alts = i0 then x0 else default_val (snd (alts ! findTypeIndex vt alts))) sub a = Ret (rc', w')"
    using from_variant_OK by blast
  let ?j = "findTypeIndex vt alts"
  have j: "wf_ctype (snd (alts ! ?j))" "(fst (alts ! ?j), snd (alts ! ?j)) \<in> set alts"
    using alt_member [OF v(2)] TVariant.prems(1) by (auto simp: wf_ctype_members)
  have "validFromProto (snd (alts ! ?j)) x sub OK a = Ret OK"
    using val v(1-3) unfolding valid_variant_OK by auto
  with from_valid [OF v(5)] have "rc' = OK" by simp
  then have "within (snd (alts ! ?j)) w' sub"
    using v(5) dst(3) dref_ok_sub [OF v(3) TVariant.prems(3)]
    by (intro TVariant.IH [OF j(2) j(1)]) (auto intro: default_val_typed [OF j(1)])
  with v findTypeIndex_nth [OF v(2)] show ?case by (auto simp only: within_variant)
next
  case (TVec t)
  then show ?case by (intro from_vec_within) auto
qed simp

section \<open>Every valid value is accepted\<close>

lemma res_map_total: "\<forall>x \<in> set xs. \<exists>y. f x = Ret y \<Longrightarrow> \<exists>ys. res_map f xs = Ret ys"
  by (induction xs) auto

lemma rnd_total:
  assumes "dref_ok d"
  shows "\<exists>v. rnd_int d i = Ret v" and "\<exists>w. rnd_float d f = Ret w"
proof -
  show "\<exists>v. rnd_int d i = Ret v"
  proof (cases "pd_constraint (node d)")
    case (Some c)
    note ok = dref_ok_constraint [OF assms Some]
    show ?thesis
    proof (cases c)
      case (IntRange r)
      with ok obtain w where "round_int r i = Ret w" using int_rounding.rnd_inb [of r i] by auto
      with Some IntRange show ?thesis by (auto simp: rnd_int_def round_int_def res_simps)
    qed (use Some in \<open>auto simp: rnd_int_def\<close>)
  qed (simp add: rnd_int_def)
  show "\<exists>w. rnd_float d f = Ret w"
  proof (cases "pd_constraint (node d)")
    case (Some c)
    then show ?thesis by (cases c) (auto simp: rnd_float_def int_range_apply_def)
  qed (simp add: rnd_float_def)
qed

lemma from_fields_total:
  assumes "list_all2 (\<lambda>(n, t). has_type t) fs vs"
    and "\<forall>(n, t) \<in> set fs. \<exists>sub x. getSubParam d n = Ret sub \<and> map_of src n = Some x
           \<and> (\<forall>v. has_type t v \<longrightarrow> (\<exists>rc w. fromProto t x v sub a = Ret (rc, w)))"
  shows "\<exists>vs'. from_fields (members fromProto fs) src vs d a = Ret vs'"
  using assms
proof (induction fs arbitrary: vs)
  case (Cons f fs)
  obtain n t where f: "f = (n, t)" by (cases f)
  with Cons.prems(1) obtain v ws where
    vs: "vs = v # ws" "has_type t v" "list_all2 (\<lambda>(n, t). has_type t) fs ws"
    by (auto simp: list_all2_Cons1)
  moreover obtain sub x rc w where "getSubParam d n = Ret sub" "map_of src n = Some x"
    "fromProto t x v sub a = Ret (rc, w)"
    using Cons.prems(2) f vs(2) by fastforce
  moreover obtain ws' where "from_fields (members fromProto fs) src ws d a = Ret ws'"
    using Cons.IH [OF vs(3)] Cons.prems(2) by auto
  ultimately show ?case using f by simp
qed simp

lemma from_elem_total:
  assumes "wf_ctype t" "\<forall>dst. has_type t dst \<longrightarrow> (\<exists>v. fromProto t x dst d a = Ret (OK, v))"
  shows "\<exists>y. from_elem t d a x = Ret y"
  using assms default_val_typed [OF assms(1)] by (auto simp: from_elem_Ret)

lemma from_vec_total:
  assumes "wf_ctype (TVec t)" "dref_ok d" "validFromProto (TVec t) src d OK a = Ret OK"
    and IH: "\<forall>src dst. has_type t dst \<longrightarrow> validFromProto t src d OK a = Ret OK \<longrightarrow>
               (\<exists>v. fromProto t src dst d a = Ret (OK, v))"
  shows "\<exists>v. fromProto (TVec t) src dst d a = Ret (OK, v)"
proof (cases t)
  case TInt
  with assms(3) obtain xs where "src = Int32Array xs"
    by (auto simp: valid_vec_def valid_int32_array_def split: if_splits)
  with assms(3) TInt res_map_total [of xs "rnd_int d"] rnd_total(1) [OF assms(2)] show ?thesis
    by (auto simp only: from_vec_TInt_OK)
next
  case TFloat
  with assms(3) obtain xs where "src = Float32Array xs"
    by (auto simp: valid_vec_def valid_float32_array_def split: if_splits)
  with assms(3) TFloat res_map_total [of xs "rnd_float d"] rnd_total(2) [OF assms(2)] show ?thesis
    by (auto simp only: from_vec_TFloat_OK)
next
  case TString
  with assms(3) obtain ss where "src = StringArray ss"
    by (auto simp: valid_vec_def valid_string_array_def res_simps split: if_splits)
  with assms(3) TString show ?thesis by (auto simp only: from_vec_TString_OK)
next
  case (TStruct fs)
  with assms(3) obtain xs where xs: "src = StructArray xs"
    "\<forall>x \<in> set xs. validFromProto t (StructValue x) d OK a = Ret OK"
    unfolding TStruct valid_struct_array_OK by blast
  then have "\<exists>ys. res_map (\<lambda>x. from_elem t d a (StructValue x)) xs = Ret ys"
    using assms(1) IH by (intro res_map_total ballI from_elem_total) auto
  with xs(1) assms(3) show ?thesis unfolding TStruct from_vec_TStruct_OK by blast
next
  case (TVariant alts)
  with assms(3) obtain xs where xs: "src = StructVariantArray xs"
    "\<forall>p \<in> set xs. validFromProto t (StructVariantValue (fst p) (snd p)) d OK a = Ret OK"
    unfolding TVariant valid_variant_array_OK split_def by blast
  then have "\<exists>ys. res_map (\<lambda>p. from_elem t d a (StructVariantValue (fst p) (snd p))) xs = Ret ys"
    using assms(1) IH by (intro res_map_total ballI from_elem_total) auto
  with xs(1) assms(3) show ?thesis unfolding TVariant from_vec_TVariant_OK by blast
qed (use assms(1) in simp_all)

lemma from_total:
  "wf_ctype t \<Longrightarrow> has_type t dst \<Longrightarrow> dref_ok d \<Longrightarrow> validFromProto t src d OK a = Ret OK \<Longrightarrow>
     \<exists>v. fromProto t src dst d a = Ret (OK, v)"
proof (induction t arbitrary: src dst d rule: ctype_induct)
  case TInt
  then obtain i where "src = Int32Value i" by (auto simp: valid_int32_def split: if_splits)
  with TInt rnd_total(1) [OF TInt.prems(3), of i] show ?case by (auto simp only: from_scalar_OK)
next
  case TFloat
  then obtain f where "src = Float32Value f" by (auto simp: valid_float32_def split: if_splits)
  with TFloat rnd_total(2) [OF TFloat.prems(3), of f] show ?case by (auto simp only: from_scalar_OK)
next
  case TString
  then obtain s where "src = StringValue s" by (auto simp: valid_string_def split: if_splits)
  with TString show ?case by (auto simp only: from_scalar_OK)
next
  case (TStruct fs)
  obtain vs where dst: "dst = VStruct vs" "list_all2 (\<lambda>(n, t). has_type t) fs vs"
    using TStruct.prems(2) by (auto simp: has_type_struct)
  obtain sf where src: "src = StructValue sf"
    and fields: "\<forall>(n, t) \<in> set fs. \<exists>sub x. getSubParam d n = Ret sub \<and> map_of sf n = Some x
                   \<and> validFromProto t x sub OK a = Ret OK"
    using TStruct.prems(4) unfolding valid_struct_OK by blast
  have "\<forall>(n, t) \<in> set fs. \<exists>sub x. getSubParam d n = Ret sub \<and> map_of sf n = Some x
           \<and> (\<forall>v. has_type t v \<longrightarrow> (\<exists>rc w. fromProto t x v sub a = Ret (rc, w)))"
  proof (clarify)
    fix n t assume nt: "(n, t) \<in> set fs"
    with fields obtain sub x where sub: "getSubParam d n = Ret sub" "map_of sf n = Some x"
      "validFromProto t x sub OK a = Ret OK" by blast
    moreover have "wf_ctype t" using TStruct.prems(1) nt by (auto simp: wf_ctype_members)
    ultimately show "\<exists>sub x. getSubParam d n = Ret sub \<and> map_of sf n = Some x
           \<and> (\<forall>v. has_type t v \<longrightarrow> (\<exists>rc w. fromProto t x v sub a = Ret (rc, w)))"
      using TStruct.IH [OF nt] dref_ok_sub [OF _ TStruct.prems(3)] by blast
  qed
  from from_fields_total [OF dst(2) this] src dst(1) TStruct.prems(4) show ?case
    unfolding dst(1) from_struct_OK by auto
next
  case (TVariant alts)
  obtain i0 x0 where dst: "dst = VVariant i0 x0" "i0 < length alts" "has_type (snd (alts ! i0)) x0"
    using TVariant.prems(2) by (auto simp: has_type_variant)
  from TVariant.prems(4) obtain vt x sub where
    v: "src = StructVariantValue vt x" "findTypeIndex vt alts < length alts" "getSubParam d vt = Ret sub"
       "validFromProto (snd (alts ! findTypeIndex vt alts)) x sub OK a = Ret OK"
    unfolding valid_variant_OK by blast
  let ?j = "findTypeIndex vt alts"
  let ?w = "if ?j = i0 then x0 else default_val (snd (alts ! ?j))"
  have j: "wf_ctype (snd (alts ! ?j))" "(fst (alts ! ?j), snd (alts ! ?j)) \<in> set alts"
    using alt_member [OF v(2)] TVariant.prems(1) by (auto simp: wf_ctype_members)
  have "has_type (snd (alts ! ?j)) ?w" using dst(3) default_val_typed [OF j(1)] by auto
  from TVariant.IH [OF j(2,1) this dref_ok_sub [OF v(3) TVariant.prems(3)] v(4)] v TVariant.prems(4)
  show ?case unfolding dst(1) from_variant_OK by blast
next
  case (TVec t)
  then show ?case by (intro from_vec_total) auto
qed simp

end
