(* ===== verification/Struct_Roundtrip.thy ===== *)
theory Struct_Roundtrip
  imports Struct_Props
begin

text \<open>
  Serialisation of values: what a successful \<^verbatim>\<open>toProto\<close> produces, that it reports nothing the
  client may not read, and that \<^verbatim>\<open>fromProto\<close> reads it back unchanged.
\<close>

section \<open>What a successful serialisation produces\<close>

lemma to_fields_err: "rc \<noteq> OK \<Longrightarrow> to_fields fs vs dst rc d a \<noteq> Ret (OK, sf)"
  by (induction fs vs dst rc d a rule: to_fields.induct) auto

lemma to_fields_OK:
  assumes "to_fields (members toProto fs) vs dst OK d a = Ret (OK, sf)"
    and "distinct (map fst fs)" "\<forall>n \<in> fst ` set fs. map_of dst n = None"
  shows "list_all2 (\<lambda>(n, t) v. \<exists>sub x. getSubParam d n = Ret sub
            \<and> toProto t KindNotSet v sub a = Ret (OK, x) \<and> map_of sf n = Some x) fs vs
       \<and> (\<forall>n. n \<notin> fst ` set fs \<longrightarrow> map_of sf n = map_of dst n)"
  using assms
proof (induction fs arbitrary: vs dst)
  case Nil
  then show ?case by (cases vs) auto
next
  case (Cons f fs)
  obtain n t where f: "f = (n, t)" by (cases f)
  from Cons.prems(1) f obtain v ws where vs: "vs = v # ws" by (cases vs) auto
  from Cons.prems f vs obtain sub rc x where
    x: "getSubParam d n = Ret sub" "toProto t KindNotSet v sub a = Ret (rc, x)"
       "to_fields (members toProto fs) ws (AList.update n x dst) rc d a = Ret (OK, sf)"
    by (auto simp: res_simps)
  then have "rc = OK" using to_fields_err by blast
  moreover have "\<forall>m \<in> fst ` set fs. map_of (AList.update n x dst) m = None"
    using Cons.prems(2,3) f by (auto simp: update_conv')
  ultimately have IH: "list_all2 (\<lambda>(n, t) v. \<exists>sub x. getSubParam d n = Ret sub
            \<and> toProto t KindNotSet v sub a = Ret (OK, x) \<and> map_of sf n = Some x) fs ws"
    "\<forall>m. m \<notin> fst ` set fs \<longrightarrow> map_of sf m = map_of (AList.update n x dst) m"
    using x(3) Cons.IH [of ws "AList.update n x dst"] Cons.prems(2) by auto
  moreover have "map_of sf n = Some x" using IH(2) Cons.prems(2) f by (auto simp: update_conv')
  ultimately show ?case using x(1,2) \<open>rc = OK\<close> f vs by (auto simp: update_conv')
qed

lemma to_struct_OK:
  assumes "toProto (TStruct fs) KindNotSet v d a = Ret (OK, pv)" "wf_ctype (TStruct fs)"
  obtains vs sf where "v = VStruct vs" "pv = StructValue sf" "readAuthz a d"
    "list_all2 (\<lambda>(n, t) v. \<exists>sub x. getSubParam d n = Ret sub
        \<and> toProto t KindNotSet v sub a = Ret (OK, x) \<and> map_of sf n = Some x) fs vs"
proof -
  from assms(1) obtain vs sf where *: "v = VStruct vs" "pv = StructValue sf" "readAuthz a d"
    "to_fields (members toProto fs) vs [] OK d a = Ret (OK, sf)"
    by (auto simp: to_struct_def res_simps split: cval.splits if_splits)
  with to_fields_OK [OF *(4)] assms(2) show ?thesis by (intro that) (auto simp: wf_ctype_members)
qed

lemma to_struct_shape:
  "toProto (TStruct fs) KindNotSet v d a = Ret (OK, pv) \<Longrightarrow> pv = StructValue (struct_fields pv)"
  by (auto simp: to_struct_def res_simps split: cval.splits if_splits)

lemma to_variant_OK:
  assumes "toProto (TVariant alts) KindNotSet v d a = Ret (OK, pv)"
  obtains i x sub y where "v = VVariant i x" "i < length alts" "readAuthz a d"
    "getSubParam d (fst (alts ! i)) = Ret sub" "toProto (snd (alts ! i)) KindNotSet x sub a = Ret (OK, y)"
    "pv = StructVariantValue (fst (alts ! i)) y"
  using assms by (auto simp: to_variant_def res_simps Let_def split: cval.splits if_splits)

lemma to_variant_shape:
  assumes "toProto (TVariant alts) KindNotSet v d a = Ret (OK, pv)"
  shows "pv = StructVariantValue (fst (struct_variant_value pv)) (snd (struct_variant_value pv))"
  using assms by (rule to_variant_OK) simp

lemma to_struct_loop_OK:
  "to_struct_loop elem vs acc d a = Ret (OK, arr) \<Longrightarrow>
     \<exists>xs. arr = acc @ xs \<and> list_all2 (\<lambda>v x. \<exists>ev. elem KindNotSet v d a = Ret (OK, ev) \<and> x = struct_fields ev) vs xs"
  by (induction vs arbitrary: acc) (fastforce simp: res_simps split: if_splits)+

lemma to_variant_loop_OK:
  "to_variant_loop elem vs dst d a = Ret (OK, pv) \<Longrightarrow>
     \<exists>xs. (if vs = [] then pv = dst else pv = StructVariantArray (struct_variant_array_values dst @ xs))
        \<and> list_all2 (\<lambda>v x. \<exists>ev. elem KindNotSet v d a = Ret (OK, ev) \<and> x = struct_variant_value ev) vs xs"
proof (induction vs arbitrary: dst)
  case (Cons v vs)
  then obtain ev where ev: "elem KindNotSet v d a = Ret (OK, ev)"
    "to_variant_loop elem vs (StructVariantArray (struct_variant_array_values dst @ [struct_variant_value ev])) d a = Ret (OK, pv)"
    by (auto simp: res_simps Let_def split: if_splits)
  from Cons.IH [OF ev(2)] ev(1) show ?case
    by (elim exE) (rule_tac x = "struct_variant_value ev # xs" in exI, auto split: if_splits)
qed simp

lemma vec_ints_Ret: "vec_ints vs = Ret xs \<Longrightarrow> vs = map VInt xs"
  by (induction vs arbitrary: xs rule: vec_ints.induct) (auto simp: res_simps)

lemma vec_floats_Ret: "vec_floats vs = Ret xs \<Longrightarrow> vs = map VFloat xs"
  by (induction vs arbitrary: xs rule: vec_floats.induct) (auto simp: res_simps)

lemma vec_strings_Ret: "vec_strings vs = Ret xs \<Longrightarrow> vs = map VString xs"
  by (induction vs arbitrary: xs rule: vec_strings.induct) (auto simp: res_simps)

section \<open>Reading back\<close>

text \<open>No constraint of the parameter or of its sub parameters rounds.\<close>

primrec no_rounding :: "pdesc \<Rightarrow> bool" where
  "no_rounding (PDesc i subs) \<longleftrightarrow>
     (case pd_constraint i of None \<Rightarrow> True | Some c \<Rightarrow> \<not> isRange c)
     \<and> list_all snd (map (map_prod id no_rounding) subs)"

definition dref_exact :: "dref \<Rightarrow> bool" where
  "dref_exact d \<longleftrightarrow> chain d \<noteq> [] \<and> no_rounding (hd (chain d))"

lemma dref_exact_sub: "getSubParam d n = Ret sub \<Longrightarrow> dref_exact d \<Longrightarrow> dref_exact sub"
  by (cases "hd (chain d)")
     (force simp: dref_exact_def list_all_iff dest!: getSubParam_chain map_of_SomeD)

lemma exact_rnd: "dref_exact d \<Longrightarrow> rnd_int d i = Ret (VInt i) \<and> rnd_float d f = Ret (VFloat f)"
  by (cases "hd (chain d)")
     (auto simp: dref_exact_def node_def rnd_int_def rnd_float_def split: option.splits)

lemma res_map_Ret_map: "(\<And>x. f x = Ret (g x)) \<Longrightarrow> res_map f xs = Ret (map g xs)"
  by (induction xs) auto

lemma list_all2_unique:
  assumes "list_all2 P xs vs" "list_all2 Q xs ws" "\<And>x v w. x \<in> set xs \<Longrightarrow> P x v \<Longrightarrow> Q x w \<Longrightarrow> w = v"
  shows "ws = vs"
proof (rule nth_equalityI)
  show "length ws = length vs" using assms(1,2) by (metis list_all2_lengthD)
  fix i assume "i < length ws"
  moreover from this assms(1,2) have "i < length xs" "P (xs ! i) (vs ! i)" "Q (xs ! i) (ws ! i)"
    by (auto simp: list_all2_conv_all_nth)
  ultimately show "ws ! i = vs ! i" using assms(3) nth_mem by blast
qed

lemma elems_roundtrip:
  assumes "list_all2 (\<lambda>v x. toProto t KindNotSet v d a = Ret (OK, f x)) vs xs"
    and "res_map (\<lambda>x. from_elem t d b (f x)) xs = Ret ws" "list_all (has_type t) vs"
    and "\<forall>x \<in> set xs. validFromProto t (f x) d OK b = Ret OK"
    and "\<And>v pv w. has_type t v \<Longrightarrow> toProto t KindNotSet v d a = Ret (OK, pv) \<Longrightarrow>
           fromProto t pv (default_val t) d b = Ret (OK, w) \<Longrightarrow> w = v"
  shows "ws = vs"
proof (intro nth_equalityI)
  have l: "length vs = length xs" "length xs = length ws"
    using assms(1,2) by (auto simp: res_map_Ret_iff dest: list_all2_lengthD)
  then show "length ws = length vs" by simp
  fix i assume i: "i < length ws"
  with l assms(1-3) have "toProto t KindNotSet (vs ! i) d a = Ret (OK, f (xs ! i))"
    "from_elem t d b (f (xs ! i)) = Ret (ws ! i)" "has_type t (vs ! i)"
    by (auto simp: res_map_Ret_iff list_all2_conv_all_nth list_all_length)
  moreover have "validFromProto t (f (xs ! i)) d OK b = Ret OK" using assms(4) i l by simp
  ultimately show "ws ! i = vs ! i" using assms(5) from_elem_valid by blast
qed

lemma vec_roundtrip:
  assumes "wf_ctype (TVec t)" "dref_exact d" "has_type (TVec t) v"
    and ser: "toProto (TVec t) KindNotSet v d a = Ret (OK, pv)"
    and rd: "fromProto (TVec t) pv dst d b = Ret (OK, w)"
    and IH: "\<And>v pv w. has_type t v \<Longrightarrow> toProto t KindNotSet v d a = Ret (OK, pv) \<Longrightarrow>
           fromProto t pv (default_val t) d b = Ret (OK, w) \<Longrightarrow> w = v"
  shows "w = v"
proof -
  obtain vs where v: "v = VVec vs" "list_all (has_type t) vs" using assms(3) by (auto simp: has_type_vec)
  show ?thesis
  proof (cases t)
    case TInt
    with ser v obtain xs where "pv = Int32Array xs" "vs = map VInt xs"
      by (auto simp: to_vec_def to_int32_array_def res_simps split: if_splits dest: vec_ints_Ret)
    with rd TInt v exact_rnd [OF assms(2)] show ?thesis
      by (auto simp only: from_vec_TInt_OK) (simp add: res_map_Ret_map)
  next
    case TFloat
    with ser v obtain xs where "pv = Float32Array xs" "vs = map VFloat xs"
      by (auto simp: to_vec_def to_float32_array_def res_simps split: if_splits dest: vec_floats_Ret)
    with rd TFloat v exact_rnd [OF assms(2)] show ?thesis
      by (auto simp only: from_vec_TFloat_OK) (simp add: res_map_Ret_map)
  next
    case TString
    with ser v obtain xs where "pv = StringArray xs" "vs = map VString xs"
      by (auto simp: to_vec_def to_string_array_def res_simps split: if_splits dest: vec_strings_Ret)
    with rd TString v show ?thesis by (auto simp only: from_vec_TString_OK)
  next
    case (TStruct fs)
    with ser v obtain xs where pv: "pv = StructArray xs" "to_struct_loop (toProto t) vs [] d a = Ret (OK, xs)"
      by (auto simp: to_vec_def to_struct_array_def res_simps split: if_splits)
    have "list_all2 (\<lambda>v x. \<exists>ev. toProto t KindNotSet v d a = Ret (OK, ev) \<and> x = struct_fields ev) vs xs"
      using to_struct_loop_OK [OF pv(2)] by simp
    then have el: "list_all2 (\<lambda>v x. toProto t KindNotSet v d a = Ret (OK, StructValue x)) vs xs"
      by (rule list_all2_mono) (use TStruct to_struct_shape in auto)
    from rd obtain ws where "w = VVec ws" "res_map (\<lambda>x. from_elem t d b (StructValue x)) xs = Ret ws"
      "\<forall>x \<in> set xs. validFromProto t (StructValue x) d OK b = Ret OK"
      unfolding TStruct from_vec_TStruct_OK pv(1) valid_struct_array_OK by blast
    with elems_roundtrip [OF el _ v(2) _ IH] v(1) show ?thesis by simp
  next
    case (TVariant alts)
    have "pv \<noteq> KindNotSet" using rd unfolding TVariant from_vec_TVariant_OK by auto
    with ser v TVariant obtain xs where pv: "pv = StructVariantArray xs"
      "list_all2 (\<lambda>v x. \<exists>ev. toProto t KindNotSet v d a = Ret (OK, ev) \<and> x = struct_variant_value ev) vs xs"
      by (auto simp: to_vec_def to_variant_array_def clear_when_def res_simps split: if_splits
               dest!: to_variant_loop_OK simp del: to_simps)
    then have el: "list_all2 (\<lambda>v x. toProto t KindNotSet v d a = Ret (OK, StructVariantValue (fst x) (snd x))) vs xs"
      by (elim list_all2_mono) (use TVariant to_variant_shape in auto)
    from rd obtain ws where "w = VVec ws"
      "res_map (\<lambda>x. from_elem t d b (StructVariantValue (fst x) (snd x))) xs = Ret ws"
      "\<forall>x \<in> set xs. validFromProto t (StructVariantValue (fst x) (snd x)) d OK b = Ret OK"
      unfolding TVariant from_vec_TVariant_OK pv(1) valid_variant_array_OK split_def by blast
    with elems_roundtrip [OF el _ v(2) _ IH] v(1) show ?thesis by simp
  qed (use assms(1) in simp_all)
qed

lemma toProto_fromProto:
  "wf_ctype t \<Longrightarrow> dref_exact d \<Longrightarrow> has_type t v \<Longrightarrow> has_type t dst \<Longrightarrow>
   toProto t KindNotSet v d a = Ret (OK, pv) \<Longrightarrow> fromProto t pv dst d b = Ret (OK, w) \<Longrightarrow> w = v"
proof (induction t arbitrary: v dst d pv w rule: ctype_induct)
  case TInt
  then show ?case using exact_rnd [OF TInt.prems(2)]
    by (auto simp only: from_scalar_OK) (auto simp: to_int32_def split: cval.splits if_splits)
next
  case TFloat
  then show ?case using exact_rnd [OF TFloat.prems(2)]
    by (auto simp only: from_scalar_OK) (auto simp: to_float32_def split: cval.splits if_splits)
next
  case TString
  then show ?case
    by (auto simp only: from_scalar_OK) (auto simp: to_string_def split: cval.splits if_splits)
next
  case (TStruct fs)
  obtain us where dst: "dst = VStruct us" "list_all2 (\<lambda>(n, t). has_type t) fs us"
    using TStruct.prems(4) by (auto simp: has_type_struct)
  from TStruct.prems(5,1) obtain vs sf where v: "v = VStruct vs" "pv = StructValue sf"
    "list_all2 (\<lambda>(n, t) v. \<exists>sub x. getSubParam d n = Ret sub
        \<and> toProto t KindNotSet v sub a = Ret (OK, x) \<and> map_of sf n = Some x) fs vs"
    by (rule to_struct_OK)
  have vt: "list_all2 (\<lambda>(n, t). has_type t) fs vs" using TStruct.prems(3) v(1) by (simp add: has_type_struct)
  from TStruct.prems(6) dst v(2) obtain ws where
    w: "w = VStruct ws" "from_fields (members fromProto fs) sf us d b = Ret ws"
      "validFromProto (TStruct fs) pv d OK b = Ret OK"
    using from_struct_OK by auto
  have uniq: "w = v"
    if "(n, t) \<in> set fs" "has_type t v" "getSubParam d n = Ret sub" "toProto t KindNotSet v sub a = Ret (OK, x)"
      "map_of sf n = Some x" "has_type t u" "fromProto t x u sub b = Ret (rc, w)" for n t v w sub x u rc
  proof -
    have "validFromProto t x sub OK b = Ret OK" using w(3) v(2) that(1,3,5) unfolding valid_struct_OK by force
    with from_valid [OF that(7)] have "rc = OK" by simp
    moreover have "wf_ctype t" using TStruct.prems(1) that(1) by (auto simp: wf_ctype_members)
    ultimately show ?thesis
      using that TStruct.IH [OF that(1)] dref_exact_sub [OF that(3) TStruct.prems(2)] by blast
  qed
  have fwd: "list_all2 (\<lambda>(n, t) v. has_type t v \<and> (\<exists>sub x. getSubParam d n = Ret sub
      \<and> toProto t KindNotSet v sub a = Ret (OK, x) \<and> map_of sf n = Some x)) fs vs"
    using v(3) vt by (auto simp: list_all2_conv_all_nth split_def)
  have bwd: "list_all2 (\<lambda>(n, t) w. \<exists>sub x u rc. getSubParam d n = Ret sub \<and> map_of sf n = Some x
      \<and> has_type t u \<and> fromProto t x u sub b = Ret (rc, w)) fs ws"
    by (rule from_fields_all [OF w(2) dst(2)]) blast
  have "ws = vs"
    by (rule list_all2_unique [OF fwd bwd]) (auto dest: uniq)
  with v(1) w(1) show ?case by simp
next
  case (TVariant alts)
  obtain i0 x0 where dst: "dst = VVariant i0 x0" "i0 < length alts" "has_type (snd (alts ! i0)) x0"
    using TVariant.prems(4) by (auto simp: has_type_variant)
  from TVariant.prems(5) obtain i x sub y where v: "v = VVariant i x" "i < length alts"
    "getSubParam d (fst (alts ! i)) = Ret sub" "toProto (snd (alts ! i)) KindNotSet x sub a = Ret (OK, y)"
    "pv = StructVariantValue (fst (alts ! i)) y"
    by (rule to_variant_OK)
  have j: "findTypeIndex (fst (alts ! i)) alts = i"
    using TVariant.prems(1) v(2) by (intro findTypeIndex_distinct) (auto simp: wf_ctype_members)
  have wf: "wf_ctype (snd (alts ! i))"
    using alt_member [OF v(2)] TVariant.prems(1) by (auto simp: wf_ctype_members)
  from TVariant.prems(6) v(3,5) j obtain rc' w' where
    w: "w = VVariant i w'" "fromProto (snd (alts ! i)) y (if i = i0 then x0 else default_val (snd (alts ! i))) sub b = Ret (rc', w')"
      "validFromProto (TVariant alts) pv d OK b = Ret OK"
    unfolding dst(1) from_variant_OK by (auto cong: if_cong)
  have "validFromProto (snd (alts ! i)) y sub OK b = Ret OK"
    using w(3) v(3,5) j unfolding valid_variant_OK by auto
  with from_valid [OF w(2)] have "rc' = OK" by simp
  moreover have "has_type (snd (alts ! i)) (if i = i0 then x0 else default_val (snd (alts ! i)))"
    using dst(3) default_val_typed [OF wf] by auto
  ultimately have "w' = x"
    using TVariant.IH [OF alt_member [OF v(2)] wf dref_exact_sub [OF v(3) TVariant.prems(2)]]
      TVariant.prems(3) v(1,4) w(2) by (auto simp: has_type_variant)
  with v(1) w(1) show ?case by simp
next
  case (TVec t)
  have wf: "wf_ctype t" using TVec.prems(1) by simp
  show ?case
  proof (rule vec_roundtrip [OF TVec.prems(1,2,3,5,6)])
    fix v pv w
    assume "has_type t v" "toProto t KindNotSet v d a = Ret (OK, pv)"
      "fromProto t pv (default_val t) d b = Ret (OK, w)"
    with TVec.IH [OF wf TVec.prems(2) _ default_val_typed [OF wf]] show "w = v" by blast
  qed
qed simp_all

section \<open>Nothing unreadable is reported\<close>

text \<open>Whether the client may read the parameter and every sub parameter its value consists of.\<close>

primrec readable :: "ctype \<Rightarrow> cval \<Rightarrow> dref \<Rightarrow> authorizer \<Rightarrow> bool" where
  "readable TEmpty = (\<lambda>v d a. True)"
| "readable TInt = (\<lambda>v d a. readAuthz a d)"
| "readable TFloat = (\<lambda>v d a. readAuthz a d)"
| "readable TString = (\<lambda>v d a. readAuthz a d)"
| "readable (TStruct fs) =
     (\<lambda>v d a. readAuthz a d \<and>
        (case v of
           VStruct vs \<Rightarrow> list_all2 (\<lambda>(n, r) x. \<exists>sub. getSubParam d n = Ret sub \<and> r x sub a)
                                   (map (map_prod id readable) fs) vs
         | _ \<Rightarrow> False))"
| "readable (TVariant alts) =
     (\<lambda>v d a. readAuthz a d \<and>
        (case v of
           VVariant i x \<Rightarrow> i < length alts \<and>
             (\<exists>sub. getSubParam d (fst (alts ! i)) = Ret sub \<and> snd (map (map_prod id readable) alts ! i) x sub a)
         | _ \<Rightarrow> False))"
| "readable (TVec t) =
     (\<lambda>v d a. readAuthz a d \<and> (case v of VVec vs \<Rightarrow> list_all (\<lambda>x. readable t x d a) vs | _ \<Rightarrow> False))"

lemma readable_struct:
  "readable (TStruct fs) (VStruct vs) d a \<longleftrightarrow> readAuthz a d \<and>
     list_all2 (\<lambda>(n, t) x. \<exists>sub. getSubParam d n = Ret sub \<and> readable t x sub a) fs vs"
  by (simp add: list_all2_map1 split_def)

lemma readable_variant:
  "readable (TVariant alts) (VVariant i x) d a \<longleftrightarrow> readAuthz a d \<and> i < length alts \<and>
     (\<exists>sub. getSubParam d (fst (alts ! i)) = Ret sub \<and> readable (snd (alts ! i)) x sub a)"
  by auto

lemma toProto_OK_readable:
  "wf_ctype t \<Longrightarrow> has_type t v \<Longrightarrow> toProto t KindNotSet v d a = Ret (OK, pv) \<Longrightarrow> readable t v d a"
proof (induction t arbitrary: v d pv rule: ctype_induct)
  case (TStruct fs)
  from TStruct.prems(3,1) obtain vs sf where v: "v = VStruct vs" "readAuthz a d"
    "list_all2 (\<lambda>(n, t) v. \<exists>sub x. getSubParam d n = Ret sub
        \<and> toProto t KindNotSet v sub a = Ret (OK, x) \<and> map_of sf n = Some x) fs vs"
    by (rule to_struct_OK)
  have vt: "list_all2 (\<lambda>(n, t). has_type t) fs vs" using TStruct.prems(2) v(1) by (simp add: has_type_struct)
  have wf: "\<forall>(n, t) \<in> set fs. wf_ctype t" using TStruct.prems(1) by (auto simp: wf_ctype_members)
  have "list_all2 (\<lambda>(n, t) x. \<exists>sub. getSubParam d n = Ret sub \<and> readable t x sub a) fs vs"
    unfolding list_all2_conv_all_nth
  proof (intro conjI allI impI)
    show "length fs = length vs" using vt by (rule list_all2_lengthD)
    fix i assume i: "i < length fs"
    then have "(fst (fs ! i), snd (fs ! i)) \<in> set fs" by simp
    with i v(3) vt wf TStruct.IH [OF this]
    show "(case fs ! i of (n, t) \<Rightarrow> \<lambda>x. \<exists>sub. getSubParam d n = Ret sub \<and> readable t x sub a) (vs ! i)"
      by (auto simp: list_all2_conv_all_nth split_def)
  qed
  with v show ?case by (simp only: readable_struct)
next
  case (TVariant alts)
  from TVariant.prems(3) obtain i x sub y where v: "v = VVariant i x" "i < length alts" "readAuthz a d"
    "getSubParam d (fst (alts ! i)) = Ret sub" "toProto (snd (alts ! i)) KindNotSet x sub a = Ret (OK, y)"
    by (rule to_variant_OK)
  have "wf_ctype (snd (alts ! i))"
    using alt_member [OF v(2)] TVariant.prems(1) by (auto simp: wf_ctype_members)
  moreover have "has_type (snd (alts ! i)) x" using TVariant.prems(2) v(1) by (simp add: has_type_variant)
  ultimately have "readable (snd (alts ! i)) x sub a"
    using TVariant.IH [OF alt_member [OF v(2)]] v(5) by blast
  with v show ?case by (auto simp only: readable_variant)
next
  case (TVec t)
  then obtain vs where v: "v = VVec vs" "list_all (has_type t) vs" by (auto simp: has_type_vec)
  have rd: "readAuthz a d" using TVec.prems(3) v(1)
    by (cases t) (auto simp: to_vec_def to_int32_array_def to_float32_array_def to_string_array_def
                    to_struct_array_def to_variant_array_def split: if_splits)
  have "list_all (\<lambda>x. readable t x d a) vs"
  proof (cases t)
    case (TStruct fs)
    with TVec.prems(3) v(1) obtain xs where "to_struct_loop (toProto t) vs [] d a = Ret (OK, xs)"
      by (auto simp: to_vec_def to_struct_array_def res_simps split: if_splits)
    from to_struct_loop_OK [OF this] v(2) TVec.IH TVec.prems(1) show ?thesis
      by (fastforce simp: list_all2_conv_all_nth list_all_length)
  next
    case (TVariant alts)
    with TVec.prems(3) v(1) obtain y pv' where "to_variant_loop (toProto t) vs y d a = Ret (OK, pv')"
      by (auto simp: to_vec_def to_variant_array_def res_simps split: if_splits)
    from to_variant_loop_OK [OF this] v(2) TVec.IH TVec.prems(1) show ?thesis
      by (fastforce simp: list_all2_conv_all_nth list_all_length)
  qed (use rd TVec.prems(1) in \<open>simp_all add: list_all_iff\<close>)
  with v rd show ?case by simp
qed (auto simp: to_int32_def to_float32_def to_string_def split: cval.splits if_splits)

text \<open>A writer that fails for lack of access only.\<close>

definition access_rc :: "StatusCode \<Rightarrow> bool" where
  "access_rc rc \<longleftrightarrow> rc = OK \<or> rc = PERMISSION_DENIED"

definition access_only :: "authorizer \<Rightarrow> writer \<Rightarrow> bool" where
  "access_only a wr \<longleftrightarrow> (\<forall>dst v d rc pv. wr dst v d a = Ret (rc, pv) \<longrightarrow> access_rc rc)"

lemma access_onlyD: "access_only a wr \<Longrightarrow> wr dst v d a = Ret (rc, pv) \<Longrightarrow> access_rc rc"
  unfolding access_only_def by blast

lemma access_onlyI: "(\<And>dst v d rc pv. wr dst v d a = Ret (rc, pv) \<Longrightarrow> access_rc rc) \<Longrightarrow> access_only a wr"
  unfolding access_only_def by blast

lemma access_rc_simps [simp]: "access_rc OK" "access_rc PERMISSION_DENIED"
  by (simp_all add: access_rc_def)

lemma to_fields_access:
  "to_fields fs vs dst rc d a = Ret (rc', sf) \<Longrightarrow> access_rc rc \<Longrightarrow> \<forall>(n, wr) \<in> set fs. access_only a wr \<Longrightarrow> access_rc rc'"
  by (induction fs vs dst rc d a rule: to_fields.induct)
     (auto simp: res_simps split: if_splits dest: access_onlyD)

lemma to_struct_loop_access:
  "to_struct_loop elem vs acc d a = Ret (rc, arr) \<Longrightarrow> access_only a elem \<Longrightarrow> access_rc rc"
  by (induction vs arbitrary: acc) (auto simp: res_simps split: if_splits dest: access_onlyD)

lemma to_variant_loop_access:
  "to_variant_loop elem vs dst d a = Ret (rc, pv) \<Longrightarrow> access_only a elem \<Longrightarrow> access_rc rc"
  by (induction vs arbitrary: dst) (auto simp: res_simps Let_def split: if_splits dest: access_onlyD)

lemma toProto_access: "access_only a (toProto t)"
proof (induction t rule: ctype_induct)
  case (TStruct fs)
  then have "to_fields (members toProto fs) vs [] OK d a = Ret (rc, sf) \<Longrightarrow> access_rc rc" for vs d rc sf
    by (rule_tac to_fields_access [of "members toProto fs" vs "[]" OK d a rc sf]) auto
  then show ?case
    by (intro access_onlyI) (auto simp: to_struct_def res_simps
             split: cval.splits if_splits)
next
  case (TVariant alts)
  then have "i < length alts \<Longrightarrow> access_only a (toProto (snd (alts ! i)))" for i
    using alt_member by blast
  then show ?case
    by (intro access_onlyI) (auto simp: to_variant_def res_simps Let_def
             split: cval.splits if_splits dest: access_onlyD)
next
  case (TVec t)
  then show ?case
    by (intro access_onlyI, cases t) (auto simp: to_vec_def to_int32_array_def to_float32_array_def
        to_string_array_def to_struct_array_def to_variant_array_def res_simps
        split: cval.splits if_splits dest: to_struct_loop_access to_variant_loop_access)
qed (auto intro!: access_onlyI simp: to_int32_def to_float32_def to_string_def split: cval.splits if_splits)

lemma to_variant_loop_shape:
  "to_variant_loop elem vs dst d a = Ret (rc, pv) \<Longrightarrow> pv = dst \<or> has_struct_variant_array_values pv"
  by (induction vs arbitrary: dst) (fastforce simp: res_simps Let_def split: if_splits)+

lemma toProto_denied:
  "toProto t KindNotSet v d a = Ret (rc, pv) \<Longrightarrow> rc \<noteq> OK \<Longrightarrow> pv = KindNotSet"
proof (cases t)
  case (TVec e)
  assume "toProto t KindNotSet v d a = Ret (rc, pv)" "rc \<noteq> OK"
  with TVec show ?thesis
    by (cases e)
       (auto simp: to_vec_def to_int32_array_def to_float32_array_def to_string_array_def to_struct_array_def
          to_variant_array_def clear_when_def res_simps split: cval.splits if_splits dest!: to_variant_loop_shape)
qed (auto simp: to_int32_def to_float32_def to_string_def to_struct_def to_variant_def clear_when_def Let_def res_simps
       split: cval.splits if_splits)

section \<open>Properties\<close>

text \<open>A descriptor and a type the witnesses use: a struct of a ranged integer and a string array.\<close>

definition ex_type :: ctype where
  "ex_type = TStruct [(''level'', TInt), (''tags'', TVec TString)]"

definition ex_desc :: "constraint option \<Rightarrow> pdesc" where
  "ex_desc c = PDesc (example_info ''mix'' STRUCT)
     [(''level'', PDesc (example_info ''level'' INT32\<lparr>pd_constraint := c\<rparr>) []),
      (''tags'', PDesc (example_info ''tags'' STRING_ARRAY) [])]"

definition ex_range :: constraint where
  "ex_range = IntRange \<lparr>ir_min = 0, ir_max = 100, ir_step = 5, ir_display_min = 0, ir_display_max = 100,
                       ir_oid = [], ir_shared = False\<rparr>"

definition ex_dref :: "constraint option \<Rightarrow> dref" where
  "ex_dref c = \<lparr>chain = [ex_desc c], dev = example_cfg\<rparr>"

lemma ex_wf: "wf_ctype ex_type" "has_type ex_type (VStruct [VInt 7, VVec []])"
  by (auto simp: ex_type_def wf_ctype_members has_type_struct has_type_vec)

lemma ex_ok: "dref_ok (ex_dref (Some ex_range))" "dref_exact (ex_dref None)"
  by (simp_all add: dref_ok_def dref_exact_def ex_dref_def ex_desc_def ex_range_def example_info_def wf_int_range_def)

lemma ex_from:
  "fromProto ex_type (StructValue [(''level'', Int32Value 93), (''tags'', StringArray [''a''])])
     (VStruct [VInt 7, VVec []]) (ex_dref (Some ex_range)) kAuthzDisabled
   = Ret (OK, VStruct [VInt 90, VVec [VString ''a'']])"
  by code_simp

text \<open>
  A value that \<^verbatim>\<open>fromProto\<close> does not accept leaves the parameter as it was, whatever its type
  and however deep the offending field is: struct, variant and array assignments are all or
  nothing.
\<close>

theorem fromProto_all_or_nothing:
  assumes "fromProto t src dst d a = Ret (rc, v)" "rc \<noteq> OK"
  shows "v = dst \<and> validFromProto t src d OK a = Ret rc"
  using from_valid [OF assms(1)] assms(2) by blast

theorem fromProto_all_or_nothing_witness:
  "validFromProto ex_type (StructValue [(''level'', Int32Value 93), (''tags'', Int32Value 1)])
     (ex_dref (Some ex_range)) OK kAuthzDisabled = Ret INVALID_ARGUMENT"
proof -
  have "fromProto ex_type (StructValue [(''level'', Int32Value 93), (''tags'', Int32Value 1)])
          (VStruct [VInt 7, VVec []]) (ex_dref (Some ex_range)) kAuthzDisabled
        = Ret (INVALID_ARGUMENT, VStruct [VInt 7, VVec []])" by code_simp
  from fromProto_all_or_nothing [OF this] show ?thesis by simp
qed

text \<open>
  C11: with well formed constraints \<^verbatim>\<open>fromProto\<close> accepts exactly the values \<^verbatim>\<open>validFromProto\<close>
  validates: after a successful validation the assignment cannot fail, throw or run into
  undefined behaviour.
\<close>

theorem fromProto_accepts_valid:
  assumes "wf_ctype t" "has_type t dst" "dref_ok d"
  shows "(\<exists>v. fromProto t src dst d a = Ret (OK, v)) \<longleftrightarrow> validFromProto t src d OK a = Ret OK"
  using from_total [OF assms] from_valid by blast

theorem fromProto_accepts_valid_witness:
  "(\<exists>v. fromProto ex_type (StructValue [(''tags'', StringArray []), (''level'', Int32Value 200)])
      (VStruct [VInt 7, VVec []]) (ex_dref (Some ex_range)) kAuthzDisabled = Ret (OK, v))"
  unfolding fromProto_accepts_valid [OF ex_wf ex_ok(1)] by code_simp





text \<open>
  serialisation reports only what the client may read: it succeeds only when the parameter
  and every sub parameter its value consists of are readable, fails with permission denied
  otherwise, and then writes nothing.
\<close>

theorem toProto_reports_readable_only:
  assumes "wf_ctype t" "has_type t v" "toProto t KindNotSet v d a = Ret (rc, pv)"
  shows "if rc = OK then readable t v d a else rc = PERMISSION_DENIED \<and> pv = KindNotSet"
  using assms access_onlyD [OF toProto_access assms(3)] toProto_OK_readable toProto_denied
  by (auto simp: access_rc_def)

theorem toProto_reports_readable_only_witness:
  "readable ex_type (VStruct [VInt 7, VVec []]) (ex_dref None) kAuthzDisabled"
proof -
  have "toProto ex_type KindNotSet (VStruct [VInt 7, VVec []]) (ex_dref None) kAuthzDisabled
        = Ret (OK, StructValue [(''level'', Int32Value 7), (''tags'', StringArray [])])" by code_simp
  from toProto_reports_readable_only [OF ex_wf this] show ?thesis by simp
qed

text \<open>
  An empty array of variants is serialised as a value that is not set, which \<^verbatim>\<open>fromProto\<close> rejects.
\<close>

lemma empty_variant_array_not_readable_back:
  "\<exists>pv. toProto (TVec (TVariant [(''x'', TInt)])) KindNotSet (VVec []) (ex_dref None) kAuthzDisabled = Ret (OK, pv)
      \<and> validFromProto (TVec (TVariant [(''x'', TInt)])) pv (ex_dref None) OK kAuthzDisabled = Ret INVALID_ARGUMENT"
  by (rule exI [of _ KindNotSet]) code_simp

end
