(* ===== verification/Param_Value.thy ===== *)
theory Param_Value
  imports Catena_Path Struct_Roundtrip
begin

text \<open>
  \<^verbatim>\<open>ParamWithValue.h\<close>. A \<^verbatim>\<open>ParamWithValue<T>\<close> is a handle: the C++ type of the value, a reference
  to the value, the descriptor and the two size trackers. The reference is a location: the
  top-level parameter or command that owns the storage and the steps to the value inside it
  (a field, an element, the alternative held by a variant). The operations that read the value
  take it as an argument; the device dereferences the location.

  A \<^verbatim>\<open>shared_ptr\<close> tracker that is null is \<^const>\<open>None\<close>. Trackers are shared only with copies
  made after they were set; no object that outlives a call ever has them set, so a tracker is
  a field of the handle.
\<close>

section \<open>Handles and locations\<close>

datatype root = RParam string | RCommand string

datatype step = SIdx nat | SAlt

record param =
  p_ctype :: ctype
  p_root :: root
  p_steps :: "step list"
  p_desc :: dref
  mSizeTracker :: "nat option"
  tSizeTracker :: "nat list option"

definition ParamWithValue :: "ctype \<Rightarrow> root \<Rightarrow> step list \<Rightarrow> dref \<Rightarrow> param" where
  "ParamWithValue t r ss d =
     \<lparr>p_ctype = t, p_root = r, p_steps = ss, p_desc = d, mSizeTracker = None, tSizeTracker = None\<rparr>"

fun get_at :: "cval \<Rightarrow> step list \<Rightarrow> cval option" where
  "get_at v [] = Some v"
| "get_at (VStruct vs) (SIdx i # ss) = (if i < length vs then get_at (vs ! i) ss else None)"
| "get_at (VVec vs) (SIdx i # ss) = (if i < length vs then get_at (vs ! i) ss else None)"
| "get_at (VVariant i v) (SAlt # ss) = get_at v ss"
| "get_at _ _ = None"

fun set_at :: "cval \<Rightarrow> step list \<Rightarrow> cval \<Rightarrow> cval" where
  "set_at v [] w = w"
| "set_at (VStruct vs) (SIdx i # ss) w = (if i < length vs then VStruct (vs[i := set_at (vs ! i) ss w]) else VStruct vs)"
| "set_at (VVec vs) (SIdx i # ss) w = (if i < length vs then VVec (vs[i := set_at (vs ! i) ss w]) else VVec vs)"
| "set_at (VVariant i v) (SAlt # ss) w = VVariant i (set_at v ss w)"
| "set_at v _ w = v"

definition param_copy :: "param \<Rightarrow> param" where
  "param_copy p = p"

definition resetValidate :: "param \<Rightarrow> param" where
  "resetValidate p = p\<lparr>mSizeTracker := None, tSizeTracker := None\<rparr>"

definition isArrayType :: "param \<Rightarrow> bool" where
  "isArrayType p \<longleftrightarrow>
     pd_type (node (p_desc p)) = STRUCT_ARRAY \<or> pd_type (node (p_desc p)) = INT32_ARRAY
     \<or> pd_type (node (p_desc p)) = FLOAT32_ARRAY \<or> pd_type (node (p_desc p)) = STRING_ARRAY
     \<or> pd_type (node (p_desc p)) = STRUCT_VARIANT_ARRAY"

text \<open>\<^verbatim>\<open>size_\<close>: the length of a string, the size of a vector, 0 otherwise.\<close>

fun size_of_value :: "cval \<Rightarrow> nat" where
  "size_of_value (VString s) = length s"
| "size_of_value (VVec vs) = length vs"
| "size_of_value _ = 0"

section \<open>Serialisation\<close>

definition param_toProto_value :: "param \<Rightarrow> cval \<Rightarrow> pvalue \<Rightarrow> authorizer \<Rightarrow> (StatusCode \<times> pvalue) res" where
  "param_toProto_value p v dst authz = toProto (p_ctype p) dst v (p_desc p) authz"

definition set_pp_value :: "pvalue \<Rightarrow> pparam \<Rightarrow> pparam" where
  "set_pp_value x q =
     PParam (pp_type q) (pp_read_only q) (pp_stateless q) (pp_widget q) (pp_minimal_set q) (pp_precision q)
       (pp_response q) (pp_oid_aliases q) (pp_name q) (pp_constraint q) (pp_params q) (pp_template_oid q) (Some x)"

definition param_toProto :: "param \<Rightarrow> cval \<Rightarrow> pparam \<Rightarrow> authorizer \<Rightarrow> (StatusCode \<times> pparam) res" where
  "param_toProto p v dst authz =
     res_bind (param_toProto_value p v (case pp_value dst of None \<Rightarrow> KindNotSet | Some x \<Rightarrow> x) authz) (\<lambda>(rc, x).
     if rc = OK then Ret (rc, pd_toProto (p_desc p) authz (set_pp_value x dst))
     else Ret (rc, set_pp_value x dst))"

definition param_toProto_info :: "param \<Rightarrow> pparaminfo \<Rightarrow> authorizer \<Rightarrow> StatusCode \<times> pparaminfo" where
  "param_toProto_info p dst authz =
     (if \<not> readAuthz authz (p_desc p) then (PERMISSION_DENIED, dst)
      else (OK, pd_toProto_info (p_desc p) dst))"

definition param_fromProto :: "param \<Rightarrow> pvalue \<Rightarrow> cval \<Rightarrow> authorizer \<Rightarrow> (StatusCode \<times> cval) res" where
  "param_fromProto p src v authz = fromProto (p_ctype p) src v (p_desc p) authz"

section \<open>Array elements\<close>

text \<open>\<^verbatim>\<open>addBack\<close>: the new value of the array, the handle of the new element and the status.\<close>

definition addBack :: "param \<Rightarrow> cval \<Rightarrow> authorizer \<Rightarrow> StatusCode \<Rightarrow> (param option \<times> StatusCode \<times> cval) res" where
  "addBack p v authz status =
     (case p_ctype p of
        TVec t \<Rightarrow>
          (case v of
             VVec vs \<Rightarrow>
               if \<not> writeAuthz authz (p_desc p) then Ret (None, PERMISSION_DENIED, v)
               else if length vs \<ge> unat (max_length (p_desc p)) then Ret (None, OUT_OF_RANGE, v)
               else Ret (Some (ParamWithValue t (p_root p) (p_steps p @ [SIdx (length vs)]) (p_desc p)), status,
                         VVec (vs @ [default_val t]))
           | _ \<Rightarrow> Undef)
      | _ \<Rightarrow> Ret (None, INVALID_ARGUMENT, v))"

definition popBack :: "param \<Rightarrow> cval \<Rightarrow> authorizer \<Rightarrow> (StatusCode \<times> cval) res" where
  "popBack p v authz =
     (case p_ctype p of
        TVec t \<Rightarrow>
          (case v of
             VVec vs \<Rightarrow>
               if \<not> writeAuthz authz (p_desc p) then Ret (PERMISSION_DENIED, v)
               else if vs = [] then Ret (OUT_OF_RANGE, v)
               else Ret (OK, VVec (butlast vs))
           | _ \<Rightarrow> Undef)
      | _ \<Rightarrow> Ret (INVALID_ARGUMENT, v))"

section \<open>Navigation\<close>

text \<open>
  \<^verbatim>\<open>getParam_\<close> either ends or continues with \<^verbatim>\<open>getParam\<close> of a sub parameter. One step is the
  specialisation of the type at hand; it consumes the front of the path.
\<close>

datatype nav = Stop "param option" StatusCode | Next param cval

definition getParam_generic :: "path \<Rightarrow> (nav \<times> path) res" where
  "getParam_generic oid = Ret (Stop None INVALID_ARGUMENT, oid)"

definition getParam_empty :: "param \<Rightarrow> cval \<Rightarrow> path \<Rightarrow> authorizer \<Rightarrow> StatusCode \<Rightarrow> (nav \<times> path) res" where
  "getParam_empty p v oid authz status =
     (if \<not> front_is_string oid \<and> \<not> front_is_index oid then Ret (Stop None INVALID_ARGUMENT, oid)
      else let oidStr = (if front_is_index oid then dec_of_nat (unat (front_as_index oid)) else front_as_string oid);
               oid' = path_pop oid in
           case map_of (subParams (hd (chain (p_desc p)))) oidStr of
             Some sub \<Rightarrow>
               let q = ParamWithValue TEmpty (p_root p) (p_steps p) (sub_ref (p_desc p) sub) in
               if \<not> path_empty oid' then Ret (Next q v, oid')
               else if \<not> readAuthz authz (p_desc q) then Ret (Stop None PERMISSION_DENIED, oid')
               else Ret (Stop (Some q) status, oid')
           | None \<Rightarrow> Ret (Stop None NOT_FOUND, oid'))"

definition is_struct_or_variant :: "ctype \<Rightarrow> bool" where
  "is_struct_or_variant t = (case t of TStruct _ \<Rightarrow> True | TVariant _ \<Rightarrow> True | _ \<Rightarrow> False)"

definition getParam_vec :: "param \<Rightarrow> ctype \<Rightarrow> cval \<Rightarrow> path \<Rightarrow> StatusCode \<Rightarrow> (nav \<times> path) res" where
  "getParam_vec p t v oid status =
     (case v of
        VVec vs \<Rightarrow>
          if \<not> front_is_index oid then Ret (Stop None INVALID_ARGUMENT, oid)
          else let i = unat (front_as_index oid);
                   oid' = path_pop oid;
                   q = ParamWithValue t (p_root p) (p_steps p @ [SIdx i]) (p_desc p) in
               if i \<ge> length vs then Ret (Stop None OUT_OF_RANGE, oid')
               else if path_empty oid' then Ret (Stop (Some q) status, oid')
               else if is_struct_or_variant t then Ret (Next q (vs ! i), oid')
               else Ret (Stop None NOT_FOUND, oid')
      | _ \<Rightarrow> Undef)"

fun field_index :: "string \<Rightarrow> (string \<times> ctype) list \<Rightarrow> nat option" where
  "field_index name [] = None"
| "field_index name ((n, t) # fs) = (if n = name then Some 0 else map_option Suc (field_index name fs))"

text \<open>\<^verbatim>\<open>findParamByName_\<close>: the constructor of the field's handle looks up its descriptor.\<close>

definition findParamByName :: "param \<Rightarrow> (string \<times> ctype) list \<Rightarrow> string \<Rightarrow> (nat \<times> param) option res" where
  "findParamByName p fs name =
     (case field_index name fs of
        None \<Rightarrow> Ret None
      | Some i \<Rightarrow> res_bind (getSubParam (p_desc p) name) (\<lambda>d.
          Ret (Some (i, ParamWithValue (snd (fs ! i)) (p_root p) (p_steps p @ [SIdx i]) d))))"

definition getParam_struct :: "param \<Rightarrow> (string \<times> ctype) list \<Rightarrow> cval \<Rightarrow> path \<Rightarrow> authorizer \<Rightarrow> StatusCode \<Rightarrow> (nav \<times> path) res" where
  "getParam_struct p fs v oid authz status =
     (case v of
        VStruct vs \<Rightarrow>
          if \<not> front_is_string oid then Ret (Stop None INVALID_ARGUMENT, oid)
          else let oidStr = front_as_string oid; oid' = path_pop oid in
               res_bind (findParamByName p fs oidStr) (\<lambda>found.
               case found of
                 None \<Rightarrow> Ret (Stop None NOT_FOUND, oid')
               | Some (i, q) \<Rightarrow>
                   if \<not> path_empty oid' then Ret (Next q (vs ! i), oid')
                   else if \<not> readAuthz authz (p_desc q) then Ret (Stop None PERMISSION_DENIED, oid')
                   else Ret (Stop (Some q) status, oid'))
      | _ \<Rightarrow> Undef)"

definition getParam_variant :: "param \<Rightarrow> (string \<times> ctype) list \<Rightarrow> cval \<Rightarrow> path \<Rightarrow> authorizer \<Rightarrow> StatusCode \<Rightarrow> (nav \<times> path) res" where
  "getParam_variant p alts v oid authz status =
     (case v of
        VVariant i x \<Rightarrow>
          if \<not> front_is_string oid then Ret (Stop None INVALID_ARGUMENT, oid)
          else let oidStr = front_as_string oid; oid' = path_pop oid in
               if fst (alts ! i) \<noteq> oidStr then Ret (Stop None NOT_FOUND, oid')
               else res_bind (getSubParam (p_desc p) oidStr) (\<lambda>d.
                    let q = ParamWithValue (snd (alts ! i)) (p_root p) (p_steps p @ [SAlt]) d in
                    if path_empty oid' then
                      (if \<not> readAuthz authz d then Ret (Stop None PERMISSION_DENIED, oid')
                       else Ret (Stop (Some q) status, oid'))
                    else Ret (Next q x, oid'))
      | _ \<Rightarrow> Undef)"

definition getParam_step :: "param \<Rightarrow> cval \<Rightarrow> path \<Rightarrow> authorizer \<Rightarrow> StatusCode \<Rightarrow> (nav \<times> path) res" where
  "getParam_step p v oid authz status =
     (case p_ctype p of
        TEmpty \<Rightarrow> getParam_empty p v oid authz status
      | TVec t \<Rightarrow> getParam_vec p t v oid status
      | TStruct fs \<Rightarrow> getParam_struct p fs v oid authz status
      | TVariant alts \<Rightarrow> getParam_variant p alts v oid authz status
      | _ \<Rightarrow> getParam_generic oid)"

lemma getParam_step_shorter:
  "getParam_step p v oid authz status = Ret (Next q w, oid') \<Longrightarrow> path_size oid' < path_size oid"
  by (auto simp: getParam_step_def getParam_empty_def getParam_vec_def getParam_struct_def
        getParam_variant_def getParam_generic_def Let_def res_simps
      intro!: path_pop_size front_not_empty
      split: ctype.splits cval.splits if_splits option.splits)

function param_getParam :: "param \<Rightarrow> cval \<Rightarrow> path \<Rightarrow> authorizer \<Rightarrow> StatusCode \<Rightarrow> (param option \<times> StatusCode \<times> path) res" where
  "param_getParam p v oid authz status =
     (if \<not> readAuthz authz (p_desc p) then Ret (None, PERMISSION_DENIED, oid)
      else res_bind (getParam_step p v oid authz status) (\<lambda>(nav, oid').
           case nav of
             Stop q rc \<Rightarrow> Ret (q, rc, oid')
           | Next q w \<Rightarrow> param_getParam q w oid' authz status))"
  by pat_completeness auto
termination
  by (relation "measure (\<lambda>(p, v, oid, authz, status). path_size oid)") (auto dest: getParam_step_shorter)

declare param_getParam.simps [simp del]

section \<open>Validation of a set\<close>

fun proto_size :: "pvalue \<Rightarrow> nat" where
  "proto_size (StringValue s) = length s"
| "proto_size (Int32Array xs) = length xs"
| "proto_size (Float32Array xs) = length xs"
| "proto_size (StringArray xs) = length xs"
| "proto_size (StructArray xs) = length xs"
| "proto_size (StructVariantArray xs) = length xs"
| "proto_size _ = 0"

text \<open>The kinds in \<^verbatim>\<open>validateSetValueMap_\<close>: those routed with a scalar and with a vector.\<close>

fun scalar_kind :: "pvalue \<Rightarrow> bool" where
  "scalar_kind (Int32Value _) = True"
| "scalar_kind (Float32Value _) = True"
| "scalar_kind (StringValue _) = True"
| "scalar_kind (StructValue _) = True"
| "scalar_kind (StructVariantValue _ _) = True"
| "scalar_kind _ = False"

fun vector_kind :: "pvalue \<Rightarrow> bool" where
  "vector_kind (Int32Array _) = True"
| "vector_kind (Float32Array _) = True"
| "vector_kind (StringArray _) = True"
| "vector_kind (StructArray _) = True"
| "vector_kind (StructVariantArray _) = True"
| "vector_kind _ = False"

definition validate_whole :: "param \<Rightarrow> pvalue \<Rightarrow> size_t \<Rightarrow> authorizer \<Rightarrow> (StatusCode \<times> param) res" where
  "validate_whole p protoVal index authz =
     (if index \<noteq> kNone then Ret (INVALID_ARGUMENT, p)
      else res_bind (validFromProto (p_ctype p) protoVal (p_desc p) OK authz) (\<lambda>ans.
           if ans \<noteq> OK then Ret (ans, p)
           else Ret (if proto_size protoVal > unat (max_length (p_desc p)) then OUT_OF_RANGE else OK,
                     p\<lparr>mSizeTracker := Some (proto_size protoVal)\<rparr>)))"

definition validate_elem :: "param \<Rightarrow> ctype \<Rightarrow> cval list \<Rightarrow> pvalue \<Rightarrow> size_t \<Rightarrow> authorizer \<Rightarrow> (StatusCode \<times> param) res" where
  "validate_elem p t arrayVal protoVal index authz =
     (let m = (case mSizeTracker p of None \<Rightarrow> length arrayVal | Some m \<Rightarrow> m);
          ts = (case tSizeTracker p of None \<Rightarrow> map size_of_value arrayVal | Some ts \<Rightarrow> ts);
          p0 = p\<lparr>mSizeTracker := Some m, tSizeTracker := Some ts\<rparr> in
      if index = kNone then Ret (INVALID_ARGUMENT, p0)
      else if index \<noteq> kEnd \<and> unat index \<ge> m then Ret (OUT_OF_RANGE, p0)
      else res_bind (validFromProto t protoVal (p_desc p) OK authz) (\<lambda>ans.
           if ans \<noteq> OK then Ret (ans, p0)
           else res_bind
                  (if index = kEnd then Ret (m + 1, ts @ [proto_size protoVal])
                   else if unat index < length ts then Ret (m, ts[unat index := proto_size protoVal])
                   else Throw StdOutOfRange)
                  (\<lambda>(m', ts').
                   let p' = p\<lparr>mSizeTracker := Some m', tSizeTracker := Some ts'\<rparr> in
                   if m' > unat (max_length (p_desc p)) then Ret (OUT_OF_RANGE, p')
                   else if sum_list ts' > unat (total_length (p_desc p)) then Ret (OUT_OF_RANGE, p')
                   else Ret (OK, p'))))"

definition validateSetValue :: "param \<Rightarrow> cval \<Rightarrow> pvalue \<Rightarrow> size_t \<Rightarrow> authorizer \<Rightarrow> (StatusCode \<times> param) res" where
  "validateSetValue p v value index authz =
     (if scalar_kind value \<or> vector_kind value then
        (case p_ctype p of
           TVec t \<Rightarrow>
             if scalar_kind value then
               (case v of VVec vs \<Rightarrow> validate_elem p t vs value index authz | _ \<Rightarrow> Undef)
             else validate_whole p value index authz
         | _ \<Rightarrow> validate_whole p value index authz)
      else Ret (INVALID_ARGUMENT, p))"

section \<open>Navigation reaches a readable, typed value\<close>

text \<open>A descriptor has a sub parameter for every field and alternative of the type it describes.\<close>

primrec describes :: "ctype \<Rightarrow> pdesc \<Rightarrow> bool" where
  "describes TEmpty = (\<lambda>p. True)"
| "describes TInt = (\<lambda>p. True)"
| "describes TFloat = (\<lambda>p. True)"
| "describes TString = (\<lambda>p. True)"
| "describes (TStruct fs) =
     (\<lambda>p. list_all (\<lambda>(n, f). case map_of (subParams p) n of None \<Rightarrow> False | Some q \<Rightarrow> f q)
                   (map (map_prod id describes) fs))"
| "describes (TVariant alts) =
     (\<lambda>p. list_all (\<lambda>(n, f). case map_of (subParams p) n of None \<Rightarrow> False | Some q \<Rightarrow> f q)
                   (map (map_prod id describes) alts))"
| "describes (TVec t) = describes t"

lemma describes_members:
  "describes (TStruct fs) p \<longleftrightarrow> (\<forall>(n, t) \<in> set fs. \<exists>q. map_of (subParams p) n = Some q \<and> describes t q)"
  "describes (TVariant alts) p \<longleftrightarrow> (\<forall>(n, t) \<in> set alts. \<exists>q. map_of (subParams p) n = Some q \<and> describes t q)"
  by (auto simp: list_all_iff split: option.splits)

declare describes.simps(5,6) [simp del]

text \<open>What a handle on the value \<open>v\<close> satisfies.\<close>

definition handle_ok :: "param \<Rightarrow> cval \<Rightarrow> bool" where
  "handle_ok p v \<longleftrightarrow>
     wf_ctype (p_ctype p) \<and> has_type (p_ctype p) v \<and> chain (p_desc p) \<noteq> []
     \<and> describes (p_ctype p) (hd (chain (p_desc p)))"

text \<open>The type of the value the steps lead to.\<close>

fun type_at :: "ctype \<Rightarrow> cval \<Rightarrow> step list \<Rightarrow> ctype option" where
  "type_at t v [] = Some t"
| "type_at (TStruct fs) (VStruct vs) (SIdx i # ss) =
     (if i < length fs \<and> i < length vs then type_at (snd (fs ! i)) (vs ! i) ss else None)"
| "type_at (TVec t) (VVec vs) (SIdx i # ss) = (if i < length vs then type_at t (vs ! i) ss else None)"
| "type_at (TVariant alts) (VVariant i x) (SAlt # ss) =
     (if i < length alts then type_at (snd (alts ! i)) x ss else None)"
| "type_at _ _ _ = None"

lemma type_at_append:
  "type_at t v ss = Some u \<Longrightarrow> get_at v ss = Some w \<Longrightarrow> type_at t v (ss @ ts) = type_at u w ts"
  by (induction t v ss rule: type_at.induct) (auto split: if_splits)

lemma type_at_get:
  "type_at t v ss = Some u \<Longrightarrow> has_type t v \<Longrightarrow> \<exists>w. get_at v ss = Some w \<and> has_type u w"
  by (induction t v ss rule: type_at.induct)
     (auto simp: has_type_struct has_type_vec has_type_variant list_all2_conv_all_nth list_all_length split_def
           split: if_splits)

lemma set_at_typed:
  "type_at t v ss = Some u \<Longrightarrow> has_type t v \<Longrightarrow> has_type u w \<Longrightarrow> has_type t (set_at v ss w)"
  by (induction t v ss rule: type_at.induct)
     (auto simp: has_type_struct has_type_vec has_type_variant list_all2_conv_all_nth list_all_length split_def
           nth_list_update split: if_splits)

lemma get_set_at: "get_at v ss = Some w \<Longrightarrow> get_at (set_at v ss x) ss = Some x"
  by (induction v ss rule: get_at.induct) (auto split: if_splits)

text \<open>\<open>q\<close> is a handle on the part of \<open>v\<close> that the further steps lead to.\<close>

definition sub_handle :: "param \<Rightarrow> cval \<Rightarrow> param \<Rightarrow> cval \<Rightarrow> bool" where
  "sub_handle p v q w \<longleftrightarrow>
     p_root q = p_root p \<and> dev (p_desc q) = dev (p_desc p)
     \<and> (\<exists>ss. p_steps q = p_steps p @ ss \<and> get_at v ss = Some w \<and> type_at (p_ctype p) v ss = Some (p_ctype q))
     \<and> (\<exists>oids. descend (p_desc p) oids = Ret (p_desc q))"

lemma get_at_append: "get_at v (ss @ ts) = (case get_at v ss of None \<Rightarrow> None | Some w \<Rightarrow> get_at w ts)"
  by (induction v ss rule: get_at.induct) auto

lemma descend_append: "descend d (xs @ ys) = res_bind (descend d xs) (\<lambda>e. descend e ys)"
  by (induction xs arbitrary: d) (auto simp: res_bind_assoc)

lemma sub_handle_refl: "sub_handle p v p v"
  unfolding sub_handle_def by (intro conjI exI [of _ "[]"]) auto

lemma sub_handle_trans:
  assumes "sub_handle p v q w" "sub_handle q w r x"
  shows "sub_handle p v r x"
proof -
  from assms obtain ss ts xs ys where
    "p_steps q = p_steps p @ ss" "get_at v ss = Some w" "p_steps r = p_steps q @ ts" "get_at w ts = Some x"
    "type_at (p_ctype p) v ss = Some (p_ctype q)" "type_at (p_ctype q) w ts = Some (p_ctype r)"
    "descend (p_desc p) xs = Ret (p_desc q)" "descend (p_desc q) ys = Ret (p_desc r)"
    by (auto simp: sub_handle_def)
  then have "p_steps r = p_steps p @ (ss @ ts)" "get_at v (ss @ ts) = Some x"
    "type_at (p_ctype p) v (ss @ ts) = Some (p_ctype r)"
    "descend (p_desc p) (xs @ ys) = Ret (p_desc r)"
    by (auto simp: get_at_append type_at_append descend_append)
  with assms show ?thesis unfolding sub_handle_def by metis
qed

lemma field_index_Some:
  "field_index n fs = Some i \<Longrightarrow> i < length fs \<and> fst (fs ! i) = n"
  by (induction fs arbitrary: i) (auto split: if_splits)

lemma getSubParam_member:
  "map_of (subParams (hd (chain d))) n = Some q \<Longrightarrow> getSubParam d n = Ret (sub_ref d q)"
  by (simp add: getSubParam_def sub_ref_def)

lemma sub_ref_simps [simp]: "chain (sub_ref d q) = q # chain d" "dev (sub_ref d q) = dev d"
  by (simp_all add: sub_ref_def)

fun nav_ok :: "param \<Rightarrow> cval \<Rightarrow> authorizer \<Rightarrow> StatusCode \<Rightarrow> nav \<Rightarrow> bool" where
  "nav_ok p v authz st (Stop None rc) \<longleftrightarrow> rc \<noteq> OK"
| "nav_ok p v authz st (Stop (Some q) rc) \<longleftrightarrow>
     rc = st \<and> readAuthz authz (p_desc q) \<and> (\<exists>w. handle_ok q w \<and> sub_handle p v q w)"
| "nav_ok p v authz st (Next q w) \<longleftrightarrow> handle_ok q w \<and> sub_handle p v q w"

definition step_ok :: "param \<Rightarrow> cval \<Rightarrow> authorizer \<Rightarrow> StatusCode \<Rightarrow> (nav \<times> path) res \<Rightarrow> bool" where
  "step_ok p v authz st r \<longleftrightarrow> (\<exists>nav oid. r = Ret (nav, oid) \<and> nav_ok p v authz st nav)"

lemma step_ok_Ret [simp]: "step_ok p v authz st (Ret (nav, oid)) \<longleftrightarrow> nav_ok p v authz st nav"
  by (auto simp: step_ok_def)

lemma ParamWithValue_simps [simp]:
  "p_ctype (ParamWithValue t r ss d) = t" "p_root (ParamWithValue t r ss d) = r"
  "p_steps (ParamWithValue t r ss d) = ss" "p_desc (ParamWithValue t r ss d) = d"
  by (simp_all add: ParamWithValue_def)

lemmas handle_simps = handle_ok_def sub_handle_def

lemma getParam_empty_ok:
  assumes "handle_ok p v" "p_ctype p = TEmpty"
  shows "step_ok p v authz st (getParam_empty p v oid authz st)"
proof -
  have "handle_ok (ParamWithValue TEmpty (p_root p) (p_steps p) (sub_ref (p_desc p) q)) v
      \<and> sub_handle p v (ParamWithValue TEmpty (p_root p) (p_steps p) (sub_ref (p_desc p) q)) v"
    if "map_of (subParams (hd (chain (p_desc p)))) n = Some q" for n q
    using assms getSubParam_member [OF that]
    by (auto simp: handle_simps intro!: exI [of _ "[]"] exI [of _ "[n]"])
  then show ?thesis
    by (auto simp: getParam_empty_def Let_def split: option.split)
qed

lemma getParam_vec_ok:
  assumes "handle_ok p v" "p_ctype p = TVec t" "readAuthz authz (p_desc p)"
  shows "step_ok p v authz st (getParam_vec p t v oid st)"
proof -
  from assms obtain vs where v: "v = VVec vs" "list_all (has_type t) vs"
    by (auto simp: handle_ok_def has_type_vec)
  have "handle_ok (ParamWithValue t (p_root p) (p_steps p @ [SIdx i]) (p_desc p)) (vs ! i)
      \<and> sub_handle p v (ParamWithValue t (p_root p) (p_steps p @ [SIdx i]) (p_desc p)) (vs ! i)"
    if "i < length vs" for i
    using assms that v
    by (auto simp: handle_simps list_all_length intro!: exI [of _ "[SIdx i]"] exI [of _ "[]"])
  then show ?thesis using v(1) assms(3)
    by (auto simp: getParam_vec_def Let_def not_le)
qed

lemma struct_field_ok:
  assumes "handle_ok p (VStruct vs)" "p_ctype p = TStruct fs" "i < length fs"
  shows "\<exists>q. getSubParam (p_desc p) (fst (fs ! i)) = Ret q
           \<and> handle_ok (ParamWithValue (snd (fs ! i)) (p_root p) (p_steps p @ [SIdx i]) q) (vs ! i)
           \<and> sub_handle p (VStruct vs) (ParamWithValue (snd (fs ! i)) (p_root p) (p_steps p @ [SIdx i]) q) (vs ! i)"
proof -
  have m: "(fst (fs ! i), snd (fs ! i)) \<in> set fs" using assms(3) by simp
  with assms obtain q where q: "map_of (subParams (hd (chain (p_desc p)))) (fst (fs ! i)) = Some q"
    "describes (snd (fs ! i)) q"
    using describes_members(1) unfolding handle_ok_def by fastforce
  have ty: "length vs = length fs" "has_type (snd (fs ! i)) (vs ! i)"
    using assms by (auto simp: handle_ok_def has_type_struct list_all2_conv_all_nth split_def)
  have wf: "wf_ctype (snd (fs ! i))" using assms m wf_ctype_members(1) unfolding handle_ok_def by fastforce
  show ?thesis
    using getSubParam_member [OF q(1)] q(2) ty wf assms(2,3)
    by (auto simp: handle_simps intro!: exI [of _ "[SIdx i]"] exI [of _ "[fst (fs ! i)]"])
qed

lemma getParam_struct_ok:
  assumes "handle_ok p v" "p_ctype p = TStruct fs"
  shows "step_ok p v authz st (getParam_struct p fs v oid authz st)"
proof -
  from assms obtain vs where v: "v = VStruct vs" by (auto simp: handle_ok_def has_type_struct)
  show ?thesis
  proof (cases "front_is_string oid \<and> field_index (front_as_string oid) fs \<noteq> None")
    case True
    then obtain i where i: "field_index (front_as_string oid) fs = Some i" by auto
    note fi = field_index_Some [OF i]
    from struct_field_ok [OF assms(1) [unfolded v] assms(2), of i] fi obtain q where
      "getSubParam (p_desc p) (front_as_string oid) = Ret q"
      "handle_ok (ParamWithValue (snd (fs ! i)) (p_root p) (p_steps p @ [SIdx i]) q) (vs ! i)"
      "sub_handle p v (ParamWithValue (snd (fs ! i)) (p_root p) (p_steps p @ [SIdx i]) q) (vs ! i)"
      by (auto simp: v)
    with True i v show ?thesis
      by (auto simp: getParam_struct_def findParamByName_def Let_def)
  next
    case False
    then show ?thesis
      by (auto simp: getParam_struct_def findParamByName_def Let_def v)
  qed
qed

lemma getParam_variant_ok:
  assumes "handle_ok p v" "p_ctype p = TVariant alts"
  shows "step_ok p v authz st (getParam_variant p alts v oid authz st)"
proof -
  from assms obtain i x where v: "v = VVariant i x" "i < length alts" "has_type (snd (alts ! i)) x"
    by (auto simp: handle_ok_def has_type_variant)
  have m: "(fst (alts ! i), snd (alts ! i)) \<in> set alts" using v(2) by simp
  with assms obtain q where q: "map_of (subParams (hd (chain (p_desc p)))) (fst (alts ! i)) = Some q"
    "describes (snd (alts ! i)) q"
    using describes_members(2) unfolding handle_ok_def by fastforce
  have wf: "wf_ctype (snd (alts ! i))" using assms m wf_ctype_members(2) unfolding handle_ok_def by fastforce
  let ?q = "ParamWithValue (snd (alts ! i)) (p_root p) (p_steps p @ [SAlt]) (sub_ref (p_desc p) q)"
  have "handle_ok ?q x \<and> sub_handle p v ?q x"
    using getSubParam_member [OF q(1)] q(2) v wf assms(2)
    by (auto simp: handle_simps intro!: exI [of _ "[SAlt]"] exI [of _ "[fst (alts ! i)]"])
  with v(1) getSubParam_member [OF q(1)] show ?thesis
    by (auto simp: getParam_variant_def Let_def)
qed

lemma getParam_step_ok:
  assumes "handle_ok p v" "readAuthz authz (p_desc p)"
  shows "step_ok p v authz st (getParam_step p v oid authz st)"
  using assms
  by (cases "p_ctype p")
     (auto simp: getParam_step_def getParam_generic_def intro: getParam_empty_ok getParam_vec_ok
        getParam_struct_ok getParam_variant_ok)

lemma param_getParam_ok:
  assumes "handle_ok p v"
  shows "\<exists>q rc oid'. param_getParam p v oid authz st = Ret (q, rc, oid')
           \<and> (case q of
                None \<Rightarrow> rc \<noteq> OK
              | Some q \<Rightarrow> rc = st \<and> readAuthz authz (p_desc q) \<and> (\<exists>w. handle_ok q w \<and> sub_handle p v q w))"
  using assms
proof (induction p v oid authz st rule: param_getParam.induct)
  case (1 p v oid authz st)
  show ?case
  proof (cases "readAuthz authz (p_desc p)")
    case False
    then show ?thesis by (subst param_getParam.simps) simp
  next
    case True
    from getParam_step_ok [OF 1(2) True, of st oid] obtain nav oid' where
      st: "getParam_step p v oid authz st = Ret (nav, oid')" "nav_ok p v authz st nav"
      by (auto simp: step_ok_def)
    show ?thesis
    proof (cases nav)
      case (Stop q rc)
      with st True show ?thesis by (subst param_getParam.simps) (cases q, auto)
    next
      case (Next q w)
      with 1(1) [of "(nav, oid')" nav oid' q w] True st show ?thesis
        by (subst param_getParam.simps) (fastforce split: option.splits dest: sub_handle_trans)
    qed
  qed
qed

section \<open>Properties\<close>

end
