(* ===== verification/Catena_Device.thy ===== *)
theory Catena_Device
  imports Param_Value
begin

text \<open>
  The state of \<^verbatim>\<open>Device\<close> and the operations of \<^verbatim>\<open>Device.cpp\<close> on parameters: lookup, get and the
  two phases of a multi-set. The parameters are owned by the generated device model; the device
  holds them by oid, so the map holds the C++ type, the value and the descriptor of each. A
  signal emission is recorded in \<open>emitted\<close>, the newest last; what the connected slots do is the
  business of the components that connect them. Logging is left out.
\<close>

section \<open>State\<close>

datatype DetailLevel = FULL | SUBSCRIPTIONS | MINIMAL | COMMANDS | NONE | UNSET

record devparam =
  dp_ctype :: ctype
  dp_value :: cval
  dp_desc :: pdesc

record lpack =
  lp_name :: string
  lp_words :: "(string \<times> string) list"

record menu =
  m_name :: polyglot
  m_hidden :: bool
  m_disabled :: bool
  m_param_oids :: "string list"
  m_command_oids :: "string list"
  m_client_hints :: "(string \<times> string) list"

record menugroup =
  mg_name :: polyglot
  mg_menus :: "(string \<times> menu) list"

datatype event =
    ValueSetByClient string param cval
  | ValueSetByServer string param cval
  | LanguageAdded lpack

record device =
  slot :: u32
  detail_level :: DetailLevel
  access_scopes :: "string list"
  cfg :: devcfg
  multi_set_enabled :: bool
  subscriptions :: bool
  params :: "(string \<times> devparam) list"
  commands :: "(string \<times> devparam) list"
  constraints :: "(string \<times> constraint) list"
  menu_groups :: "(string \<times> menugroup) list"
  language_packs :: "(string \<times> lpack) list"
  added_packs :: "string list"
  heartbeatParam :: string
  emitted :: "event list"

definition kDefaultMaxArrayLength :: u32 where
  "kDefaultMaxArrayLength = 1024"

definition Device :: "u32 \<Rightarrow> DetailLevel \<Rightarrow> string list \<Rightarrow> string \<Rightarrow> bool \<Rightarrow> bool \<Rightarrow> device" where
  "Device sl dl scopes dscope multi sbs =
     \<lparr>slot = sl, detail_level = dl, access_scopes = scopes,
      cfg = \<lparr>default_scope = dscope, default_max_length = kDefaultMaxArrayLength,
             default_total_length = kDefaultMaxArrayLength\<rparr>,
      multi_set_enabled = multi, subscriptions = sbs, params = [], commands = [], constraints = [],
      menu_groups = [], language_packs = [], added_packs = [], heartbeatParam = [], emitted = []\<rparr>"

definition set_default_max_length :: "u32 \<Rightarrow> device \<Rightarrow> device" where
  "set_default_max_length n dm =
     dm\<lparr>cfg := (cfg dm)\<lparr>default_max_length := (if n > 0 then n else kDefaultMaxArrayLength)\<rparr>\<rparr>"

definition set_default_total_length :: "u32 \<Rightarrow> device \<Rightarrow> device" where
  "set_default_total_length n dm =
     dm\<lparr>cfg := (cfg dm)\<lparr>default_total_length := (if n > 0 then n else kDefaultMaxArrayLength)\<rparr>\<rparr>"

definition addItem_param :: "string \<Rightarrow> devparam \<Rightarrow> device \<Rightarrow> device" where
  "addItem_param key item dm =
     (if pd_isCommand (dinfo_of (dp_desc item))
      then dm\<lparr>commands := AList.update key item (commands dm)\<rparr>
      else dm\<lparr>params := AList.update key item (params dm)\<rparr>)"

definition addItem_constraint :: "string \<Rightarrow> constraint \<Rightarrow> device \<Rightarrow> device" where
  "addItem_constraint key item dm = dm\<lparr>constraints := AList.update key item (constraints dm)\<rparr>"

definition addItem_menugroup :: "string \<Rightarrow> menugroup \<Rightarrow> device \<Rightarrow> device" where
  "addItem_menugroup key item dm = dm\<lparr>menu_groups := AList.update key item (menu_groups dm)\<rparr>"

definition addItem_lpack :: "string \<Rightarrow> lpack \<Rightarrow> device \<Rightarrow> device" where
  "addItem_lpack key item dm = dm\<lparr>language_packs := AList.update key item (language_packs dm)\<rparr>"

text \<open>\<^verbatim>\<open>getItem\<close>: \<^const>\<open>None\<close> is the null pointer.\<close>

definition getItem :: "string \<Rightarrow> (string \<times> 'a) list \<Rightarrow> 'a option" where
  "getItem key m = map_of m key"

section \<open>Storage\<close>

definition root_item :: "device \<Rightarrow> root \<Rightarrow> devparam option" where
  "root_item dm r = (case r of RParam k \<Rightarrow> map_of (params dm) k | RCommand k \<Rightarrow> map_of (commands dm) k)"

text \<open>Reading and writing through the reference a handle holds; a dangling one is undefined.\<close>

definition deref :: "device \<Rightarrow> param \<Rightarrow> cval res" where
  "deref dm p =
     (case root_item dm (p_root p) of
        None \<Rightarrow> Undef
      | Some item \<Rightarrow> (case get_at (dp_value item) (p_steps p) of None \<Rightarrow> Undef | Some v \<Rightarrow> Ret v))"

definition assign :: "device \<Rightarrow> param \<Rightarrow> cval \<Rightarrow> device" where
  "assign dm p v =
     (case p_root p of
        RParam k \<Rightarrow>
          (case map_of (params dm) k of
             None \<Rightarrow> dm
           | Some item \<Rightarrow>
               dm\<lparr>params := AList.update k (item\<lparr>dp_value := set_at (dp_value item) (p_steps p) v\<rparr>) (params dm)\<rparr>)
      | RCommand k \<Rightarrow>
          (case map_of (commands dm) k of
             None \<Rightarrow> dm
           | Some item \<Rightarrow>
               dm\<lparr>commands := AList.update k (item\<lparr>dp_value := set_at (dp_value item) (p_steps p) v\<rparr>) (commands dm)\<rparr>))"

definition top_dref :: "device \<Rightarrow> devparam \<Rightarrow> dref" where
  "top_dref dm item = \<lparr>chain = [dp_desc item], dev = cfg dm\<rparr>"

definition top_param :: "device \<Rightarrow> root \<Rightarrow> devparam \<Rightarrow> param" where
  "top_param dm r item = ParamWithValue (dp_ctype item) r [] (top_dref dm item)"

section \<open>Lookup\<close>

definition getParam :: "device \<Rightarrow> path \<Rightarrow> StatusCode \<Rightarrow> authorizer \<Rightarrow> (param option \<times> StatusCode \<times> path) res" where
  "getParam dm path status authz =
     (if path_empty path then Ret (None, INVALID_ARGUMENT, path)
      else if front_is_string path then
        (case getItem (front_as_string path) (params dm) of
           None \<Rightarrow> Ret (None, NOT_FOUND, path)
         | Some item \<Rightarrow>
             let p = top_param dm (RParam (front_as_string path)) item in
             if \<not> readAuthz authz (p_desc p) then Ret (None, PERMISSION_DENIED, path)
             else let path' = path_pop path in
                  if path_empty path' then Ret (Some (param_copy p), status, path')
                  else param_getParam p (dp_value item) path' authz status)
      else Ret (None, INVALID_ARGUMENT, path))"

text \<open>The status a caught exception is turned into.\<close>

fun exn_status :: "exn \<Rightarrow> StatusCode" where
  "exn_status (ExceptionWithStatus st) = st"
| "exn_status _ = INTERNAL"

definition getParam_fqoid :: "device \<Rightarrow> string \<Rightarrow> StatusCode \<Rightarrow> authorizer \<Rightarrow> (param option \<times> StatusCode) res" where
  "getParam_fqoid dm jptr status authz =
     (case res_bind (Path jptr) (\<lambda>path. getParam dm path status authz) of
        Ret (p, st, _) \<Rightarrow> Ret (p, st)
      | Throw e \<Rightarrow> Ret (None, exn_status e)
      | Undef \<Rightarrow> Undef)"

text \<open>The loop of \<^verbatim>\<open>getTopLevelParams\<close>; an exception ends it with what was collected so far.\<close>

fun topLevel_loop :: "device \<Rightarrow> (string \<times> devparam) list \<Rightarrow> authorizer \<Rightarrow> param list \<Rightarrow> StatusCode \<Rightarrow> (param list \<times> StatusCode) res" where
  "topLevel_loop dm [] authz result status = Ret (result, status)"
| "topLevel_loop dm ((name, item) # items) authz result status =
     (if readAuthz authz (top_dref dm item) then
        (case res_bind (Path (CHR ''/'' # name)) (\<lambda>path. getParam dm path status authz) of
           Ret (None, st, _) \<Rightarrow> topLevel_loop dm items authz result st
         | Ret (Some p, st, _) \<Rightarrow> topLevel_loop dm items authz (result @ [p]) st
         | Throw (ExceptionWithStatus st) \<Rightarrow> Ret (result, st)
         | Throw e \<Rightarrow> Throw e
         | Undef \<Rightarrow> Undef)
      else topLevel_loop dm items authz result status)"

definition getTopLevelParams :: "device \<Rightarrow> StatusCode \<Rightarrow> authorizer \<Rightarrow> (param list \<times> StatusCode) res" where
  "getTopLevelParams dm status authz = topLevel_loop dm (params dm) authz [] status"

definition getCommand :: "device \<Rightarrow> string \<Rightarrow> StatusCode \<Rightarrow> authorizer \<Rightarrow> (param option \<times> StatusCode) res" where
  "getCommand dm jptr status authz =
     (case Path jptr of
        Ret path \<Rightarrow>
          if path_empty path \<or> \<not> front_is_string path then Ret (None, INVALID_ARGUMENT)
          else (case getItem (front_as_string path) (commands dm) of
                  None \<Rightarrow> Ret (None, NOT_FOUND)
                | Some item \<Rightarrow>
                    let p = top_param dm (RCommand (front_as_string path)) item in
                    if \<not> readAuthz authz (p_desc p) then Ret (None, PERMISSION_DENIED)
                    else if path_empty (path_pop path) then Ret (Some (param_copy p), status)
                    else Ret (None, UNIMPLEMENTED))
      | Throw (ExceptionWithStatus st) \<Rightarrow> Ret (None, st)
      | Throw e \<Rightarrow> Throw e
      | Undef \<Rightarrow> Undef)"

section \<open>Setting values\<close>

type_synonym payload = "string \<times> pvalue"

definition overlaps :: "string \<Rightarrow> string \<Rightarrow> bool" where
  "overlaps oid new \<longleftrightarrow>
     \<not> (ends_with oid ''/-'' \<and> ends_with new ''/-'') \<and> (starts_with oid new \<or> starts_with new oid)"

text \<open>The body of the validation loop: whether the loop goes on, and the status.\<close>

definition try_one :: "device \<Rightarrow> payload \<Rightarrow> authorizer \<Rightarrow> (bool \<times> StatusCode) res" where
  "try_one dm pl authz =
     res_bind (Path (fst pl)) (\<lambda>path.
     let index = (if back_is_index path then back_as_index path else kNone);
         path1 = (if back_is_index path then path_popBack path else path) in
     res_bind (getParam dm path1 OK authz) (\<lambda>(param, ans, _).
     case param of
       None \<Rightarrow> Ret (False, ans)
     | Some p \<Rightarrow>
         res_bind (deref dm p) (\<lambda>v.
         res_bind (validateSetValue p v (snd pl) index authz) (\<lambda>(ans', _).
         Ret (ans' = OK, ans')))))"

fun try_loop :: "device \<Rightarrow> payload list \<Rightarrow> string list \<Rightarrow> StatusCode \<Rightarrow> authorizer \<Rightarrow> (string list \<times> StatusCode) res" where
  "try_loop dm [] affectedOids ans authz = Ret (affectedOids, ans)"
| "try_loop dm (pl # pls) affectedOids ans authz =
     (let ans1 = (if list_ex (\<lambda>oid. overlaps oid (fst pl)) affectedOids then INVALID_ARGUMENT else ans) in
      if ans1 \<noteq> OK then try_loop dm pls affectedOids ans1 authz
      else (case try_one dm pl authz of
              Ret (go, ans2) \<Rightarrow>
                if go then try_loop dm pls (affectedOids @ [fst pl]) ans2 authz
                else Ret (affectedOids @ [fst pl], ans2)
            | Throw (ExceptionWithStatus st) \<Rightarrow> Ret (affectedOids @ [fst pl], st)
            | Throw e \<Rightarrow> Throw e
            | Undef \<Rightarrow> Undef))"

text \<open>
  The trackers are reset on fresh handles, which drops with them; what remains of the pass is
  that it parses every affected oid again, outside of the \<^verbatim>\<open>try\<close> block.
\<close>

fun reset_loop :: "device \<Rightarrow> string list \<Rightarrow> authorizer \<Rightarrow> unit res" where
  "reset_loop dm [] authz = Ret ()"
| "reset_loop dm (oid # oids) authz =
     res_bind (Path oid) (\<lambda>path.
     res_bind (getParam dm (if back_is_index path then path_popBack path else path) OK authz) (\<lambda>_.
     reset_loop dm oids authz))"

definition tryMultiSetValue :: "device \<Rightarrow> payload list \<Rightarrow> StatusCode \<Rightarrow> authorizer \<Rightarrow> (bool \<times> StatusCode) res" where
  "tryMultiSetValue dm src ans authz =
     (if length src > 1 \<and> \<not> multi_set_enabled dm then Ret (False, PERMISSION_DENIED)
      else res_bind (try_loop dm src [] ans authz) (\<lambda>(affectedOids, ans').
           res_bind (reset_loop dm affectedOids authz) (\<lambda>_.
           Ret (ans' = OK, ans'))))"

text \<open>
  The parameter a payload is committed to. Appending grows the parent first. A null parent or
  parameter is dereferenced by the caller.
\<close>

definition commit_target :: "device \<Rightarrow> path \<Rightarrow> StatusCode \<Rightarrow> authorizer \<Rightarrow> (param \<times> device) res" where
  "commit_target dm path ans authz =
     (if back_is_index path then
        res_bind (getParam dm (path_popBack path) ans authz) (\<lambda>(parent, ans1, path1).
        case parent of
          None \<Rightarrow> Undef
        | Some pp \<Rightarrow>
            res_bind (deref dm pp) (\<lambda>v.
            if back_as_index path = kEnd then
              res_bind (addBack pp v authz ans1) (\<lambda>(param, _, v').
              case param of None \<Rightarrow> Undef | Some p \<Rightarrow> Ret (p, assign dm pp v'))
            else
              res_bind (param_getParam pp v (push_back_index (back_as_index path) path1) authz ans1) (\<lambda>(param, _, _).
              case param of None \<Rightarrow> Undef | Some p \<Rightarrow> Ret (p, dm))))
      else
        res_bind (getParam dm path ans authz) (\<lambda>(param, _, _).
        case param of None \<Rightarrow> Undef | Some p \<Rightarrow> Ret (p, dm)))"

definition emit :: "event \<Rightarrow> device \<Rightarrow> device" where
  "emit e dm = dm\<lparr>emitted := emitted dm @ [e]\<rparr>"

definition commit_one :: "device \<Rightarrow> payload \<Rightarrow> StatusCode \<Rightarrow> authorizer \<Rightarrow> (device \<times> StatusCode) res" where
  "commit_one dm pl ans authz =
     res_bind (Path (fst pl)) (\<lambda>path.
     res_bind (commit_target dm path ans authz) (\<lambda>(p, dm1).
     res_bind (deref dm1 p) (\<lambda>old.
     res_bind (param_fromProto p (snd pl) old authz) (\<lambda>(rc, new).
     Ret (emit (ValueSetByClient (fst pl) p new) (assign dm1 p new), rc)))))"

text \<open>
  Only the constructor of \<^verbatim>\<open>Path\<close> throws an \<^verbatim>\<open>exception_with_status\<close> here, before the device
  changes; any other exception leaves the call.
\<close>

fun commit_loop :: "device \<Rightarrow> payload list \<Rightarrow> StatusCode \<Rightarrow> authorizer \<Rightarrow> (device \<times> StatusCode) res" where
  "commit_loop dm [] ans authz = Ret (dm, ans)"
| "commit_loop dm (pl # pls) ans authz =
     (case commit_one dm pl ans authz of
        Ret (dm', ans') \<Rightarrow> commit_loop dm' pls ans' authz
      | Throw (ExceptionWithStatus st) \<Rightarrow> Ret (dm, st)
      | Throw e \<Rightarrow> Throw e
      | Undef \<Rightarrow> Undef)"

definition commitMultiSetValue :: "device \<Rightarrow> payload list \<Rightarrow> authorizer \<Rightarrow> (device \<times> StatusCode) res" where
  "commitMultiSetValue dm src authz = commit_loop dm src OK authz"

definition setValue :: "device \<Rightarrow> string \<Rightarrow> pvalue \<Rightarrow> authorizer \<Rightarrow> (device \<times> StatusCode) res" where
  "setValue dm jptr src authz =
     res_bind (tryMultiSetValue dm [(jptr, src)] OK authz) (\<lambda>(ok, ans).
     if ok then commitMultiSetValue dm [(jptr, src)] authz else Ret (dm, ans))"

section \<open>Reading values\<close>

text \<open>
  The status and the message; the message is \<^const>\<open>None\<close> where an exception may have left it half
  written.
\<close>

definition getValue :: "device \<Rightarrow> string \<Rightarrow> pvalue \<Rightarrow> authorizer \<Rightarrow> (StatusCode \<times> pvalue option) res" where
  "getValue dm jptr dst authz =
     (case res_bind (Path jptr) (\<lambda>path.
           if back_is_index path \<and> back_as_index path = kEnd then Ret (OUT_OF_RANGE, dst)
           else res_bind (getParam dm path OK authz) (\<lambda>(param, ans, _).
                case param of
                  None \<Rightarrow> Ret (ans, dst)
                | Some p \<Rightarrow> res_bind (deref dm p) (\<lambda>v. param_toProto_value p v dst authz))) of
        Ret (ans, dst') \<Rightarrow> Ret (ans, Some dst')
      | Throw e \<Rightarrow> Ret (exn_status e, None)
      | Undef \<Rightarrow> Undef)"

end
