(* ===== verification/Device_Set.thy ===== *)
theory Device_Set
  imports Catena_Device
begin

text \<open>
  What the lookup, the two phases of a multi-set and \<^verbatim>\<open>getValue\<close> of \<^verbatim>\<open>Device.cpp\<close> guarantee: the
  parameters stay well typed, a single set is safe and atomic, and what was read can be written
  back.
\<close>

section \<open>Well-formed devices\<close>

text \<open>What the generated device model provides: typed values and descriptors that match the types.\<close>

definition item_ok :: "devparam \<Rightarrow> bool" where
  "item_ok item \<longleftrightarrow>
     wf_ctype (dp_ctype item) \<and> has_type (dp_ctype item) (dp_value item)
     \<and> describes (dp_ctype item) (dp_desc item) \<and> desc_ok (dp_desc item)"

definition device_ok :: "device \<Rightarrow> bool" where
  "device_ok dm \<longleftrightarrow> list_all (\<lambda>(k, item). item_ok item) (params dm)"

lemma device_ok_item: "device_ok dm \<Longrightarrow> map_of (params dm) k = Some item \<Longrightarrow> item_ok item"
  by (auto simp: device_ok_def list_all_iff dest!: map_of_SomeD)

text \<open>A handle that refers to a stored parameter value \<open>v\<close> of its type.\<close>

definition live :: "device \<Rightarrow> param \<Rightarrow> cval \<Rightarrow> bool" where
  "live dm p v \<longleftrightarrow>
     (\<exists>k item. p_root p = RParam k \<and> map_of (params dm) k = Some item
        \<and> get_at (dp_value item) (p_steps p) = Some v
        \<and> type_at (dp_ctype item) (dp_value item) (p_steps p) = Some (p_ctype p))
     \<and> handle_ok p v \<and> dref_ok (p_desc p)"

definition fresh :: "param \<Rightarrow> bool" where
  "fresh p \<longleftrightarrow> mSizeTracker p = None \<and> tSizeTracker p = None"

lemma fresh_ParamWithValue [simp]: "fresh (ParamWithValue t r ss d)"
  by (simp add: fresh_def ParamWithValue_def)

lemma live_deref: "live dm p v \<Longrightarrow> deref dm p = Ret v"
  by (auto simp: live_def deref_def root_item_def)

lemma dref_ok_descend: "descend d oids = Ret e \<Longrightarrow> dref_ok d \<Longrightarrow> dref_ok e"
  by (induction oids arbitrary: d) (auto simp: res_simps dest: dref_ok_sub)

lemma live_sub:
  assumes "live dm p v" "handle_ok q w" "sub_handle p v q w"
  shows "live dm q w"
  using assms
  by (auto simp: live_def sub_handle_def get_at_append type_at_append intro: dref_ok_descend)

lemma top_param_live:
  assumes "device_ok dm" "map_of (params dm) k = Some item"
  shows "live dm (top_param dm (RParam k) item) (dp_value item)"
  using assms device_ok_item [OF assms]
  by (auto simp: live_def top_param_def top_dref_def handle_ok_def item_ok_def dref_ok_def)

lemma map_of_update_same: "map_of (AList.update k x m) k = Some x"
  by (simp add: update_conv)

lemma list_all_update:
  "list_all P m \<Longrightarrow> P (k, x) \<Longrightarrow> list_all P (AList.update k x m)"
  by (induction m) auto

lemma assign_ok:
  assumes "device_ok dm" "live dm p v" "has_type (p_ctype p) w"
  shows "device_ok (assign dm p w)"
proof -
  from assms(2) obtain k item where i: "p_root p = RParam k" "map_of (params dm) k = Some item"
    "type_at (dp_ctype item) (dp_value item) (p_steps p) = Some (p_ctype p)"
    by (auto simp: live_def)
  with device_ok_item [OF assms(1) i(2)] assms(3)
  have "item_ok (item\<lparr>dp_value := set_at (dp_value item) (p_steps p) w\<rparr>)"
    by (auto simp: item_ok_def intro: set_at_typed)
  with i assms(1) show ?thesis by (auto simp: device_ok_def assign_def intro: list_all_update)
qed

lemma type_at_set:
  "type_at t v ss = Some u \<Longrightarrow> type_at t (set_at v ss w) ss = Some u"
  by (induction t v ss rule: type_at.induct) (auto split: if_splits)

lemma assign_live:
  assumes "live dm p v" "has_type (p_ctype p) w"
  shows "live (assign dm p w) p w"
proof -
  from assms(1) obtain k item where i: "p_root p = RParam k" "map_of (params dm) k = Some item"
    "get_at (dp_value item) (p_steps p) = Some v"
    "type_at (dp_ctype item) (dp_value item) (p_steps p) = Some (p_ctype p)"
    by (auto simp: live_def)
  with assms show ?thesis
    by (auto simp: live_def assign_def map_of_update_same handle_ok_def get_set_at type_at_set)
qed

section \<open>Lookup\<close>

fun cursor_ok :: "path \<Rightarrow> (nav \<times> path) res \<Rightarrow> bool" where
  "cursor_ok oid (Ret (nav, oid')) \<longleftrightarrow>
     segments oid' = segments oid \<and> frontIdx oid' \<le> length (segments oid)
     \<and> (case nav of Stop (Some q) rc \<Rightarrow> frontIdx oid' = length (segments oid) \<and> fresh q | _ \<Rightarrow> True)"
| "cursor_ok oid _ \<longleftrightarrow> True"

lemmas cursor_simps = Let_def path_pop_def path_empty_def

lemma getParam_struct_cursor:
  "frontIdx oid \<le> length (segments oid) \<Longrightarrow> cursor_ok oid (getParam_struct p fs v oid authz st)"
  by (cases v; cases "field_index (front_as_string oid) fs"; cases "getSubParam (p_desc p) (front_as_string oid)")
     (auto simp: getParam_struct_def findParamByName_def cursor_simps)

lemma getParam_variant_cursor:
  "frontIdx oid \<le> length (segments oid) \<Longrightarrow> cursor_ok oid (getParam_variant p fs v oid authz st)"
  by (cases v; cases "getSubParam (p_desc p) (front_as_string oid)")
     (auto simp: getParam_variant_def cursor_simps)

lemma getParam_step_cursor:
  "frontIdx oid \<le> length (segments oid) \<Longrightarrow> cursor_ok oid (getParam_step p v oid authz st)"
  by (auto simp: getParam_step_def getParam_empty_def getParam_vec_def getParam_generic_def cursor_simps
      getParam_struct_cursor getParam_variant_cursor split: ctype.split cval.split option.split)

lemma param_getParam_cursor:
  assumes "param_getParam p v oid authz st = Ret (Some q, rc, oid')" "frontIdx oid \<le> length (segments oid)"
  shows "segments oid' = segments oid \<and> frontIdx oid' = length (segments oid) \<and> fresh q"
  using assms
proof (induction p v oid authz st rule: param_getParam.induct)
  case (1 p v oid authz st)
  from 1(2) have ra: "readAuthz authz (p_desc p)"
    by (subst (asm) param_getParam.simps) (auto split: if_splits)
  with 1(2) obtain nav oid1 where s: "getParam_step p v oid authz st = Ret (nav, oid1)"
    by (subst (asm) param_getParam.simps) (auto simp: res_simps)
  note cur = getParam_step_cursor [OF 1(3), of p v authz st, unfolded s]
  show ?case
  proof (cases nav)
    case (Stop q' rc')
    with 1(2) s ra cur show ?thesis by (subst (asm) param_getParam.simps) auto
  next
    case (Next q' w)
    with 1(2) s ra have "param_getParam q' w oid1 authz st = Ret (Some q, rc, oid')"
      by (subst (asm) param_getParam.simps) auto
    with 1(1) [of "(nav, oid1)" nav oid1 q' w] ra s Next cur show ?thesis by auto
  qed
qed

lemma getParam_live:
  assumes "device_ok dm"
  shows "\<exists>q rc path'. getParam dm path st authz = Ret (q, rc, path')
       \<and> (case q of
            None \<Rightarrow> rc \<noteq> OK
          | Some p \<Rightarrow> rc = st \<and> readAuthz authz (p_desc p) \<and> (\<exists>v. live dm p v))"
proof (cases "\<not> path_empty path \<and> front_is_string path \<and> map_of (params dm) (front_as_string path) \<noteq> None")
  case True
  then obtain item where item: "map_of (params dm) (front_as_string path) = Some item" by auto
  let ?p = "top_param dm (RParam (front_as_string path)) item"
  note lv = top_param_live [OF assms item]
  then have hd: "handle_ok ?p (dp_value item)" by (simp add: live_def)
  show ?thesis
  proof (cases "readAuthz authz (p_desc ?p) \<and> \<not> path_empty (path_pop path)")
    case True': True
    from param_getParam_ok [OF hd, of "path_pop path" authz st] obtain q rc oid' where
      r: "param_getParam ?p (dp_value item) (path_pop path) authz st = Ret (q, rc, oid')"
      "case q of None \<Rightarrow> rc \<noteq> OK
       | Some q \<Rightarrow> rc = st \<and> readAuthz authz (p_desc q) \<and> (\<exists>w. handle_ok q w \<and> sub_handle ?p (dp_value item) q w)"
      by blast
    from True True' item r(1) have "getParam dm path st authz = Ret (q, rc, oid')"
      by (simp add: getParam_def getItem_def Let_def)
    with r(2) show ?thesis by (auto split: option.splits intro: live_sub [OF lv])
  next
    case False
    with True item lv show ?thesis
      by (auto simp: getParam_def getItem_def Let_def param_copy_def)
  qed
qed (auto simp: getParam_def getItem_def)

lemma getParam_cursor:
  assumes "getParam dm path st authz = Ret (Some q, rc, path')" "frontIdx path \<le> length (segments path)"
  shows "segments path' = segments path \<and> frontIdx path' = length (segments path) \<and> fresh q"
proof -
  have pop: "frontIdx (path_pop path) \<le> length (segments path)" using assms(2) by (simp add: path_pop_def)
  show ?thesis
  proof (cases "path_empty (path_pop path)")
    case True
    with assms(1) pop show ?thesis
      by (auto simp: getParam_def Let_def param_copy_def top_param_def path_empty_def split: if_splits option.splits)
  next
    case False
    with assms(1) pop show ?thesis
      by (auto simp: getParam_def Let_def split: if_splits option.splits dest!: param_getParam_cursor)
  qed
qed

section \<open>Validation always returns\<close>

lemma satisfied_total: "\<not> isRange c \<Longrightarrow> \<exists>b. satisfied c v = Ret b"
  by (cases c) auto

lemma satisfied_string_total: "\<exists>b. satisfied c (StringValue s) = Ret b"
  by (cases c) (auto simp: int_range_satisfied_def)

lemma check_choice_total: "\<exists>rc'. check_choice d v rc = Ret rc'"
proof (cases "pd_constraint (node d)")
  case (Some c)
  then show ?thesis using satisfied_total [of c v] by (cases "isRange c") (auto simp: check_choice_def)
qed (simp add: check_choice_def)

lemma valid_loop_total: "(\<And>x rc. x \<in> set xs \<Longrightarrow> \<exists>rc'. f x rc = Ret rc') \<Longrightarrow> \<exists>rc'. valid_loop f xs rc = Ret rc'"
proof (induction xs arbitrary: rc)
  case (Cons x xs)
  from Cons.prems [of x rc] obtain rc' where "f x rc = Ret rc'" by auto
  moreover from Cons have "\<exists>rc''. valid_loop f xs rc' = Ret rc''" by auto
  ultimately show ?case by auto
qed simp

lemma valid_strings_total: "\<exists>tot' rc'. valid_strings d ss tot rc = Ret (tot', rc')"
proof (induction ss arbitrary: tot)
  case (Cons s ss)
  show ?case
  proof (cases "pd_constraint (node d)")
    case (Some c)
    with Cons satisfied_string_total [of c s] show ?thesis by auto
  qed (use Cons in simp)
qed simp

lemma valid_string_total: "\<exists>rc'. valid_string src d rc a = Ret rc'"
proof (cases "has_string_value src")
  case True
  then obtain s where "src = StringValue s" by (cases src) auto
  then show ?thesis
    using satisfied_string_total [of "the (pd_constraint (node d))" s]
    by (auto simp: valid_string_def split: option.split)
qed (simp add: valid_string_def)

lemma valid_string_array_total: "\<exists>rc'. valid_string_array src d rc a = Ret rc'"
proof -
  obtain tot' rc' where "valid_strings d (string_array_values src) 0 rc = Ret (tot', rc')"
    using valid_strings_total by blast
  then show ?thesis by (auto simp: valid_string_array_def)
qed

lemma valid_fields_total:
  assumes "\<And>n vf. (n, vf) \<in> set fs \<Longrightarrow>
             \<exists>sub. getSubParam d n = Ret sub \<and> (\<forall>v rc. \<exists>rc'. vf v sub rc a = Ret rc')"
  shows "\<exists>rc'. valid_fields fs src d rc a = Ret rc'"
  using assms
proof (induction fs arbitrary: rc)
  case (Cons f fs)
  obtain n vf where f: "f = (n, vf)" by (cases f)
  with Cons.prems [of n vf] obtain sub where sub: "getSubParam d n = Ret sub" "\<And>v rc. \<exists>rc'. vf v sub rc a = Ret rc'"
    by auto
  have "\<exists>rc'. (if rc = OK then (case map_of src n of None \<Rightarrow> Ret INVALID_ARGUMENT | Some v \<Rightarrow> vf v sub rc a) else Ret rc) = Ret rc'"
    using sub(2) by (auto split: option.split)
  then obtain rc1 where "(if rc = OK then (case map_of src n of None \<Rightarrow> Ret INVALID_ARGUMENT | Some v \<Rightarrow> vf v sub rc a) else Ret rc) = Ret rc1" ..
  moreover from Cons have "\<exists>rc'. valid_fields fs src d rc1 a = Ret rc'" by auto
  ultimately show ?case using f sub(1) by auto
qed simp

lemma describes_struct_sub:
  "describes (TStruct fs) (hd (chain d)) \<Longrightarrow> (n, t) \<in> set fs \<Longrightarrow>
     \<exists>sub. getSubParam d n = Ret sub \<and> describes t (hd (chain sub))"
  by (fastforce simp: describes_members getSubParam_def)

lemma describes_variant_sub:
  "describes (TVariant fs) (hd (chain d)) \<Longrightarrow> (n, t) \<in> set fs \<Longrightarrow>
     \<exists>sub. getSubParam d n = Ret sub \<and> describes t (hd (chain sub))"
  by (fastforce simp: describes_members getSubParam_def)

lemma valid_vec_total:
  assumes "\<And>src rc. \<exists>rc'. validFromProto t src d rc a = Ret rc'" "wf_ctype (TVec t)"
  shows "\<exists>rc'. valid_vec t (validFromProto t) src d rc a = Ret rc'"
proof (cases t)
  case TInt
  then show ?thesis by (auto simp: valid_vec_def valid_int32_array_def intro!: valid_loop_total check_choice_total)
next
  case TFloat
  then show ?thesis by (auto simp: valid_vec_def valid_float32_array_def intro!: valid_loop_total check_choice_total)
next
  case TString
  then show ?thesis by (auto simp: valid_vec_def valid_string_array_total)
next
  case (TStruct fs)
  with assms(1) show ?thesis
    by (auto simp only: valid_vec_def valid_struct_array_def ctype.case intro!: valid_loop_total split: if_split)
next
  case (TVariant fs)
  with assms(1) show ?thesis
    by (auto simp only: valid_vec_def valid_variant_array_def ctype.case intro!: valid_loop_total split: if_split prod.split)
qed (use assms in auto)

lemma valid_total:
  "wf_ctype t \<Longrightarrow> describes t (hd (chain d)) \<Longrightarrow> \<exists>rc'. validFromProto t src d rc a = Ret rc'"
proof (induction t arbitrary: src d rc rule: ctype_induct)
  case (TStruct fs)
  have "\<exists>sub. getSubParam d n = Ret sub \<and> (\<forall>v rc. \<exists>rc'. vf v sub rc a = Ret rc')"
    if "(n, vf) \<in> set (members validFromProto fs)" for n vf
  proof -
    from that obtain t where t: "(n, t) \<in> set fs" "vf = validFromProto t" by (auto simp: members_def)
    from describes_struct_sub [OF TStruct.prems(2) t(1)] obtain sub where
      "getSubParam d n = Ret sub" "describes t (hd (chain sub))" by blast
    moreover have "wf_ctype t" using TStruct.prems(1) t(1) wf_ctype_members(1) by fastforce
    ultimately show ?thesis using TStruct.IH t by blast
  qed
  then show ?case by (auto simp: valid_struct_def intro: valid_fields_total)
next
  case (TVariant alts)
  show ?case
  proof (cases "has_struct_variant_value src")
    case False
    then show ?thesis by (simp add: valid_variant_def)
  next
    case True
    then obtain n v where src: "src = StructVariantValue n v" by (cases src) auto
    let ?i = "findTypeIndex n alts"
    show ?thesis
    proof (cases "?i < length alts")
      case False
      then show ?thesis by (simp add: valid_variant_def src findTypeIndex_map)
    next
      case lt: True
      have m: "(n, snd (alts ! ?i)) \<in> set alts" using alt_member [OF lt] findTypeIndex_nth [OF lt] by simp
      from describes_variant_sub [OF TVariant.prems(2) m] obtain sub where
        sub: "getSubParam d n = Ret sub" "describes (snd (alts ! ?i)) (hd (chain sub))" by blast
      have "wf_ctype (snd (alts ! ?i))" using TVariant.prems(1) m wf_ctype_members(2) by fastforce
      with TVariant.IH [OF m _ sub(2)] obtain rc' where
        "validFromProto (snd (alts ! ?i)) v sub OK a = Ret rc'" by blast
      with sub lt show ?thesis by (auto simp: valid_variant_def src findTypeIndex_map)
    qed
  qed
next
  case (TVec t)
  then show ?case by (auto intro!: valid_vec_total simp del: wf_ctype.simps) (auto simp: wf_ctype.simps)
qed (auto simp: valid_int32_def valid_float32_def check_choice_total valid_string_total)

lemma valid_writeAuthz:
  "validFromProto t src d OK a = Ret OK \<Longrightarrow> t \<noteq> TEmpty \<Longrightarrow> writeAuthz a d"
  by (cases t)
     (auto simp: valid_int32_def valid_float32_def valid_string_def valid_struct_def valid_variant_def
        valid_vec_def valid_int32_array_def valid_float32_array_def valid_string_array_def
        valid_struct_array_def valid_variant_array_def split: if_splits ctype.splits)

section \<open>One set request\<close>

definition set_index :: "path \<Rightarrow> size_t" where
  "set_index path = (if back_is_index path then back_as_index path else kNone)"

definition set_path :: "path \<Rightarrow> path" where
  "set_path path = (if back_is_index path then path_popBack path else path)"

lemma validate_whole_cases:
  assumes "handle_ok p v"
  shows "\<exists>ans p'. validate_whole p pv index a = Ret (ans, p')
       \<and> (ans = OK \<longrightarrow> index = kNone \<and> validFromProto (p_ctype p) pv (p_desc p) OK a = Ret OK)"
proof -
  from assms valid_total [of "p_ctype p" "p_desc p" pv OK a] obtain rc where
    "validFromProto (p_ctype p) pv (p_desc p) OK a = Ret rc" by (auto simp: handle_ok_def)
  then show ?thesis by (auto simp: validate_whole_def)
qed

lemma validate_elem_cases:
  assumes "handle_ok p (VVec vs)" "p_ctype p = TVec t" "fresh p"
  shows "\<exists>ans p'. validate_elem p t vs pv index a = Ret (ans, p')
       \<and> (ans = OK \<longrightarrow> validFromProto t pv (p_desc p) OK a = Ret OK
             \<and> (if index = kEnd then length vs + 1 \<le> unat (max_length (p_desc p)) else unat index < length vs)
             \<and> index \<noteq> kNone)"
proof -
  from assms valid_total [of t "p_desc p" pv OK a] obtain rc where
    "validFromProto t pv (p_desc p) OK a = Ret rc" by (auto simp: handle_ok_def)
  with assms(3) show ?thesis by (auto simp: validate_elem_def fresh_def Let_def)
qed

text \<open>What a successful validation says about the parameter and the index.\<close>

definition validated :: "param \<Rightarrow> cval \<Rightarrow> pvalue \<Rightarrow> size_t \<Rightarrow> authorizer \<Rightarrow> bool" where
  "validated p v pv index a \<longleftrightarrow>
     (if index = kNone then validFromProto (p_ctype p) pv (p_desc p) OK a = Ret OK
      else \<exists>t vs. p_ctype p = TVec t \<and> v = VVec vs \<and> validFromProto t pv (p_desc p) OK a = Ret OK
             \<and> (if index = kEnd then length vs < unat (max_length (p_desc p)) else unat index < length vs))"

lemma validateSetValue_cases:
  assumes "handle_ok p v" "fresh p"
  shows "\<exists>ans p'. validateSetValue p v pv index a = Ret (ans, p') \<and> (ans = OK \<longrightarrow> validated p v pv index a)"
proof (cases "\<exists>t. p_ctype p = TVec t \<and> scalar_kind pv")
  case True
  then obtain t vs where t: "p_ctype p = TVec t" "scalar_kind pv" and vs: "v = VVec vs"
    using assms(1) by (auto simp: handle_ok_def has_type_vec)
  with validate_elem_cases [of p vs t pv index a] assms show ?thesis
    by (auto simp: validateSetValue_def validated_def less_eq_Suc_le)
next
  case False
  with validate_whole_cases [OF assms(1), of pv index a] show ?thesis
    by (cases "p_ctype p") (auto simp: validateSetValue_def validated_def)
qed

lemma try_one_cases:
  assumes "device_ok dm" "Path oid = Ret path"
  shows "\<exists>ok ans. try_one dm (oid, pv) a = Ret (ok, ans) \<and> (ok \<longleftrightarrow> ans = OK)
       \<and> (ok \<longrightarrow> (\<exists>p v path'. getParam dm (set_path path) OK a = Ret (Some p, OK, path')
                     \<and> readAuthz a (p_desc p) \<and> live dm p v \<and> validated p v pv (set_index path) a))"
proof -
  have fr: "frontIdx (set_path path) \<le> length (segments (set_path path))"
    using assms(2) by (auto simp: Path_def set_path_def path_popBack_def Let_def res_simps split: option.splits)
  from getParam_live [OF assms(1), of "set_path path" OK a] obtain q rc path' where
    g: "getParam dm (set_path path) OK a = Ret (q, rc, path')"
       "case q of None \<Rightarrow> rc \<noteq> OK
        | Some p \<Rightarrow> rc = OK \<and> readAuthz a (p_desc p) \<and> (\<exists>v. live dm p v)" by blast
  show ?thesis
  proof (cases q)
    case None
    with g assms(2) show ?thesis by (auto simp: try_one_def set_path_def [symmetric] Let_def)
  next
    case (Some p)
    with g obtain v where v: "live dm p v" "readAuthz a (p_desc p)" "rc = OK" by auto
    with g Some have fresh: "fresh p" using getParam_cursor [OF _ fr] by blast
    from v(1) have "handle_ok p v" by (simp add: live_def)
    from validateSetValue_cases [OF this fresh, of pv "set_index path" a] obtain ans p' where
      "validateSetValue p v pv (set_index path) a = Ret (ans, p')" "ans = OK \<longrightarrow> validated p v pv (set_index path) a"
      by blast
    with g Some v assms(2) show ?thesis
      by (auto simp: try_one_def set_path_def [symmetric] set_index_def [symmetric] Let_def live_deref)
  qed
qed

lemma reset_loop_total:
  "device_ok dm \<Longrightarrow> \<forall>oid \<in> set oids. \<exists>path. Path oid = Ret path \<Longrightarrow> reset_loop dm oids a = Ret ()"
proof (induction oids)
  case (Cons oid oids)
  then obtain path where "Path oid = Ret path" by auto
  moreover obtain r where "getParam dm (if back_is_index path then path_popBack path else path) OK a = Ret r"
    using getParam_live [OF Cons.prems(1)] by blast
  ultimately show ?case using Cons by auto
qed simp

text \<open>An append or a whole value, once validated, is committed.\<close>

lemma element_lookup:
  assumes "handle_ok p (VVec vs)" "p_ctype p = TVec t" "readAuthz a (p_desc p)" "unat i < length vs"
    and "frontIdx path = length (segments path)"
  defines "q \<equiv> ParamWithValue t (p_root p) (p_steps p @ [SIdx (unat i)]) (p_desc p)"
  shows "\<exists>path'. param_getParam p (VVec vs) (push_back_index i path) a st = Ret (Some q, st, path')"
    and "handle_ok q (vs ! unat i)" "sub_handle p (VVec vs) q (vs ! unat i)"
proof -
  show "\<exists>path'. param_getParam p (VVec vs) (push_back_index i path) a st = Ret (Some q, st, path')"
    using assms
    by (subst param_getParam.simps)
       (simp add: getParam_step_def getParam_vec_def push_back_index_def front_is_index_def front_as_index_def
          path_pop_def path_empty_def Let_def nth_append)
  show "handle_ok q (vs ! unat i)" "sub_handle p (VVec vs) q (vs ! unat i)"
    using assms by (auto simp: handle_simps has_type_vec list_all_length
        intro!: exI [of _ "[SIdx (unat i)]"] exI [of _ "[]"])
qed

lemma wf_vec_elem: "wf_ctype (TVec t) \<Longrightarrow> wf_ctype t \<and> t \<noteq> TEmpty"
  by (auto split: ctype.splits)

lemma append_target:
  assumes "device_ok dm" "live dm p (VVec vs)" "p_ctype p = TVec t" "writeAuthz a (p_desc p)"
    and "length vs < unat (max_length (p_desc p))"
  defines "q \<equiv> ParamWithValue t (p_root p) (p_steps p @ [SIdx (length vs)]) (p_desc p)"
    and "vs' \<equiv> vs @ [default_val t]"
  shows "addBack p (VVec vs) a st = Ret (Some q, st, VVec vs')"
    and "device_ok (assign dm p (VVec vs'))" "live (assign dm p (VVec vs')) q (default_val t)"
proof -
  from assms have ty: "has_type (p_ctype p) (VVec vs')"
    by (auto simp: live_def handle_ok_def has_type_vec vs'_def dest!: wf_vec_elem intro: default_val_typed)
  show "addBack p (VVec vs) a st = Ret (Some q, st, VVec vs')"
    using assms by (simp add: addBack_def)
  show "device_ok (assign dm p (VVec vs'))" using assign_ok [OF assms(1,2) ty] .
  have lv: "live (assign dm p (VVec vs')) p (VVec vs')" using assign_live [OF assms(2) ty] .
  have "handle_ok q (vs' ! length vs)" "sub_handle p (VVec vs') q (vs' ! length vs)"
    using lv assms(3) by (auto simp: q_def vs'_def live_def handle_simps has_type_vec
        intro!: exI [of _ "[SIdx (length vs)]"] exI [of _ "[]"] dest: wf_vec_elem)
  then show "live (assign dm p (VVec vs')) q (default_val t)"
    using live_sub [OF lv] by (simp add: vs'_def)
qed

lemma commit_target_ok:
  assumes "device_ok dm" "Path oid = Ret path" "back_is_index path \<longrightarrow> back_as_index path \<noteq> kNone"
    and "getParam dm (set_path path) OK a = Ret (Some p, OK, path')"
    and "readAuthz a (p_desc p)" "live dm p v" "validated p v pv (set_index path) a"
  shows "\<exists>q dm1 old. commit_target dm path OK a = Ret (q, dm1) \<and> device_ok dm1 \<and> live dm1 q old
           \<and> validFromProto (p_ctype q) pv (p_desc q) OK a = Ret OK \<and> emitted dm1 = emitted dm"
proof (cases "back_is_index path")
  case False
  with assms show ?thesis
    by (auto simp: commit_target_def set_path_def set_index_def validated_def)
next
  case True
  let ?i = "back_as_index path"
  from True assms(3,7) obtain t vs where t: "p_ctype p = TVec t" "v = VVec vs"
    "validFromProto t pv (p_desc p) OK a = Ret OK"
    "if ?i = kEnd then length vs < unat (max_length (p_desc p)) else unat ?i < length vs"
    by (auto simp: set_index_def validated_def)
  have wf: "handle_ok p (VVec vs)" using assms(6) t by (simp add: live_def)
  then have "t \<noteq> TEmpty" using t(1) wf_vec_elem by (metis handle_ok_def)
  with t(3) have wr: "writeAuthz a (p_desc p)" by (rule valid_writeAuthz)
  note drf = live_deref [OF assms(6)]
  have fr: "frontIdx (set_path path) \<le> length (segments (set_path path))"
    using assms(2) by (auto simp: Path_def set_path_def path_popBack_def Let_def res_simps split: option.splits)
  have cur: "frontIdx path' = length (segments path')" using getParam_cursor [OF assms(4) fr] by simp
  show ?thesis
  proof (cases "?i = kEnd")
    case at_end: True
    note app = append_target [OF assms(1) assms(6) [unfolded t(2)] t(1) wr]
    with at_end t True assms(4) drf show ?thesis
      by (auto simp: commit_target_def set_path_def assign_def split: root.split option.split)
  next
    case False
    with t(4) have lt: "unat ?i < length vs" by simp
    note el = element_lookup [OF wf t(1) assms(5) lt cur]
    from el(1) [of OK] obtain path'' where
      "param_getParam p (VVec vs) (push_back_index ?i path') a OK
       = Ret (Some (ParamWithValue t (p_root p) (p_steps p @ [SIdx (unat ?i)]) (p_desc p)), OK, path'')" by blast
    with el(2,3) False True assms(1,4) drf t show ?thesis
      by (auto simp: commit_target_def set_path_def intro: live_sub [OF assms(6) [unfolded t(2)]])
  qed
qed

lemma commit_one_ok:
  assumes "device_ok dm1" "live dm1 q old" "validFromProto (p_ctype q) pv (p_desc q) OK a = Ret OK"
    and "Path oid = Ret path" "commit_target dm path OK a = Ret (q, dm1)"
  shows "\<exists>new. param_fromProto q pv old a = Ret (OK, new) \<and> has_type (p_ctype q) new
     \<and> commit_one dm (oid, pv) OK a = Ret (emit (ValueSetByClient oid q new) (assign dm1 q new), OK)"
proof -
  from assms(2) have wf: "wf_ctype (p_ctype q)" "has_type (p_ctype q) old" "dref_ok (p_desc q)"
    by (auto simp: live_def handle_ok_def)
  from from_total [OF wf assms(3)] obtain new where new: "fromProto (p_ctype q) pv old (p_desc q) a = Ret (OK, new)" ..
  with from_typed [OF wf(1,2) new] assms live_deref [OF assms(2)] show ?thesis
    by (auto simp: commit_one_def param_fromProto_def)
qed

lemma emit_simps [simp]:
  "params (emit e dm) = params dm" "commands (emit e dm) = commands dm"
  "emitted (emit e dm) = emitted dm @ [e]" "device_ok (emit e dm) = device_ok dm"
  "live (emit e dm) p v = live dm p v" "deref (emit e dm) p = deref dm p"
  by (simp_all add: emit_def device_ok_def live_def deref_def root_item_def cong: root.case_cong)

lemma emitted_assign [simp]: "emitted (assign dm p v) = emitted dm"
  by (simp add: assign_def split: root.split option.split)

lemma setValue_cases:
  assumes "device_ok dm" "Path oid = Ret path" "back_is_index path \<longrightarrow> back_as_index path \<noteq> kNone"
  shows "(\<exists>st. setValue dm oid pv a = Ret (dm, st) \<and> st \<noteq> OK)
       \<or> (\<exists>q dm1 old new. commit_target dm path OK a = Ret (q, dm1) \<and> device_ok dm1 \<and> live dm1 q old
            \<and> validFromProto (p_ctype q) pv (p_desc q) OK a = Ret OK
            \<and> param_fromProto q pv old a = Ret (OK, new) \<and> has_type (p_ctype q) new
            \<and> emitted dm1 = emitted dm
            \<and> setValue dm oid pv a = Ret (emit (ValueSetByClient oid q new) (assign dm1 q new), OK))"
proof -
  from try_one_cases [OF assms(1,2), of pv a] obtain ok ans where
    t: "try_one dm (oid, pv) a = Ret (ok, ans)" "ok \<longleftrightarrow> ans = OK" and
    s: "ok \<Longrightarrow> \<exists>p v path'. getParam dm (set_path path) OK a = Ret (Some p, OK, path')
                     \<and> readAuthz a (p_desc p) \<and> live dm p v \<and> validated p v pv (set_index path) a"
    by blast
  from assms(2) reset_loop_total [OF assms(1), of "[oid]" a] have "reset_loop dm [oid] a = Ret ()" by simp
  with t have tr: "tryMultiSetValue dm [(oid, pv)] OK a = Ret (ok, ans)"
    by (auto simp: tryMultiSetValue_def)
  show ?thesis
  proof (cases ok)
    case False
    with tr t show ?thesis by (auto simp: setValue_def)
  next
    case True
    from s [OF True] obtain p v path' where
      "getParam dm (set_path path) OK a = Ret (Some p, OK, path')" "readAuthz a (p_desc p)"
      "live dm p v" "validated p v pv (set_index path) a" by blast
    from commit_target_ok [OF assms this] obtain q dm1 old where
      q: "commit_target dm path OK a = Ret (q, dm1)" "device_ok dm1" "live dm1 q old"
      "validFromProto (p_ctype q) pv (p_desc q) OK a = Ret OK" "emitted dm1 = emitted dm" by blast
    from commit_one_ok [OF q(2,3,4) assms(2) q(1)] obtain new where
      "param_fromProto q pv old a = Ret (OK, new)" "has_type (p_ctype q) new"
      "commit_one dm (oid, pv) OK a = Ret (emit (ValueSetByClient oid q new) (assign dm1 q new), OK)" by blast
    moreover from this True tr have "setValue dm oid pv a = Ret (emit (ValueSetByClient oid q new) (assign dm1 q new), OK)"
      by (simp add: setValue_def commitMultiSetValue_def)
    ultimately show ?thesis using q by blast
  qed
qed

section \<open>Any commit keeps the types\<close>

lemma commit_target_typed:
  assumes "device_ok dm" "commit_target dm path st a = Ret (q, dm1)"
  shows "device_ok dm1 \<and> (\<exists>old. live dm1 q old)"
proof -
  note lv = getParam_live [OF assms(1)]
  show ?thesis
  proof (cases "back_is_index path")
    case False
    with assms lv [of path st a] show ?thesis
      by (auto simp: commit_target_def res_simps split: option.splits)
  next
    case True
    from lv [of "path_popBack path" st a] True assms(2) obtain p path' v where
      g: "getParam dm (path_popBack path) st a = Ret (Some p, st, path')" "live dm p v"
      by (auto simp: commit_target_def split: option.splits)
    note drf = live_deref [OF g(2)]
    have hok: "handle_ok p v" using g(2) by (simp add: live_def)
    show ?thesis
    proof (cases "back_as_index path = kEnd")
      case at_end: True
      with True assms(2) g drf obtain q' st' v' where
        ab: "addBack p v a st = Ret (Some q', st', v')" "q = q'" "dm1 = assign dm p v'"
        by (auto simp: commit_target_def res_simps split: option.splits)
      then obtain t vs where t: "p_ctype p = TVec t" "v = VVec vs" "writeAuthz a (p_desc p)"
        "length vs < unat (max_length (p_desc p))"
        by (auto simp: addBack_def split: ctype.splits cval.splits if_splits)
      from append_target [OF assms(1) g(2) [unfolded t(2)] t(1,3,4)] ab t show ?thesis by auto
    next
      case False
      with True assms(2) g drf obtain st' path'' where
        r: "param_getParam p v (push_back_index (back_as_index path) path') a st = Ret (Some q, st', path'')" "dm1 = dm"
        by (auto simp: commit_target_def res_simps split: option.splits)
      with param_getParam_ok [OF hok, of "push_back_index (back_as_index path) path'" a st] assms(1)
      show ?thesis by (auto intro: live_sub [OF g(2)])
    qed
  qed
qed

section \<open>What a commit leaves alone\<close>

text \<open>Everything but the parameter \<open>k\<close> and the log of emitted signals.\<close>

definition same_but :: "string set \<Rightarrow> device \<Rightarrow> device \<Rightarrow> bool" where
  "same_but ks dm dm' \<longleftrightarrow>
     (\<forall>k. k \<notin> ks \<longrightarrow> map_of (params dm') k = map_of (params dm) k)
     \<and> dm' = dm\<lparr>params := params dm', emitted := emitted dm'\<rparr>"

lemma same_but_refl [simp]: "same_but ks dm dm"
  by (simp add: same_but_def)

lemma same_but_trans: "same_but ks dm dm' \<Longrightarrow> same_but ls dm' dm'' \<Longrightarrow> same_but (ks \<union> ls) dm dm''"
  unfolding same_but_def
  by (cases dm, cases dm', cases dm'') simp

lemma same_but_assign: "p_root p = RParam k \<Longrightarrow> same_but {k} dm (assign dm p v)"
  by (auto simp: same_but_def assign_def update_conv split: option.split)

lemma same_but_emit: "same_but ks dm dm' \<Longrightarrow> same_but ks dm (emit e dm')"
  unfolding same_but_def emit_def by (cases dm, cases dm') simp

lemma getParam_root:
  assumes "device_ok dm" "getParam dm path st a = Ret (Some q, rc, path')"
  shows "p_root q = RParam (front_as_string path)"
proof -
  from assms(2) obtain item where
    item: "map_of (params dm) (front_as_string path) = Some item" "readAuthz a (top_dref dm item)"
    "front_is_string path" "\<not> path_empty path"
    by (auto simp: getParam_def getItem_def Let_def top_param_def split: if_splits option.splits)
  note hok = top_param_live [OF assms(1) item(1)]
  show ?thesis
  proof (cases "path_empty (path_pop path)")
    case True
    with assms(2) item show ?thesis
      by (auto simp: getParam_def getItem_def Let_def param_copy_def top_param_def)
  next
    case False
    with assms(2) item have "param_getParam (top_param dm (RParam (front_as_string path)) item) (dp_value item)
        (path_pop path) a st = Ret (Some q, rc, path')"
      by (auto simp: getParam_def getItem_def Let_def top_param_def)
    with hok param_getParam_ok [of "top_param dm (RParam (front_as_string path)) item" "dp_value item" "path_pop path" a st]
    show ?thesis by (auto simp: live_def sub_handle_def top_param_def)
  qed
qed

lemma addBack_root: "addBack p v a st = Ret (Some q, rc, v') \<Longrightarrow> p_root q = p_root p"
  by (auto simp: addBack_def split: ctype.splits cval.splits if_splits)

lemma commit_target_root:
  assumes "device_ok dm" "commit_target dm path st a = Ret (q, dm1)"
  shows "p_root q = RParam (front_as_string (set_path path)) \<and> same_but {front_as_string (set_path path)} dm dm1"
proof (cases "back_is_index path")
  case False
  with assms show ?thesis
    by (auto simp: commit_target_def set_path_def res_simps split: option.splits dest: getParam_root)
next
  case True
  from getParam_live [OF assms(1), of "path_popBack path" st a] True assms(2) obtain p path' v where
    g: "getParam dm (path_popBack path) st a = Ret (Some p, st, path')" "live dm p v"
    by (auto simp: commit_target_def split: option.splits)
  note root = getParam_root [OF assms(1) g(1)] and drf = live_deref [OF g(2)]
  show ?thesis
  proof (cases "back_as_index path = kEnd")
    case at_end: True
    with True assms(2) g drf obtain st' v' where
      "addBack p v a st = Ret (Some q, st', v')" "dm1 = assign dm p v'"
      by (auto simp: commit_target_def res_simps split: option.splits)
    with root True show ?thesis by (auto simp: set_path_def dest: addBack_root intro: same_but_assign)
  next
    case False
    with True assms(2) g drf obtain st' path'' where
      "param_getParam p v (push_back_index (back_as_index path) path') a st = Ret (Some q, st', path'')" "dm1 = dm"
      by (auto simp: commit_target_def res_simps split: option.splits)
    moreover have "handle_ok p v" using g(2) by (simp add: live_def)
    ultimately show ?thesis
      using root True param_getParam_ok [of p v "push_back_index (back_as_index path) path'" a st]
      by (auto simp: set_path_def sub_handle_def)
  qed
qed

text \<open>The top-level parameter a request addresses.\<close>

definition addressed :: "payload \<Rightarrow> string" where
  "addressed pl = (case Path (fst pl) of Ret path \<Rightarrow> front_as_string (set_path path) | _ \<Rightarrow> [])"

lemma commit_one_frame:
  assumes "device_ok dm" "commit_one dm pl st a = Ret (dm', rc)"
  shows "device_ok dm' \<and> same_but {addressed pl} dm dm'"
proof -
  from assms(2) obtain path q dm1 old new where
    c: "Path (fst pl) = Ret path" "commit_target dm path st a = Ret (q, dm1)" "deref dm1 q = Ret old"
    "param_fromProto q (snd pl) old a = Ret (rc, new)"
    "dm' = emit (ValueSetByClient (fst pl) q new) (assign dm1 q new)"
    by (auto simp: commit_one_def res_simps)
  from commit_target_typed [OF assms(1) c(2)] c(3) have lv: "device_ok dm1" "live dm1 q old"
    by (auto simp: live_deref)
  with c(4) have "has_type (p_ctype q) new"
    by (auto simp: param_fromProto_def live_def handle_ok_def intro: from_typed)
  with lv have "device_ok dm'" unfolding c(5) emit_simps by (blast intro: assign_ok)
  moreover from commit_target_root [OF assms(1) c(2)] same_but_assign [of q "addressed pl" dm1 new]
  have "same_but ({addressed pl} \<union> {addressed pl}) dm (assign dm1 q new)"
    using c(1) by (intro same_but_trans) (auto simp: addressed_def)
  ultimately show ?thesis unfolding c(5) by (auto intro: same_but_emit)
qed

lemma commit_loop_frame:
  "device_ok dm \<Longrightarrow> commit_loop dm pls st a = Ret (dm', rc) \<Longrightarrow>
     device_ok dm' \<and> same_but (addressed ` set pls) dm dm'"
proof (induction pls arbitrary: dm st)
  case (Cons pl pls)
  show ?case
  proof (cases "commit_one dm pl st a")
    case (Ret r)
    obtain dm1 rc1 where r: "r = (dm1, rc1)" by (cases r)
    note f = commit_one_frame [OF Cons.prems(1) Ret [unfolded r]]
    with Cons.IH [of dm1 rc1] Cons.prems(2) Ret r
    have "device_ok dm' \<and> same_but (addressed ` set pls) dm1 dm'" by auto
    with f same_but_trans [of "{addressed pl}" dm dm1] show ?thesis by auto
  next
    case (Throw e)
    with Cons.prems show ?thesis by (cases e) auto
  qed (use Cons.prems in auto)
qed simp

section \<open>Requests on different parameters do not interfere\<close>

definition agree :: "string \<Rightarrow> device \<Rightarrow> device \<Rightarrow> bool" where
  "agree k dm dm' \<longleftrightarrow> map_of (params dm') k = map_of (params dm) k \<and> cfg dm' = cfg dm"

lemma same_but_agree: "same_but ks dm dm' \<Longrightarrow> k \<notin> ks \<Longrightarrow> agree k dm dm'"
  unfolding same_but_def agree_def by (cases dm, cases dm') simp

lemma agree_getParam:
  "agree (front_as_string path) dm dm' \<Longrightarrow> getParam dm' path st a = getParam dm path st a"
  by (simp add: agree_def getParam_def getItem_def top_param_def top_dref_def Let_def cong: option.case_cong)

lemma agree_deref: "agree k dm dm' \<Longrightarrow> p_root p = RParam k \<Longrightarrow> deref dm' p = deref dm p"
  by (simp add: agree_def deref_def root_item_def)

lemma agree_assign: "agree k dm dm' \<Longrightarrow> p_root p = RParam k \<Longrightarrow> agree k (assign dm p v) (assign dm' p v)"
  by (auto simp: agree_def assign_def map_of_update_same split: option.split)

lemma agree_emit: "agree k dm dm' \<Longrightarrow> agree k (emit e dm) (emit e dm')"
  by (simp add: agree_def emit_def)

lemma agree_try_one:
  assumes "device_ok dm" "agree (addressed pl) dm dm'"
  shows "try_one dm' pl a = try_one dm pl a"
proof (cases "Path (fst pl)")
  case (Ret path)
  then have k: "addressed pl = front_as_string (set_path path)" by (simp add: addressed_def)
  note gp = agree_getParam [OF assms(2) [unfolded k]]
  from getParam_live [OF assms(1), of "set_path path" OK a] obtain q rc path' where
    g: "getParam dm (set_path path) OK a = Ret (q, rc, path')" by blast
  show ?thesis
  proof (cases q)
    case (Some p)
    with getParam_root [OF assms(1)] g k have "deref dm' p = deref dm p"
      by (auto intro: agree_deref [OF assms(2)])
    with Ret g gp Some show ?thesis by (simp add: try_one_def set_path_def [symmetric] Let_def)
  qed (use Ret g gp in \<open>simp add: try_one_def set_path_def [symmetric] Let_def\<close>)
qed (auto simp: try_one_def)

lemma agree_commit_target:
  assumes "device_ok dm" "agree (front_as_string (set_path path)) dm dm'"
    and "commit_target dm path st a = Ret (q, dm1)"
  shows "\<exists>dm2. commit_target dm' path st a = Ret (q, dm2) \<and> agree (front_as_string (set_path path)) dm1 dm2"
proof (cases "back_is_index path")
  case False
  with assms(3) obtain rc path' where "getParam dm path st a = Ret (Some q, rc, path')" "dm1 = dm"
    by (cases "getParam dm path st a") (auto simp: commit_target_def split: option.splits)
  with False assms(2) agree_getParam [OF assms(2)] show ?thesis
    by (simp add: commit_target_def set_path_def)
next
  case True
  note gp = agree_getParam [OF assms(2), unfolded set_path_def if_P [OF True]]
  from getParam_live [OF assms(1), of "path_popBack path" st a] True assms(3) obtain p path' v where
    g: "getParam dm (path_popBack path) st a = Ret (Some p, st, path')" "live dm p v"
    by (auto simp: commit_target_def split: option.splits)
  note root = getParam_root [OF assms(1) g(1)]
  note drf = live_deref [OF g(2)]
  with root agree_deref [OF assms(2), of p] True have drf': "deref dm' p = Ret v" by (simp add: set_path_def)
  show ?thesis
  proof (cases "back_as_index path = kEnd")
    case at_end: True
    with True assms(3) g drf obtain st' v' where
      "addBack p v a st = Ret (Some q, st', v')" "dm1 = assign dm p v'"
      by (auto simp: commit_target_def res_simps split: option.splits)
    with True at_end g gp drf' root assms(2) show ?thesis
      by (auto simp: commit_target_def set_path_def intro: agree_assign)
  next
    case False
    with True assms(3) g drf obtain st' path'' where
      "param_getParam p v (push_back_index (back_as_index path) path') a st = Ret (Some q, st', path'')" "dm1 = dm"
      by (auto simp: commit_target_def res_simps split: option.splits)
    with True False assms(2) g gp drf' show ?thesis by (simp add: commit_target_def)
  qed
qed

lemma agree_commit_one:
  assumes "device_ok dm" "agree (addressed pl) dm dm'" "commit_one dm pl st a = Ret (dm1, rc)"
  shows "\<exists>dm2. commit_one dm' pl st a = Ret (dm2, rc) \<and> agree (addressed pl) dm1 dm2"
proof -
  from assms(3) obtain path q dmt old new where
    c: "Path (fst pl) = Ret path" "commit_target dm path st a = Ret (q, dmt)" "deref dmt q = Ret old"
    "param_fromProto q (snd pl) old a = Ret (rc, new)"
    "dm1 = emit (ValueSetByClient (fst pl) q new) (assign dmt q new)"
    by (auto simp: commit_one_def res_simps)
  then have k: "addressed pl = front_as_string (set_path path)" by (simp add: addressed_def)
  from agree_commit_target [OF assms(1) _ c(2)] assms(2) k obtain dmt' where
    t: "commit_target dm' path st a = Ret (q, dmt')" "agree (addressed pl) dmt dmt'" by auto
  from commit_target_root [OF assms(1) c(2)] k have root: "p_root q = RParam (addressed pl)" by simp
  with c t agree_deref [OF t(2) root] show ?thesis
    by (auto simp: commit_one_def intro!: agree_emit agree_assign)
qed

section \<open>An accepted multi-set\<close>

text \<open>An index that is not the value the code reserves for "no index".\<close>

definition addressable :: "payload \<Rightarrow> bool" where
  "addressable pl \<longleftrightarrow>
     (case Path (fst pl) of Ret path \<Rightarrow> back_is_index path \<longrightarrow> back_as_index path \<noteq> kNone | _ \<Rightarrow> True)"

lemma try_one_commits:
  assumes "device_ok dm" "addressable pl" "try_one dm pl a = Ret (True, OK)"
  shows "\<exists>dm'. commit_one dm pl OK a = Ret (dm', OK) \<and> setValue dm (fst pl) (snd pl) a = Ret (dm', OK)"
proof -
  obtain oid pv where pl: "pl = (oid, pv)" by (cases pl)
  from assms(3) obtain path where path: "Path oid = Ret path" by (auto simp: try_one_def res_simps pl)
  with assms(2) have ix: "back_is_index path \<longrightarrow> back_as_index path \<noteq> kNone" by (simp add: addressable_def pl)
  from reset_loop_total [OF assms(1), of "[oid]" a] path have "reset_loop dm [oid] a = Ret ()" by simp
  with assms(3) pl have s: "setValue dm oid pv a = commit_loop dm [(oid, pv)] OK a"
    by (simp add: setValue_def tryMultiSetValue_def commitMultiSetValue_def)
  from try_one_cases [OF assms(1) path, of pv a] assms(3) pl obtain p v path' where
    "getParam dm (set_path path) OK a = Ret (Some p, OK, path')" "readAuthz a (p_desc p)"
    "live dm p v" "validated p v pv (set_index path) a" by auto
  from commit_target_ok [OF assms(1) path ix this] obtain q dm1 old where
    q: "commit_target dm path OK a = Ret (q, dm1)" "device_ok dm1" "live dm1 q old"
    "validFromProto (p_ctype q) pv (p_desc q) OK a = Ret OK" by blast
  from commit_one_ok [OF q(2,3,4) path q(1)] s show ?thesis by (auto simp: pl)
qed

lemma commit_loop_all:
  assumes "device_ok dm" "\<forall>pl \<in> set pls. try_one dm pl a = Ret (True, OK) \<and> addressable pl"
    and "distinct (map addressed pls)"
  shows "\<exists>dm'. commit_loop dm pls OK a = Ret (dm', OK)
       \<and> (\<forall>pl \<in> set pls. \<exists>dm1. setValue dm (fst pl) (snd pl) a = Ret (dm1, OK) \<and> agree (addressed pl) dm1 dm')"
  using assms
proof (induction pls arbitrary: dm)
  case (Cons pl pls)
  from try_one_commits [OF Cons.prems(1), of pl a] Cons.prems(2) obtain dm1 where
    c: "commit_one dm pl OK a = Ret (dm1, OK)" "setValue dm (fst pl) (snd pl) a = Ret (dm1, OK)" by auto
  note f = commit_one_frame [OF Cons.prems(1) c(1)]
  have ag: "agree (addressed x) dm dm1" if "x \<in> set pls" for x
  proof (rule same_but_agree [of "{addressed pl}"])
    from Cons.prems(3) imageI [OF that, of addressed] show "addressed x \<notin> {addressed pl}" by auto
  qed (use f in simp)
  then have "\<forall>x \<in> set pls. try_one dm1 x a = Ret (True, OK) \<and> addressable x"
    using Cons.prems(2) agree_try_one [OF Cons.prems(1)] by auto
  then obtain dm' where
    d: "commit_loop dm1 pls OK a = Ret (dm', OK)"
    "\<forall>x \<in> set pls. \<exists>dm2. setValue dm1 (fst x) (snd x) a = Ret (dm2, OK) \<and> agree (addressed x) dm2 dm'"
    using Cons.IH [of dm1] f Cons.prems(3) by auto
  have "\<exists>dm2. setValue dm (fst x) (snd x) a = Ret (dm2, OK) \<and> agree (addressed x) dm2 dm'" if x: "x \<in> set pls" for x
  proof -
    from try_one_commits [OF Cons.prems(1), of x a] Cons.prems(2) x obtain dm2 where
      e: "commit_one dm x OK a = Ret (dm2, OK)" "setValue dm (fst x) (snd x) a = Ret (dm2, OK)" by auto
    from agree_commit_one [OF Cons.prems(1) ag [OF x] e(1)] obtain dm3 where
      h: "commit_one dm1 x OK a = Ret (dm3, OK)" "agree (addressed x) dm2 dm3" by blast
    have "try_one dm1 x a = Ret (True, OK)" "addressable x"
      using Cons.prems(2) agree_try_one [OF Cons.prems(1) ag [OF x]] x by auto
    with f try_one_commits [of dm1 x a] h have "setValue dm1 (fst x) (snd x) a = Ret (dm3, OK)" by auto
    with bspec [OF d(2) x] e(2) h(2) show ?thesis by (auto simp: agree_def)
  qed
  moreover have "agree (addressed pl) dm1 dm'"
    using commit_loop_frame [OF _ d(1)] f Cons.prems(3) by (auto intro!: same_but_agree)
  ultimately show ?case using c d(1) by auto
qed simp

lemma Path_status: "Path oid \<noteq> Throw (ExceptionWithStatus OK)"
  and Path_defined: "Path oid \<noteq> Undef"
proof -
  have "segs_of_matches ms \<noteq> Undef \<and> (\<forall>st. segs_of_matches ms \<noteq> Throw (ExceptionWithStatus st))" for ms
  proof (induction ms)
    case (Cons m ms)
    then show ?case by (cases m; cases "segs_of_matches ms") (auto simp: stoul_def)
  qed simp
  then show "Path oid \<noteq> Throw (ExceptionWithStatus OK)" "Path oid \<noteq> Undef"
    by (cases "path_matches oid"; cases "segs_of_matches (the (path_matches oid))"; force simp: Path_def)+
qed

lemma try_one_status:
  assumes "device_ok dm"
  shows "try_one dm pl a \<noteq> Ret (False, OK)" "try_one dm pl a = Ret (True, st) \<Longrightarrow> st = OK"
    "try_one dm pl a \<noteq> Throw (ExceptionWithStatus OK)"
proof -
  obtain oid pv where pl: "pl = (oid, pv)" by (cases pl)
  have "\<exists>ok ans. try_one dm pl a = Ret (ok, ans) \<and> (ok \<longleftrightarrow> ans = OK)
      \<or> (\<exists>e. try_one dm pl a = Throw e \<and> e \<noteq> ExceptionWithStatus OK)"
  proof (cases "Path oid")
    case (Ret path)
    from try_one_cases [OF assms Ret, of pv a] show ?thesis unfolding pl by blast
  next
    case (Throw e)
    with Path_status [of oid] show ?thesis by (auto simp: try_one_def pl)
  qed (simp add: Path_defined)
  then show "try_one dm pl a \<noteq> Ret (False, OK)" "try_one dm pl a = Ret (True, st) \<Longrightarrow> st = OK"
    "try_one dm pl a \<noteq> Throw (ExceptionWithStatus OK)" by auto
qed

lemma try_loop_err: "ans \<noteq> OK \<Longrightarrow> try_loop dm pls aff ans a \<noteq> Ret (aff', OK)"
  by (induction pls arbitrary: ans) (auto simp: Let_def)

lemma try_loop_OK:
  assumes "device_ok dm"
  shows "try_loop dm pls aff OK a = Ret (aff', OK) \<longleftrightarrow>
     aff' = aff @ map fst pls \<and> (\<forall>pl \<in> set pls. try_one dm pl a = Ret (True, OK))
     \<and> (\<forall>pl \<in> set pls. \<forall>oid \<in> set aff. \<not> overlaps oid (fst pl))
     \<and> sorted_wrt (\<lambda>x y. \<not> overlaps (fst x) (fst y)) pls"
proof (induction pls arbitrary: aff)
  case (Cons pl pls)
  show ?case
  proof (cases "list_ex (\<lambda>oid. overlaps oid (fst pl)) aff")
    case True
    then show ?thesis using try_loop_err [of INVALID_ARGUMENT dm pls aff a aff'] by (auto simp: list_ex_iff)
  next
    case False
    note st = try_one_status [OF assms, of pl a]
    show ?thesis
    proof (cases "try_one dm pl a = Ret (True, OK)")
      case True
      with Cons.IH [of "aff @ [fst pl]"] False show ?thesis by (auto simp: list_ex_iff)
    next
      case no: False
      have "try_loop dm (pl # pls) aff OK a \<noteq> Ret (aff', OK)"
      proof (cases "try_one dm pl a")
        case (Ret r)
        obtain ok ans where "r = (ok, ans)" by (cases r)
        with Ret no st False show ?thesis by (cases ok) auto
      next
        case (Throw e)
        with st(3) False show ?thesis by (cases e) auto
      qed (use False in auto)
      with no show ?thesis by auto
    qed
  qed
qed auto

section \<open>Reading back\<close>

lemma set_at_get: "get_at v ss = Some w \<Longrightarrow> set_at v ss w = v"
  by (induction v ss rule: get_at.induct) (auto split: if_splits)

lemma update_same: "map_of m k = Some x \<Longrightarrow> AList.update k x m = m"
  by (induction m) (auto split: if_splits)

lemma assign_same: "live dm p v \<Longrightarrow> assign dm p v = dm"
  by (auto simp: live_def assign_def set_at_get update_same)

definition device_exact :: "device \<Rightarrow> bool" where
  "device_exact dm \<longleftrightarrow> list_all (\<lambda>(k, item). no_rounding (dp_desc item)) (params dm)"

lemma dref_exact_descend: "descend d oids = Ret e \<Longrightarrow> dref_exact d \<Longrightarrow> dref_exact e"
  by (induction oids arbitrary: d) (auto simp: res_simps dest: dref_exact_sub)

lemma getParam_exact:
  assumes "device_ok dm" "device_exact dm" "getParam dm path st a = Ret (Some q, rc, path')"
  shows "dref_exact (p_desc q)"
proof -
  from assms(3) obtain item where
    item: "map_of (params dm) (front_as_string path) = Some item" "readAuthz a (top_dref dm item)"
    "front_is_string path" "\<not> path_empty path"
    by (auto simp: getParam_def getItem_def Let_def top_param_def split: if_splits option.splits)
  let ?p = "top_param dm (RParam (front_as_string path)) item"
  from assms(2) item(1) have "no_rounding (dp_desc item)"
    by (auto simp: device_exact_def list_all_iff dest!: map_of_SomeD)
  then have ex: "dref_exact (p_desc ?p)" by (simp add: dref_exact_def top_param_def top_dref_def)
  note hok = top_param_live [OF assms(1) item(1)]
  show ?thesis
  proof (cases "path_empty (path_pop path)")
    case True
    with assms(3) item ex show ?thesis
      by (auto simp: getParam_def getItem_def Let_def param_copy_def top_param_def)
  next
    case False
    with assms(3) item have "param_getParam ?p (dp_value item) (path_pop path) a st = Ret (Some q, rc, path')"
      by (auto simp: getParam_def getItem_def Let_def top_param_def)
    with hok param_getParam_ok [of ?p "dp_value item" "path_pop path" a st] ex
    show ?thesis by (auto simp: live_def sub_handle_def intro: dref_exact_descend)
  qed
qed

lemma getValue_OK:
  assumes "device_ok dm" "getValue dm oid dst a = Ret (OK, Some pv)"
  shows "\<exists>path p v path'. Path oid = Ret path \<and> getParam dm path OK a = Ret (Some p, OK, path') \<and> live dm p v
       \<and> readAuthz a (p_desc p) \<and> toProto (p_ctype p) dst v (p_desc p) a = Ret (OK, pv)"
proof -
  from assms(2) obtain path where path: "Path oid = Ret path"
    by (cases "Path oid") (auto simp: getValue_def)
  from getParam_live [OF assms(1), of path OK a] obtain q rc path' where
    g: "getParam dm path OK a = Ret (q, rc, path')"
    "case q of None \<Rightarrow> rc \<noteq> OK | Some p \<Rightarrow> rc = OK \<and> readAuthz a (p_desc p) \<and> (\<exists>v. live dm p v)" by blast
  show ?thesis
  proof (cases q)
    case None
    with g path assms(2) show ?thesis by (auto simp: getValue_def split: if_splits)
  next
    case (Some p)
    with g obtain v where v: "rc = OK" "readAuthz a (p_desc p)" "live dm p v" by auto
    with path g Some assms(2) live_deref [OF v(3)] have "toProto (p_ctype p) dst v (p_desc p) a = Ret (OK, pv)"
      by (auto simp: getValue_def param_toProto_value_def split: if_splits res.splits)
    with path g Some v show ?thesis by blast
  qed
qed

text \<open>Two clients that find a parameter at the same path find the same one.\<close>

fun same_nav :: "(nav \<times> path) res \<Rightarrow> (nav \<times> path) res \<Rightarrow> bool" where
  "same_nav (Ret (Next q w, oid)) r \<longleftrightarrow> r = Ret (Next q w, oid)"
| "same_nav (Ret (Stop (Some q) st, oid)) r \<longleftrightarrow>
     (case r of Ret (Stop (Some q') st', oid') \<Rightarrow> q' = q | Ret (Next _ _, _) \<Rightarrow> False | _ \<Rightarrow> True)"
| "same_nav (Ret (Stop None st, oid)) r \<longleftrightarrow> (case r of Ret (Next _ _, _) \<Rightarrow> False | _ \<Rightarrow> True)"
| "same_nav _ r \<longleftrightarrow> True"

lemma getParam_step_same: "same_nav (getParam_step p v oid a st) (getParam_step p v oid b st)"
proof (cases "p_ctype p")
  case (TStruct fs)
  then show ?thesis
    by (cases v; cases "field_index (front_as_string oid) fs"; cases "getSubParam (p_desc p) (front_as_string oid)")
       (auto simp: getParam_step_def getParam_struct_def findParamByName_def Let_def)
next
  case (TVariant alts)
  then show ?thesis
    by (cases v; cases "getSubParam (p_desc p) (front_as_string oid)")
       (auto simp: getParam_step_def getParam_variant_def Let_def)
qed (auto simp: getParam_step_def getParam_empty_def getParam_vec_def getParam_generic_def Let_def
       split: cval.split option.split)

lemma param_getParam_same:
  "param_getParam p v oid a st = Ret (Some q, rc, oid1) \<Longrightarrow> param_getParam p v oid b st = Ret (Some q', rc', oid2) \<Longrightarrow> q' = q"
proof (induction p v oid a st rule: param_getParam.induct)
  case (1 p v oid a st)
  from 1(2) obtain nav o1 where n1: "readAuthz a (p_desc p)" "getParam_step p v oid a st = Ret (nav, o1)"
    by (subst (asm) param_getParam.simps) (auto simp: res_simps split: if_splits)
  from 1(3) obtain nav' o2 where n2: "readAuthz b (p_desc p)" "getParam_step p v oid b st = Ret (nav', o2)"
    by (subst (asm) param_getParam.simps) (auto simp: res_simps split: if_splits)
  note same = getParam_step_same [of p v oid a st b, unfolded n1(2) n2(2)]
  show ?case
  proof (cases nav)
    case (Stop r rc1)
    with n1 1(2) have r: "r = Some q" by (subst (asm) param_getParam.simps) auto
    from same Stop r obtain r' rc2 where "nav' = Stop r' rc2" by (cases nav') auto
    moreover from this n2 1(3) have "r' = Some q'" by (subst (asm) param_getParam.simps) auto
    ultimately show ?thesis using same Stop r by simp
  next
    case (Next h w)
    with same have "nav' = Next h w" "o2 = o1" by auto
    with n2 1(3) have "param_getParam h w o1 b st = Ret (Some q', rc', oid2)"
      by (subst (asm) param_getParam.simps) auto
    moreover from n1 1(2) Next have "param_getParam h w o1 a st = Ret (Some q, rc, oid1)"
      by (subst (asm) param_getParam.simps) auto
    ultimately show ?thesis using 1(1) [of "(nav, o1)" nav o1 h w] n1 Next by simp
  qed
qed

lemma getParam_same:
  "getParam dm path st a = Ret (Some q, rc, path1) \<Longrightarrow> getParam dm path st b = Ret (Some q', rc', path2) \<Longrightarrow> q' = q"
  by (auto simp: getParam_def Let_def split: if_splits option.splits dest: param_getParam_same)

section \<open>Examples\<close>

definition ex_item :: devparam where
  "ex_item = \<lparr>dp_ctype = ex_type, dp_value = VStruct [VInt 7, VVec []], dp_desc = ex_desc None\<rparr>"

definition ex_array :: devparam where
  "ex_array = \<lparr>dp_ctype = TVec TString, dp_value = VVec [],
               dp_desc = PDesc ((example_info ''tags'' STRING_ARRAY)\<lparr>pd_max_length := 1\<rparr>) []\<rparr>"

definition ex_device :: device where
  "ex_device = addItem_param ''tags'' ex_array (addItem_param ''mix'' ex_item
                 (Device 1 FULL [] ''st2138:op'' True True))"

lemma ex_device_ok: "device_ok ex_device" "device_exact ex_device"
proof -
  have "desc_ok (ex_desc None)" "no_rounding (ex_desc None)"
    by (simp_all add: ex_desc_def example_info_def)
  moreover have "describes ex_type (ex_desc None)"
    by (simp add: ex_type_def ex_desc_def describes_members)
  moreover have "pd_isCommand (dinfo_of (ex_desc None)) = False" by (simp add: ex_desc_def example_info_def)
  ultimately show "device_ok ex_device" "device_exact ex_device"
    using ex_wf by (auto simp: device_ok_def device_exact_def ex_device_def addItem_param_def Device_def ex_item_def
        ex_array_def item_ok_def example_info_def has_type_vec)
qed

section \<open>Properties\<close>

text \<open>
  C12: looking up a parameter in a device always returns, without exception or undefined
  behaviour. It yields a handle only on a stored value of the handle's type that the client may
  read; every other outcome carries an error status.
\<close>

theorem device_getParam_sound:
  assumes "device_ok dm"
  shows "\<exists>q rc path'. getParam dm path OK a = Ret (q, rc, path')
       \<and> (case q of
            None \<Rightarrow> rc \<noteq> OK
          | Some p \<Rightarrow> rc = OK \<and> readAuthz a (p_desc p)
                     \<and> (\<exists>v. deref dm p = Ret v \<and> has_type (p_ctype p) v \<and> handle_ok p v))"
proof -
  from getParam_live [OF assms, of path OK a] obtain q rc path' where
    g: "getParam dm path OK a = Ret (q, rc, path')"
    "case q of None \<Rightarrow> rc \<noteq> OK | Some p \<Rightarrow> rc = OK \<and> readAuthz a (p_desc p) \<and> (\<exists>v. live dm p v)" by blast
  have "deref dm p = Ret v \<and> has_type (p_ctype p) v \<and> handle_ok p v" if "live dm p v" for p v
    using that live_deref [OF that] by (simp add: live_def handle_ok_def)
  with g show ?thesis by (cases q) auto
qed

theorem device_getParam_sound_witness:
  "\<exists>q rc path'. getParam ex_device \<lparr>segments = [SOid ''mix'', SOid ''level''], frontIdx = 0\<rparr> OK kAuthzDisabled
     = Ret (q, rc, path')"
  using device_getParam_sound [OF ex_device_ok(1)] by blast



text \<open>
  C4: the validation phase accepts a multi-set exactly when it is enabled (or a single request),
  every request is valid on its own against the current device, and no two requests overlap.
\<close>

theorem tryMultiSetValue_accepts_iff:
  assumes "device_ok dm"
  shows "tryMultiSetValue dm src OK a = Ret (True, OK) \<longleftrightarrow>
     (length src \<le> 1 \<or> multi_set_enabled dm)
     \<and> list_all (\<lambda>pl. try_one dm pl a = Ret (True, OK)) src
     \<and> sorted_wrt (\<lambda>x y. \<not> overlaps (fst x) (fst y)) src"
proof -
  have "reset_loop dm (map fst src) a = Ret ()" if "\<forall>pl \<in> set src. try_one dm pl a = Ret (True, OK)"
    using that by (intro reset_loop_total [OF assms]) (fastforce simp: try_one_def res_simps)
  moreover have "(\<exists>aff. try_loop dm src [] OK a = Ret (aff, OK) \<and> reset_loop dm aff a = Ret ()) \<longleftrightarrow>
      tryMultiSetValue dm src OK a = Ret (True, OK)" if "length src \<le> 1 \<or> multi_set_enabled dm"
    using that by (auto simp: tryMultiSetValue_def res_simps)
  ultimately show ?thesis
    unfolding try_loop_OK [OF assms] by (auto simp: tryMultiSetValue_def list_all_iff)
qed

theorem tryMultiSetValue_accepts_iff_witness:
  "tryMultiSetValue ex_device [(''/mix/level'', Int32Value 9), (''/tags/-'', StringValue ''a'')] OK kAuthzDisabled
   = Ret (True, OK)"
  unfolding tryMultiSetValue_accepts_iff [OF ex_device_ok(1)] by code_simp



text \<open>
  whatever is committed, validated or not, a commit that returns keeps every parameter well
  typed and touches nothing of the device but the addressed top-level parameters and the signals.
\<close>

theorem commit_keeps_types_and_frame:
  assumes "device_ok dm" "commitMultiSetValue dm src a = Ret (dm', rc)"
  shows "device_ok dm' \<and> dm' = dm\<lparr>params := params dm', emitted := emitted dm'\<rparr>
     \<and> (\<forall>k. k \<in> addressed ` set src \<or> map_of (params dm') k = map_of (params dm) k)"
  using commit_loop_frame [OF assms(1) assms(2) [unfolded commitMultiSetValue_def]]
  by (auto simp: same_but_def)

theorem commit_keeps_types_and_frame_witness:
  "\<exists>dm' rc. commitMultiSetValue ex_device [(''/mix/level'', StringValue ''loud'')] kAuthzDisabled = Ret (dm', rc)
     \<and> device_ok dm' \<and> map_of (params dm') ''tags'' = Some ex_array"
proof -
  let ?src = "[(''/mix/level'', StringValue ''loud'')]"
  have "case commitMultiSetValue ex_device ?src kAuthzDisabled of Ret _ \<Rightarrow> True | _ \<Rightarrow> False" by code_simp
  then obtain dm' rc where c: "commitMultiSetValue ex_device ?src kAuthzDisabled = Ret (dm', rc)"
    by (auto split: res.splits)
  have "''tags'' \<notin> addressed ` set ?src" by code_simp
  moreover have "map_of (params ex_device) ''tags'' = Some ex_array" by code_simp
  ultimately show ?thesis
    using commit_keeps_types_and_frame [OF ex_device_ok(1) c] c by fastforce
qed

text \<open>
  C28: \<^verbatim>\<open>getValue\<close> returns a value only when the client may read the parameter and every part of
  it, and the value is the serialisation of what the device stores.
\<close>

theorem getValue_only_readable:
  assumes "device_ok dm" "getValue dm oid KindNotSet a = Ret (OK, Some pv)"
  shows "\<exists>path p v path'. Path oid = Ret path \<and> getParam dm path OK a = Ret (Some p, OK, path')
     \<and> deref dm p = Ret v \<and> readable (p_ctype p) v (p_desc p) a
     \<and> toProto (p_ctype p) KindNotSet v (p_desc p) a = Ret (OK, pv)"
proof -
  from getValue_OK [OF assms] obtain path p v path' where
    g: "Path oid = Ret path" "getParam dm path OK a = Ret (Some p, OK, path')" "live dm p v"
    "toProto (p_ctype p) KindNotSet v (p_desc p) a = Ret (OK, pv)" by blast
  then have "wf_ctype (p_ctype p)" "has_type (p_ctype p) v" by (auto simp: live_def handle_ok_def)
  with g toProto_OK_readable have "readable (p_ctype p) v (p_desc p) a" by blast
  with g live_deref [OF g(3)] show ?thesis by blast
qed

theorem getValue_only_readable_witness:
  "\<exists>path p v path'. getParam ex_device path OK kAuthzDisabled = Ret (Some p, OK, path')
     \<and> deref ex_device p = Ret v \<and> readable (p_ctype p) v (p_desc p) kAuthzDisabled"
proof -
  have "getValue ex_device ''/mix'' KindNotSet kAuthzDisabled
      = Ret (OK, Some (StructValue [(''level'', Int32Value 7), (''tags'', StringArray [])]))" by code_simp
  from getValue_only_readable [OF ex_device_ok(1) this] show ?thesis by blast
qed

text \<open>
  C29: writing back to a parameter what \<^verbatim>\<open>getValue\<close> returned for it, where no range constraint
  rounds, changes nothing but the log of signals.
\<close>

theorem get_set_roundtrip:
  assumes "device_ok dm" "device_exact dm" "Path oid = Ret path" "\<not> back_is_index path"
    and "getValue dm oid KindNotSet a = Ret (OK, Some pv)" "setValue dm oid pv b = Ret (dm', OK)"
  shows "dm' = dm\<lparr>emitted := emitted dm'\<rparr>"
proof -
  from getValue_OK [OF assms(1,5)] assms(3) obtain p v path' where
    g: "getParam dm path OK a = Ret (Some p, OK, path')" "live dm p v"
    "toProto (p_ctype p) KindNotSet v (p_desc p) a = Ret (OK, pv)" by auto
  from setValue_cases [OF assms(1,3), of pv b] assms(4,6) obtain q dm1 old new where
    "commit_target dm path OK b = Ret (q, dm1)" "live dm1 q old" "param_fromProto q pv old b = Ret (OK, new)"
    "setValue dm oid pv b = Ret (emit (ValueSetByClient oid q new) (assign dm1 q new), OK)" by auto
  with assms(6) have c: "commit_target dm path OK b = Ret (q, dm1)" "live dm1 q old"
    "param_fromProto q pv old b = Ret (OK, new)" "dm' = emit (ValueSetByClient oid q new) (assign dm1 q new)" by auto
  from c(1) assms(4) obtain rc path'' where h: "getParam dm path OK b = Ret (Some q, rc, path'')" "dm1 = dm"
    by (cases "getParam dm path OK b") (auto simp: commit_target_def split: option.splits)
  have "q = p" using getParam_same [OF g(1) h(1)] by simp
  with g h(2) c have st: "wf_ctype (p_ctype p)" "has_type (p_ctype p) v" "old = v"
    using live_deref [OF g(2)] live_deref [OF c(2)] by (auto simp: live_def handle_ok_def)
  have "dref_exact (p_desc p)" using getParam_exact [OF assms(1,2) g(1)] .
  from toProto_fromProto [OF st(1) this st(2,2) g(3)] c(3) \<open>q = p\<close> st(3) have "new = v"
    by (auto simp: param_fromProto_def)
  with c(4) h(2) \<open>q = p\<close> assign_same [OF g(2)] show ?thesis by (simp add: emit_def)
qed

theorem get_set_roundtrip_witness:
  "\<exists>dm'. setValue ex_device ''/mix'' (StructValue [(''level'', Int32Value 7), (''tags'', StringArray [])]) kAuthzDisabled
     = Ret (dm', OK) \<and> params dm' = params ex_device"
proof -
  let ?pv = "StructValue [(''level'', Int32Value 7), (''tags'', StringArray [])]"
  have g: "getValue ex_device ''/mix'' KindNotSet kAuthzDisabled = Ret (OK, Some ?pv)" by code_simp
  have p: "Path ''/mix'' = Ret \<lparr>segments = [SOid ''mix''], frontIdx = 0\<rparr>"
    "\<not> back_is_index \<lparr>segments = [SOid ''mix''], frontIdx = 0\<rparr>" by code_simp+
  have "case setValue ex_device ''/mix'' ?pv kAuthzDisabled of Ret (_, st) \<Rightarrow> st = OK | _ \<Rightarrow> False" by code_simp
  then obtain dm' where s: "setValue ex_device ''/mix'' ?pv kAuthzDisabled = Ret (dm', OK)"
    by (auto split: res.splits)
  from get_set_roundtrip [OF ex_device_ok p g s] have "params dm' = params (ex_device\<lparr>emitted := emitted dm'\<rparr>)"
    by (rule arg_cong)
  with s show ?thesis by auto
qed

section \<open>Limits of the validation phase\<close>

text \<open>
  the size trackers live in the handles of single requests, so two appends to the same array
  are each validated against the stored array: both pass where only one fits, and the commit of
  the second dereferences the null pointer that \<^verbatim>\<open>addBack\<close> returned.
\<close>

theorem two_appends_accepted_then_null:
  "tryMultiSetValue ex_device [(''/tags/-'', StringValue ''a''), (''/tags/-'', StringValue ''b'')] OK kAuthzDisabled
     = Ret (True, OK)
   \<and> commitMultiSetValue ex_device [(''/tags/-'', StringValue ''a''), (''/tags/-'', StringValue ''b'')] kAuthzDisabled
     = Undef"
proof
  show "tryMultiSetValue ex_device [(''/tags/-'', StringValue ''a''), (''/tags/-'', StringValue ''b'')] OK kAuthzDisabled
     = Ret (True, OK)" by code_simp
  show "commitMultiSetValue ex_device [(''/tags/-'', StringValue ''a''), (''/tags/-'', StringValue ''b'')] kAuthzDisabled
     = Undef" by code_simp
qed

text \<open>
  An index equal to the reserved \<^verbatim>\<open>kNone\<close> makes the validation look at the whole array; the commit
  dereferences the null pointer the element lookup returns.
\<close>

lemma reserved_index_path:
  "Path ''/tags/18446744073709551613'' = Ret \<lparr>segments = [SOid ''tags'', SIndex kNone], frontIdx = 0\<rparr>"
proof -
  have m: "path_matches ''/tags/18446744073709551613'' = Some [MatchOid ''/tags'', MatchIdx ''/18446744073709551613'']"
    by code_simp
  have u: "unescape ''/tags'' = ''/tags''" "unescape ''/18446744073709551613'' = ''/18446744073709551613''"
    by (rule unescape_id, simp)+
  have "nat_of_dec ''18446744073709551613'' = 18446744073709551613"
    by (simp add: nat_of_dec_def digit_val_def)
  then have "stoul ''18446744073709551613'' = Ret kNone"
    by (simp add: stoul_def kNone_def kEnd_def)
  with m u show ?thesis by (simp add: Path_def)
qed

lemma reserved_index_accepted_then_null:
  "tryMultiSetValue ex_device [(''/tags/18446744073709551613'', StringArray [])] OK kAuthzDisabled = Ret (True, OK)"
  "commitMultiSetValue ex_device [(''/tags/18446744073709551613'', StringArray [])] kAuthzDisabled = Undef"
proof -
  let ?path = "\<lparr>segments = [SOid ''tags'', SIndex kNone], frontIdx = 0\<rparr>"
  have "getParam ex_device (path_popBack ?path) OK kAuthzDisabled
      = Ret (Some (top_param ex_device (RParam ''tags'') ex_array), OK, \<lparr>segments = [SOid ''tags''], frontIdx = 1\<rparr>)"
    by code_simp
  moreover have "deref ex_device (top_param ex_device (RParam ''tags'') ex_array) = Ret (VVec [])" by code_simp
  moreover have "back_is_index ?path" "back_as_index ?path = kNone" by code_simp+
  moreover have "validateSetValue (top_param ex_device (RParam ''tags'') ex_array) (VVec []) (StringArray []) kNone kAuthzDisabled
      = Ret (OK, (top_param ex_device (RParam ''tags'') ex_array)\<lparr>mSizeTracker := Some 0\<rparr>)" by code_simp
  moreover have "param_getParam (top_param ex_device (RParam ''tags'') ex_array) (VVec [])
      (push_back_index kNone \<lparr>segments = [SOid ''tags''], frontIdx = 1\<rparr>) kAuthzDisabled OK
      = Ret (None, OUT_OF_RANGE, \<lparr>segments = [SOid ''tags'', SIndex kNone], frontIdx = 2\<rparr>)"
  proof -
    have "readAuthz kAuthzDisabled (p_desc (top_param ex_device (RParam ''tags'') ex_array))" by code_simp
    moreover have "p_ctype (top_param ex_device (RParam ''tags'') ex_array) = TVec TString" by code_simp
    ultimately show ?thesis
      by (subst param_getParam.simps)
         (simp add: getParam_step_def getParam_vec_def push_back_index_def front_is_index_def path_pop_def Let_def)
  qed
  moreover have "kNone \<noteq> kEnd" by (simp add: kNone_def)
  ultimately show
    "tryMultiSetValue ex_device [(''/tags/18446744073709551613'', StringArray [])] OK kAuthzDisabled = Ret (True, OK)"
    "commitMultiSetValue ex_device [(''/tags/18446744073709551613'', StringArray [])] kAuthzDisabled = Undef"
    by (simp_all add: tryMultiSetValue_def try_one_def commitMultiSetValue_def commit_one_def commit_target_def
          reserved_index_path Let_def)
qed

text \<open>
  The overlap check compares prefixes of the text, so distinct parameters whose names are
  prefixes of each other cannot be set together.
\<close>

lemma overlap_is_textual: "overlaps ''/mix'' ''/mixer''"
  by code_simp

text \<open>
  A malformed oid is recorded before it is parsed; the reset pass parses it again outside of the
  \<^verbatim>\<open>try\<close> block, so the exception leaves \<^verbatim>\<open>tryMultiSetValue\<close>.
\<close>

lemma malformed_oid_escapes:
  "tryMultiSetValue ex_device [(''mix'', Int32Value 1)] OK kAuthzDisabled
     = Throw (ExceptionWithStatus INVALID_ARGUMENT)"
  by code_simp

end
