(* ===== verification/Device_Stream.thy ===== *)
theory Device_Stream
  imports Device_Set
begin

text \<open>
  The parts of \<^verbatim>\<open>Device.cpp\<close> that do not set parameters: language packs (\<^verbatim>\<open>LanguagePack.cpp\<close>),
  menus (\<^verbatim>\<open>Menu.cpp\<close>, \<^verbatim>\<open>MenuGroup.cpp\<close>), the serialisation of the whole device and the component
  serializer, a coroutine that yields one component at a time. The coroutine is the list of the
  components still to come; the device is taken not to change while a serializer runs.
\<close>

section \<open>Language packs\<close>

definition LanguagePack :: "string \<Rightarrow> string \<Rightarrow> (string \<times> string) list \<Rightarrow> device \<Rightarrow> device" where
  "LanguagePack languageCode name list dm =
     addItem_lpack languageCode \<lparr>lp_name = name, lp_words = put_all list []\<rparr> dm"

definition lpack_fromProto :: "lpack \<Rightarrow> lpack \<Rightarrow> lpack" where
  "lpack_fromProto pack self = \<lparr>lp_name = lp_name pack, lp_words = put_all (lp_words pack) (lp_words self)\<rparr>"

definition lpack_toProto :: "lpack \<Rightarrow> lpack \<Rightarrow> lpack" where
  "lpack_toProto self pack = \<lparr>lp_name = lp_name self, lp_words = put_all (lp_words self) (lp_words pack)\<rparr>"

definition lpack_default :: lpack where
  "lpack_default = \<lparr>lp_name = [], lp_words = []\<rparr>"

record component_language_pack =
  clp_language :: string
  clp_pack :: lpack

definition getLanguagePack :: "device \<Rightarrow> string \<Rightarrow> component_language_pack \<Rightarrow> StatusCode \<times> component_language_pack" where
  "getLanguagePack dm languageId pack =
     (if languageId = [] then (INVALID_ARGUMENT, pack)
      else (case map_of (language_packs dm) languageId of
              None \<Rightarrow> (NOT_FOUND, pack)
            | Some lp \<Rightarrow> (OK, \<lparr>clp_language = languageId, clp_pack = lpack_toProto lp (clp_pack pack)\<rparr>)))"

definition addLanguage :: "device \<Rightarrow> string \<Rightarrow> lpack \<Rightarrow> authorizer \<Rightarrow> device \<times> StatusCode" where
  "addLanguage dm ident pack authz =
     (if \<not> writeAuthz_e authz kAdmin then (dm, PERMISSION_DENIED)
      else if lp_name pack = [] \<or> ident = [] then (dm, INVALID_ARGUMENT)
      else if map_of (language_packs dm) ident \<noteq> None \<and> ident \<notin> set (added_packs dm) then (dm, PERMISSION_DENIED)
      else let dm1 = LanguagePack ident (lp_name pack) [] dm;
               dm2 = dm1\<lparr>added_packs := List.insert ident (added_packs dm1)\<rparr>;
               lp = lpack_fromProto pack (case map_of (language_packs dm2) ident of None \<Rightarrow> lpack_default | Some p \<Rightarrow> p);
               dm3 = dm2\<lparr>language_packs := AList.update ident lp (language_packs dm2)\<rparr> in
           (emit (LanguageAdded lp) dm3, OK))"

definition removeLanguage :: "device \<Rightarrow> string \<Rightarrow> authorizer \<Rightarrow> device \<times> StatusCode" where
  "removeLanguage dm languageId authz =
     (if \<not> writeAuthz_e authz kAdmin then (dm, PERMISSION_DENIED)
      else if map_of (language_packs dm) languageId \<noteq> None \<and> languageId \<notin> set (added_packs dm) then (dm, PERMISSION_DENIED)
      else if map_of (language_packs dm) languageId = None then (dm, NOT_FOUND)
      else (dm\<lparr>added_packs := removeAll languageId (added_packs dm),
               language_packs := AList.delete languageId (language_packs dm)\<rparr>, OK))"

definition toProto_LanguagePacks :: "device \<Rightarrow> (string \<times> lpack) list" where
  "toProto_LanguagePacks dm =
     fold (\<lambda>(name, pack) m. AList.update name \<lparr>lp_name = name, lp_words = fold (\<lambda>(k, w). map_insert k w) (lp_words pack) []\<rparr> m)
       (language_packs dm) []"

definition toProto_LanguageList :: "device \<Rightarrow> string list" where
  "toProto_LanguageList dm = map fst (language_packs dm)"

section \<open>Menus\<close>

text \<open>The messages have the fields of the classes.\<close>

definition menu_toProto :: "menu \<Rightarrow> menu \<Rightarrow> menu" where
  "menu_toProto self dst =
     \<lparr>m_name = PolyglotText_toProto (m_name dst) (m_name self), m_hidden = m_hidden self, m_disabled = m_disabled self,
      m_param_oids = m_param_oids self, m_command_oids = m_command_oids self,
      m_client_hints = put_all (m_client_hints self) []\<rparr>"

definition menu_default :: menu where
  "menu_default = \<lparr>m_name = [], m_hidden = False, m_disabled = False, m_param_oids = [], m_command_oids = [],
                   m_client_hints = []\<rparr>"

definition addMenu :: "string \<Rightarrow> menu option \<Rightarrow> menugroup \<Rightarrow> menugroup res" where
  "addMenu oid mn g =
     (case mn of
        None \<Rightarrow> Throw RuntimeError
      | Some x \<Rightarrow> if oid = [] then Throw RuntimeError else Ret (g\<lparr>mg_menus := map_insert oid x (mg_menus g)\<rparr>))"

definition menugroup_toProto :: "menugroup \<Rightarrow> menugroup \<Rightarrow> bool \<Rightarrow> menugroup" where
  "menugroup_toProto self dst shallow =
     \<lparr>mg_name = put_all (mg_name self) (mg_name dst),
      mg_menus = (if shallow then mg_menus dst
                  else fold (\<lambda>(oid, x) m. AList.update oid
                               (menu_toProto x (case map_of m oid of None \<Rightarrow> menu_default | Some y \<Rightarrow> y)) m)
                         (mg_menus self) (mg_menus dst))\<rparr>"

definition menugroup_default :: menugroup where
  "menugroup_default = \<lparr>mg_name = [], mg_menus = []\<rparr>"

section \<open>The device message\<close>

record pdevice =
  pdv_slot :: u32
  pdv_detail_level :: DetailLevel
  pdv_default_scope :: string
  pdv_multi_set_enabled :: bool
  pdv_subscriptions :: bool
  pdv_access_scopes :: "string list"
  pdv_params :: "(string \<times> pparam) list"
  pdv_commands :: "(string \<times> pparam) list"
  pdv_constraints :: "(string \<times> pconstraint) list"
  pdv_language_packs :: "(string \<times> lpack) list"
  pdv_menu_groups :: "(string \<times> menugroup) list"

definition pdevice_default :: pdevice where
  "pdevice_default =
     \<lparr>pdv_slot = 0, pdv_detail_level = FULL, pdv_default_scope = [], pdv_multi_set_enabled = False,
      pdv_subscriptions = False, pdv_access_scopes = [], pdv_params = [], pdv_commands = [], pdv_constraints = [],
      pdv_language_packs = [], pdv_menu_groups = []\<rparr>"

definition shouldSendParam :: "device \<Rightarrow> dref \<Rightarrow> bool \<Rightarrow> authorizer \<Rightarrow> bool" where
  "shouldSendParam dm d is_subscribed authz \<longleftrightarrow>
     readAuthz authz d \<and> detail_level dm \<noteq> NONE
     \<and> (detail_level dm = MINIMAL \<and> pd_minimal_set (node d)
        \<or> detail_level dm = FULL
        \<or> detail_level dm = SUBSCRIPTIONS \<and> (pd_minimal_set (node d) \<or> is_subscribed)
        \<or> detail_level dm = COMMANDS \<and> pd_isCommand (node d))"

text \<open>The helper that serialises a map of parameters; the status of each is ignored.\<close>

fun serializeParamCollection :: "device \<Rightarrow> (string \<Rightarrow> root) \<Rightarrow> (string \<times> devparam) list \<Rightarrow> authorizer
    \<Rightarrow> (string \<times> pparam) list \<Rightarrow> (string \<times> pparam) list res" where
  "serializeParamCollection dm rt [] authz dst = Ret dst"
| "serializeParamCollection dm rt ((name, item) # items) authz dst =
     (if shouldSendParam dm (top_dref dm item) True authz then
        res_bind (param_toProto (top_param dm (rt name) item) (dp_value item) pparam_default authz) (\<lambda>(_, dstParam).
        serializeParamCollection dm rt items authz (AList.update name dstParam dst))
      else serializeParamCollection dm rt items authz dst)"

definition device_toProto :: "device \<Rightarrow> pdevice \<Rightarrow> authorizer \<Rightarrow> bool \<Rightarrow> pdevice res" where
  "device_toProto dm dst authz shallow =
     (let dst1 = dst\<lparr>pdv_slot := slot dm, pdv_detail_level := detail_level dm,
                    pdv_default_scope := default_scope (cfg dm),
                    pdv_multi_set_enabled := multi_set_enabled dm, pdv_subscriptions := subscriptions dm\<rparr> in
      if shallow then Ret dst1
      else res_bind (serializeParamCollection dm RParam (params dm) authz []) (\<lambda>dstParams.
           res_bind (serializeParamCollection dm RCommand (commands dm) authz []) (\<lambda>dstCommands.
           let dst2 = dst1\<lparr>pdv_params := dstParams, pdv_commands := dstCommands\<rparr> in
           if detail_level dm = MINIMAL then Ret dst2
           else Ret (dst2\<lparr>pdv_constraints :=
                            fold (\<lambda>(n, c). AList.update n (constraint_toProto c pconstraint_default)) (constraints dm) [],
                          pdv_language_packs :=
                            fold (\<lambda>(n, p). map_insert n (lpack_toProto p lpack_default)) (language_packs dm) [],
                          pdv_menu_groups :=
                            fold (\<lambda>(n, g). AList.update n (menugroup_toProto g menugroup_default False)) (menu_groups dm) []\<rparr>))))"

section \<open>The component serializer\<close>

datatype component =
    CDevice pdevice
  | CMenu string menu
  | CLanguagePack string lpack
  | CSharedConstraint string pconstraint
  | CCommand string pparam
  | CParam string pparam
  | CEmpty

definition first_component :: "device \<Rightarrow> component" where
  "first_component dm =
     CDevice (pdevice_default\<lparr>pdv_slot := slot dm, pdv_detail_level := detail_level dm,
        pdv_default_scope := default_scope (cfg dm), pdv_multi_set_enabled := multi_set_enabled dm,
        pdv_subscriptions := subscriptions dm, pdv_access_scopes := access_scopes dm,
        pdv_menu_groups := fold (\<lambda>(n, g). map_insert n (menugroup_toProto g menugroup_default True)) (menu_groups dm) []\<rparr>)"

definition menu_components :: "device \<Rightarrow> component list" where
  "menu_components dm =
     concat (map (\<lambda>(groupName, g). map (\<lambda>(name, x). CMenu (groupName @ ''/'' @ name) (menu_toProto x menu_default))
                    (mg_menus g)) (menu_groups dm))"

definition lpack_components :: "device \<Rightarrow> component list" where
  "lpack_components dm = map (\<lambda>(l, p). CLanguagePack l (lpack_toProto p lpack_default)) (language_packs dm)"

definition constraint_components :: "device \<Rightarrow> component list" where
  "constraint_components dm =
     map (\<lambda>(n, c). CSharedConstraint n (constraint_toProto c pconstraint_default)) (constraints dm)"

definition param_component :: "device \<Rightarrow> (string \<Rightarrow> root) \<Rightarrow> (string \<Rightarrow> pparam \<Rightarrow> component) \<Rightarrow> string \<times> devparam
    \<Rightarrow> authorizer \<Rightarrow> component res" where
  "param_component dm rt con entry authz =
     res_bind (param_toProto (top_param dm (rt (fst entry)) (snd entry)) (dp_value (snd entry)) pparam_default authz)
       (\<lambda>(_, dstParam). Ret (con (fst entry) dstParam))"

definition send_command :: "device \<Rightarrow> string \<times> devparam \<Rightarrow> authorizer \<Rightarrow> bool" where
  "send_command dm entry authz \<longleftrightarrow> readAuthz authz (top_dref dm (snd entry))"

definition send_param :: "device \<Rightarrow> string set \<Rightarrow> DetailLevel \<Rightarrow> string \<times> devparam \<Rightarrow> authorizer \<Rightarrow> bool" where
  "send_param dm subscribedOids dl entry authz \<longleftrightarrow>
     readAuthz authz (top_dref dm (snd entry))
     \<and> (dl = FULL \<or> pd_minimal_set (dinfo_of (dp_desc (snd entry)))
        \<or> (dl = SUBSCRIPTIONS \<and> CHR ''/'' # fst entry \<in> subscribedOids))"

text \<open>What the coroutine yields, in order; the last component is its return value.\<close>

definition getDeviceSerializer :: "device \<Rightarrow> authorizer \<Rightarrow> string set \<Rightarrow> DetailLevel \<Rightarrow> component res list" where
  "getDeviceSerializer dm authz subscribedOids dl =
     Ret (first_component dm) #
     (if dl = NONE then []
      else (if dl = FULL then map Ret (menu_components dm @ lpack_components dm @ constraint_components dm) else [])
         @ (if dl = FULL \<or> dl = COMMANDS
            then map (\<lambda>e. param_component dm RCommand CCommand e authz)
                   (filter (\<lambda>e. send_command dm e authz) (commands dm))
            else [])
         @ (if dl \<noteq> COMMANDS
            then map (\<lambda>e. param_component dm RParam CParam e authz)
                   (filter (\<lambda>e. send_param dm subscribedOids dl e authz) (params dm))
            else []))"

definition getComponentSerializer :: "device \<Rightarrow> authorizer \<Rightarrow> string set \<Rightarrow> DetailLevel \<Rightarrow> component res list res" where
  "getComponentSerializer dm authz subscribedOids dl =
     (if dl = SUBSCRIPTIONS \<and> \<not> subscriptions dm then Throw (ExceptionWithStatus INVALID_ARGUMENT)
      else Ret (getDeviceSerializer dm authz subscribedOids dl))"

definition hasMore :: "component res list \<Rightarrow> bool" where
  "hasMore ser \<longleftrightarrow> ser \<noteq> []"

text \<open>An exception ends the coroutine; a finished one hands out an empty component.\<close>

fun getNext :: "component res list \<Rightarrow> component res \<times> component res list" where
  "getNext [] = (Ret CEmpty, [])"
| "getNext (Ret c # ser) = (Ret c, ser)"
| "getNext (Throw e # ser) = (Throw e, [])"
| "getNext (Undef # ser) = (Undef, [])"

section \<open>Heartbeat\<close>

definition sendHeartbeat :: "device \<Rightarrow> device res" where
  "sendHeartbeat dm =
     res_bind (getParam_fqoid dm (heartbeatParam dm) UNKNOWN kAuthzDisabled) (\<lambda>(param, err).
     case param of
       None \<Rightarrow> Throw (ExceptionWithStatus err)
     | Some p \<Rightarrow> res_bind (deref dm p) (\<lambda>v. Ret (emit (ValueSetByServer (heartbeatParam dm) p v) dm)))"

section \<open>Serialisation always returns\<close>

lemma to_fields_total:
  assumes "list_all2 (\<lambda>(n, wr) v. \<exists>sub. getSubParam d n = Ret sub \<and> (\<forall>dst. \<exists>rc x. wr dst v sub a = Ret (rc, x))) fs vs"
  shows "\<exists>rc' sf. to_fields fs vs dst rc d a = Ret (rc', sf)"
  using assms
proof (induction fs vs arbitrary: dst rc rule: list_all2_induct)
  case (Cons f fs v vs)
  obtain n wr where f: "f = (n, wr)" by (cases f)
  with Cons obtain sub where sub: "getSubParam d n = Ret sub" "\<And>dst. \<exists>rc x. wr dst v sub a = Ret (rc, x)" by auto
  obtain rc1 x where "wr (case map_of dst n of None \<Rightarrow> KindNotSet | Some y \<Rightarrow> y) v sub a = Ret (rc1, x)"
    using sub(2) by blast
  with f sub(1) Cons.IH show ?case by simp
qed simp

lemma to_struct_loop_total:
  "\<forall>v \<in> set vs. \<forall>dst. \<exists>rc x. elem dst v d a = Ret (rc, x) \<Longrightarrow> \<exists>rc x. to_struct_loop elem vs dst d a = Ret (rc, x)"
proof (induction vs arbitrary: dst)
  case (Cons v vs)
  then obtain rc x where "elem KindNotSet v d a = Ret (rc, x)" by fastforce
  with Cons show ?case by auto
qed simp

lemma to_variant_loop_total:
  "\<forall>v \<in> set vs. \<forall>dst. \<exists>rc x. elem dst v d a = Ret (rc, x) \<Longrightarrow> \<exists>rc x. to_variant_loop elem vs dst d a = Ret (rc, x)"
proof (induction vs arbitrary: dst)
  case (Cons v vs)
  then obtain rc x where "elem KindNotSet v d a = Ret (rc, x)" by fastforce
  with Cons show ?case by (auto simp: Let_def)
qed simp

lemma vec_total:
  "list_all (has_type TInt) vs \<Longrightarrow> \<exists>xs. vec_ints vs = Ret xs"
  "list_all (has_type TFloat) vs \<Longrightarrow> \<exists>xs. vec_floats vs = Ret xs"
  "list_all (has_type TString) vs \<Longrightarrow> \<exists>xs. vec_strings vs = Ret xs"
proof -
  show "list_all (has_type TInt) vs \<Longrightarrow> \<exists>xs. vec_ints vs = Ret xs"
    by (induction vs) (auto split: cval.splits)
  show "list_all (has_type TFloat) vs \<Longrightarrow> \<exists>xs. vec_floats vs = Ret xs"
    by (induction vs) (auto split: cval.splits)
  show "list_all (has_type TString) vs \<Longrightarrow> \<exists>xs. vec_strings vs = Ret xs"
    by (induction vs) (auto split: cval.splits)
qed

lemma to_vec_total:
  assumes "\<And>v dst. v \<in> set vs \<Longrightarrow> \<exists>rc x. toProto t dst v d a = Ret (rc, x)"
    and "wf_ctype (TVec t)" "list_all (has_type t) vs"
  shows "\<exists>rc x. to_vec t (toProto t) dst (VVec vs) d a = Ret (rc, x)"
proof (cases t)
  case TInt
  then show ?thesis using vec_total(1) [of vs] assms(3) by (auto simp: to_vec_def to_int32_array_def)
next
  case TFloat
  then show ?thesis using vec_total(2) [of vs] assms(3) by (auto simp: to_vec_def to_float32_array_def)
next
  case TString
  then show ?thesis using vec_total(3) [of vs] assms(3) by (auto simp: to_vec_def to_string_array_def)
next
  case (TStruct fs)
  obtain rc x where "to_struct_loop (toProto t) vs [] d a = Ret (rc, x)"
    using to_struct_loop_total [of vs "toProto t" d a] assms(1) by blast
  with TStruct show ?thesis by (simp add: to_vec_def to_struct_array_def)
next
  case (TVariant fs)
  obtain rc x where "to_variant_loop (toProto t) vs (clear_when has_struct_variant_array_values dst) d a = Ret (rc, x)"
    using to_variant_loop_total [of vs "toProto t" d a] assms(1) by blast
  with TVariant show ?thesis by (simp add: to_vec_def to_variant_array_def)
qed (use assms(2) in auto)

lemma to_total:
  "wf_ctype t \<Longrightarrow> has_type t v \<Longrightarrow> describes t (hd (chain d)) \<Longrightarrow> \<exists>rc x. toProto t dst v d a = Ret (rc, x)"
proof (induction t arbitrary: v d dst rule: ctype_induct)
  case (TStruct fs)
  then obtain vs where v: "v = VStruct vs" "list_all2 (\<lambda>(n, t). has_type t) fs vs" by (auto simp: has_type_struct)
  have "list_all2 (\<lambda>(n, wr) v. \<exists>sub. getSubParam d n = Ret sub \<and> (\<forall>dst. \<exists>rc x. wr dst v sub a = Ret (rc, x)))
          (members toProto fs) vs"
    unfolding members_def list_all2_map1
  proof (rule list.rel_mono_strong [OF v(2)], clarsimp)
    fix n t w
    assume m: "(n, t) \<in> set fs" and w: "has_type t w"
    from describes_struct_sub [OF TStruct.prems(3) m] obtain sub where
      "getSubParam d n = Ret sub" "describes t (hd (chain sub))" by blast
    moreover have "wf_ctype t" using TStruct.prems(1) m wf_ctype_members(1) by fastforce
    ultimately show "\<exists>sub. getSubParam d n = Ret sub \<and> (\<forall>dst. \<exists>rc x. toProto t dst w sub a = Ret (rc, x))"
      using TStruct.IH [OF m _ w] by blast
  qed
  from to_fields_total [OF this, of "[]" OK] v(1) show ?case by (auto simp: to_struct_def)
next
  case (TVariant alts)
  then obtain i x where v: "v = VVariant i x" "i < length alts" "has_type (snd (alts ! i)) x"
    by (auto simp: has_type_variant)
  note m = alt_member [OF v(2)]
  from describes_variant_sub [OF TVariant.prems(3) m] obtain sub where
    sub: "getSubParam d (fst (alts ! i)) = Ret sub" "describes (snd (alts ! i)) (hd (chain sub))" by blast
  have "wf_ctype (snd (alts ! i))" using TVariant.prems(1) m wf_ctype_members(2) by fastforce
  with TVariant.IH [OF m _ v(3) sub(2)] obtain rc y where "toProto (snd (alts ! i)) KindNotSet x sub a = Ret (rc, y)" by blast
  with sub(1) v(1,2) show ?case by (simp add: to_variant_def Let_def)
next
  case (TVec t)
  then obtain vs where v: "v = VVec vs" "list_all (has_type t) vs" by (auto simp: has_type_vec)
  have "\<exists>rc x. to_vec t (toProto t) dst (VVec vs) d a = Ret (rc, x)"
    using TVec v by (intro to_vec_total) (auto simp: list_all_iff)
  with v(1) show ?case by simp
qed (auto simp: to_int32_def to_float32_def to_string_def split: cval.splits)

section \<open>The calls that change a device\<close>

inductive device_step :: "device \<Rightarrow> device \<Rightarrow> bool" where
  step_set: "setValue dm oid pv a = Ret (dm', st) \<Longrightarrow> device_step dm dm'"
| step_commit: "commitMultiSetValue dm src a = Ret (dm', st) \<Longrightarrow> device_step dm dm'"
| step_add: "addLanguage dm ident pack a = (dm', st) \<Longrightarrow> device_step dm dm'"
| step_remove: "removeLanguage dm ident a = (dm', st) \<Longrightarrow> device_step dm dm'"
| step_heartbeat: "sendHeartbeat dm = Ret dm' \<Longrightarrow> device_step dm dm'"

text \<open>The type and the descriptor of a parameter, and the packs the device was built with.\<close>

definition param_sig :: "device \<Rightarrow> string \<Rightarrow> (ctype \<times> pdesc) option" where
  "param_sig dm k = map_option (\<lambda>i. (dp_ctype i, dp_desc i)) (map_of (params dm) k)"

definition shipped_pack :: "device \<Rightarrow> string \<Rightarrow> lpack option" where
  "shipped_pack dm k = (if k \<in> set (added_packs dm) then None else map_of (language_packs dm) k)"

definition keeps_model :: "device \<Rightarrow> device \<Rightarrow> bool" where
  "keeps_model dm dm' \<longleftrightarrow>
     param_sig dm' = param_sig dm \<and> shipped_pack dm' = shipped_pack dm
     \<and> (slot dm', detail_level dm', access_scopes dm', cfg dm', multi_set_enabled dm', subscriptions dm')
       = (slot dm, detail_level dm, access_scopes dm, cfg dm, multi_set_enabled dm, subscriptions dm)
     \<and> (commands dm', constraints dm', menu_groups dm', heartbeatParam dm')
       = (commands dm, constraints dm, menu_groups dm, heartbeatParam dm)"

lemma keeps_model_refl [simp]: "keeps_model dm dm"
  by (simp add: keeps_model_def)

lemma keeps_model_trans: "keeps_model dm dm' \<Longrightarrow> keeps_model dm' dm'' \<Longrightarrow> keeps_model dm dm''"
  by (simp add: keeps_model_def)

lemma shipped_pack_cong:
  "language_packs dm' = language_packs dm \<Longrightarrow> added_packs dm' = added_packs dm \<Longrightarrow> shipped_pack dm' = shipped_pack dm"
  by (auto simp: shipped_pack_def)

lemma param_sig_cong: "params dm' = params dm \<Longrightarrow> param_sig dm' = param_sig dm"
  by (auto simp: param_sig_def)

lemma sig_emit [simp]: "shipped_pack (emit e dm) = shipped_pack dm" "param_sig (emit e dm) = param_sig dm"
  by (intro shipped_pack_cong param_sig_cong; simp add: emit_def)+

lemma keeps_model_emit [simp]: "keeps_model dm (emit e dm') = keeps_model dm dm'"
  by (simp add: keeps_model_def) (simp add: emit_def)

lemma param_sig_assign: "p_root p = RParam k \<Longrightarrow> param_sig (assign dm p v) = param_sig dm"
  by (auto simp: param_sig_def assign_def update_conv' fun_eq_iff split: option.split)

lemma keeps_model_same_but:
  "same_but ks dm dm' \<Longrightarrow> param_sig dm' = param_sig dm \<Longrightarrow> keeps_model dm dm'"
  using shipped_pack_cong [of dm' dm] unfolding same_but_def keeps_model_def by (cases dm, cases dm') simp

lemma commit_target_sig:
  assumes "device_ok dm" "commit_target dm path st a = Ret (q, dm1)"
  shows "param_sig dm1 = param_sig dm"
proof (cases "back_is_index path \<and> back_as_index path = kEnd")
  case True
  from getParam_live [OF assms(1), of "path_popBack path" st a] True assms(2) obtain p path' v where
    g: "getParam dm (path_popBack path) st a = Ret (Some p, st, path')" "live dm p v"
    by (auto simp: commit_target_def split: option.splits)
  with True assms(2) live_deref [OF g(2)] obtain v' where "dm1 = assign dm p v'"
    by (auto simp: commit_target_def res_simps split: option.splits)
  with getParam_root [OF assms(1) g(1)] show ?thesis by (simp add: param_sig_assign)
next
  case False
  with assms(2) have "dm1 = dm" by (auto simp: commit_target_def res_simps split: if_splits option.splits)
  then show ?thesis by simp
qed

lemma commit_one_keeps:
  assumes "device_ok dm" "commit_one dm pl st a = Ret (dm', rc)"
  shows "keeps_model dm dm'"
proof -
  from assms(2) obtain path q dm1 old new where
    c: "commit_target dm path st a = Ret (q, dm1)"
    "dm' = emit (ValueSetByClient (fst pl) q new) (assign dm1 q new)"
    by (auto simp: commit_one_def res_simps)
  from commit_target_root [OF assms(1) c(1)] have "param_sig (assign dm1 q new) = param_sig dm"
    using commit_target_sig [OF assms(1) c(1)] by (simp add: param_sig_assign)
  then have "param_sig dm' = param_sig dm" unfolding c(2) by (simp add: param_sig_def [abs_def])
  with commit_one_frame [OF assms] show ?thesis by (blast intro: keeps_model_same_but)
qed

lemma commit_loop_keeps:
  "device_ok dm \<Longrightarrow> commit_loop dm pls st a = Ret (dm', rc) \<Longrightarrow> keeps_model dm dm'"
proof (induction pls arbitrary: dm st)
  case (Cons pl pls)
  show ?case
  proof (cases "commit_one dm pl st a")
    case (Ret r)
    obtain dm1 rc1 where r: "r = (dm1, rc1)" by (cases r)
    note f = commit_one_frame [OF Cons.prems(1) Ret [unfolded r]]
    note k = commit_one_keeps [OF Cons.prems(1) Ret [unfolded r]]
    have "keeps_model dm1 dm'" using Cons.IH [of dm1 rc1] Cons.prems(2) Ret r f by simp
    with k show ?thesis by (rule keeps_model_trans)
  next
    case (Throw e)
    with Cons.prems show ?thesis by (cases e) auto
  qed (use Cons.prems in auto)
qed simp

lemma setValue_keeps:
  assumes "device_ok dm" "setValue dm oid pv a = Ret (dm', st)"
  shows "device_ok dm' \<and> keeps_model dm dm'"
proof -
  from assms(2) have "dm' = dm \<or> commit_loop dm [(oid, pv)] OK a = Ret (dm', st)"
    by (auto simp: setValue_def commitMultiSetValue_def res_simps simp del: commit_loop.simps split: if_splits)
  with assms(1) show ?thesis using commit_loop_frame commit_loop_keeps keeps_model_refl by metis
qed

lemma addLanguage_keeps:
  assumes "device_ok dm" "addLanguage dm ident pack a = (dm', st)"
  shows "device_ok dm' \<and> keeps_model dm dm'"
proof (cases "dm' = dm")
  case False
  with assms(2) obtain ps where
    "dm' = emit (LanguageAdded (lpack_fromProto pack ps))
       (dm\<lparr>added_packs := List.insert ident (added_packs dm),
           language_packs := AList.update ident (lpack_fromProto pack ps)
             (AList.update ident \<lparr>lp_name = lp_name pack, lp_words = []\<rparr> (language_packs dm))\<rparr>)"
    "map_of (language_packs dm) ident = None \<or> ident \<in> set (added_packs dm)"
    by (auto simp: addLanguage_def LanguagePack_def addItem_lpack_def put_all_def Let_def split: if_splits)
  with assms(1) show ?thesis
    by (auto simp: keeps_model_def param_sig_def shipped_pack_def fun_eq_iff update_conv' device_ok_def emit_def)
qed (use assms in simp)

lemma removeLanguage_keeps:
  assumes "device_ok dm" "removeLanguage dm ident a = (dm', st)"
  shows "device_ok dm' \<and> keeps_model dm dm'"
  using assms
  by (auto simp: removeLanguage_def keeps_model_def param_sig_def shipped_pack_def fun_eq_iff delete_conv'
        device_ok_def split: if_splits)

lemma sendHeartbeat_keeps:
  assumes "device_ok dm" "sendHeartbeat dm = Ret dm'"
  shows "device_ok dm' \<and> keeps_model dm dm'"
  using assms by (auto simp: sendHeartbeat_def res_simps split: option.splits)

lemma device_step_keeps: "device_step dm dm' \<Longrightarrow> device_ok dm \<Longrightarrow> device_ok dm' \<and> keeps_model dm dm'"
proof (induction rule: device_step.induct)
  case (step_commit dm src a dm' st)
  then show ?case using commit_loop_frame commit_loop_keeps unfolding commitMultiSetValue_def by metis
qed (auto intro: setValue_keeps addLanguage_keeps removeLanguage_keeps sendHeartbeat_keeps
       dest: setValue_keeps addLanguage_keeps removeLanguage_keeps sendHeartbeat_keeps)

lemma device_steps_keep: "device_step\<^sup>*\<^sup>* dm dm' \<Longrightarrow> device_ok dm \<Longrightarrow> device_ok dm' \<and> keeps_model dm dm'"
  by (induction rule: rtranclp_induct) (auto dest: device_step_keeps intro: keeps_model_trans)

section \<open>Components\<close>

lemma param_toProto_total:
  assumes "handle_ok p v"
  shows "\<exists>rc x. param_toProto p v dst a = Ret (rc, x)"
proof -
  obtain rc x where "param_toProto_value p v (case pp_value dst of None \<Rightarrow> KindNotSet | Some y \<Rightarrow> y) a = Ret (rc, x)"
    using to_total assms unfolding param_toProto_value_def handle_ok_def by blast
  then show ?thesis by (simp add: param_toProto_def)
qed

text \<open>The commands of a device are well formed in the same way as its parameters.\<close>

definition commands_ok :: "device \<Rightarrow> bool" where
  "commands_ok dm \<longleftrightarrow> list_all (\<lambda>(k, item). item_ok item) (commands dm)"

lemma param_component_total:
  assumes "item_ok (snd e)"
  shows "\<exists>x. param_component dm rt con e a = Ret (con (fst e) x)"
proof -
  have "handle_ok (top_param dm (rt (fst e)) (snd e)) (dp_value (snd e))"
    using assms by (simp add: item_ok_def handle_ok_def top_param_def top_dref_def)
  from param_toProto_total [OF this] obtain rc x where
    "param_toProto (top_param dm (rt (fst e)) (snd e)) (dp_value (snd e)) pparam_default a = Ret (rc, x)" by blast
  then show ?thesis by (auto simp: param_component_def)
qed

fun sent_param :: "component res \<Rightarrow> string option" where
  "sent_param (Ret (CParam n x)) = Some n"
| "sent_param _ = None"

fun sent_command :: "component res \<Rightarrow> string option" where
  "sent_command (Ret (CCommand n x)) = Some n"
| "sent_command _ = None"

lemma sent_other:
  "sent_param (Ret (first_component dm)) = None" "sent_command (Ret (first_component dm)) = None"
  "List.map_filter sent_param (map Ret (menu_components dm)) = []" "List.map_filter sent_command (map Ret (menu_components dm)) = []"
  "List.map_filter sent_param (map Ret (lpack_components dm)) = []" "List.map_filter sent_command (map Ret (lpack_components dm)) = []"
  "List.map_filter sent_param (map Ret (constraint_components dm)) = []"
  "List.map_filter sent_command (map Ret (constraint_components dm)) = []"
  by (auto simp: first_component_def map_filter_def menu_components_def lpack_components_def
        constraint_components_def filter_empty_conv split: option.splits)

lemma map_filter_Some: "(\<And>x. x \<in> set xs \<Longrightarrow> f x = Some (g x)) \<Longrightarrow> List.map_filter f xs = map g xs"
  by (induction xs) (auto simp: List.map_filter_simps)

lemma map_filter_None: "(\<And>x. x \<in> set xs \<Longrightarrow> f x = None) \<Longrightarrow> List.map_filter f xs = []"
  by (induction xs) (auto simp: List.map_filter_simps)

lemma map_filter_append: "List.map_filter f (xs @ ys) = List.map_filter f xs @ List.map_filter f ys"
  by (simp add: map_filter_def)

lemma sent_components:
  assumes "\<forall>e \<in> set es. item_ok (snd e)"
  shows "List.map_filter sent_param (map (\<lambda>e. param_component dm RParam CParam e a) es) = map fst es"
    and "List.map_filter sent_command (map (\<lambda>e. param_component dm RParam CParam e a) es) = []"
    and "List.map_filter sent_command (map (\<lambda>e. param_component dm RCommand CCommand e a) es) = map fst es"
    and "List.map_filter sent_param (map (\<lambda>e. param_component dm RCommand CCommand e a) es) = []"
proof -
  have *: "List.map_filter f (map g xs) = List.map_filter (f \<circ> g) xs" for f :: "component res \<Rightarrow> string option" and g :: "string \<times> devparam \<Rightarrow> component res" and xs
    by (induction xs) (auto simp: List.map_filter_simps split: option.split)
  have tot: "\<exists>x. param_component dm rt con e a = Ret (con (fst e) x)" if "e \<in> set es" for e rt con
    using assms that param_component_total by blast
  show "List.map_filter sent_param (map (\<lambda>e. param_component dm RParam CParam e a) es) = map fst es"
    unfolding * using tot [of _ RParam CParam] by (intro map_filter_Some) fastforce
  show "List.map_filter sent_command (map (\<lambda>e. param_component dm RCommand CCommand e a) es) = map fst es"
    unfolding * using tot [of _ RCommand CCommand] by (intro map_filter_Some) fastforce
  show "List.map_filter sent_command (map (\<lambda>e. param_component dm RParam CParam e a) es) = []"
    unfolding * using tot [of _ RParam CParam] by (intro map_filter_None) fastforce
  show "List.map_filter sent_param (map (\<lambda>e. param_component dm RCommand CCommand e a) es) = []"
    unfolding * using tot [of _ RCommand CCommand] by (intro map_filter_None) fastforce
qed

text \<open>Draining a serializer: call \<^verbatim>\<open>getNext\<close> while \<^verbatim>\<open>hasMore\<close>.\<close>

fun drain :: "nat \<Rightarrow> component res list \<Rightarrow> component res list" where
  "drain 0 ser = []"
| "drain (Suc n) ser = (if hasMore ser then fst (getNext ser) # drain n (snd (getNext ser)) else [])"

lemma drain_all: "list_all is_ret ser \<Longrightarrow> length ser \<le> n \<Longrightarrow> drain n ser = ser"
proof (induction ser arbitrary: n)
  case (Cons c ser)
  then obtain m where "n = Suc m" by (cases n) auto
  with Cons show ?case by (cases c) (auto simp: hasMore_def)
next
  case Nil
  then show ?case by (cases n) (auto simp: hasMore_def)
qed

lemma serializer_returns:
  assumes "device_ok dm" "commands_ok dm"
  shows "list_all is_ret (getDeviceSerializer dm a oids dl)"
proof -
  have r: "is_ret (param_component dm rt con e a)" if "item_ok (snd e)" for rt con e
    using param_component_total [OF that] by (metis is_ret.simps(1))
  from assms have "\<forall>e \<in> set (params dm). item_ok (snd e)" "\<forall>e \<in> set (commands dm). item_ok (snd e)"
    by (auto simp: device_ok_def commands_ok_def list_all_iff)
  with r show ?thesis by (auto simp: getDeviceSerializer_def list_all_iff)
qed

section \<open>Properties\<close>

text \<open>
  C3: whatever sequence of set, commit, language and heartbeat calls a device receives, from
  whatever clients, its parameters stay well typed, the types and descriptors of its parameters,
  its commands, constraints, menus and settings never change, and the language packs it was
  shipped with are neither changed nor removed.
\<close>

theorem device_calls_keep_model:
  assumes "device_ok dm" "device_step\<^sup>*\<^sup>* dm dm'"
  shows "device_ok dm' \<and> param_sig dm' = param_sig dm \<and> shipped_pack dm' = shipped_pack dm
     \<and> commands dm' = commands dm \<and> constraints dm' = constraints dm \<and> menu_groups dm' = menu_groups dm
     \<and> cfg dm' = cfg dm \<and> multi_set_enabled dm' = multi_set_enabled dm"
  using device_steps_keep [OF assms(2,1)] by (simp add: keeps_model_def)

theorem device_calls_keep_model_witness:
  "\<exists>dm'. device_step\<^sup>*\<^sup>* ex_device dm' \<and> map_of (language_packs dm') ''es'' \<noteq> None
     \<and> device_ok dm' \<and> shipped_pack dm' = shipped_pack ex_device"
proof -
  let ?pack = "\<lparr>lp_name = ''Spanish'', lp_words = [(''hi'', ''hola'')]\<rparr>"
  obtain dm' st where a: "addLanguage ex_device ''es'' ?pack kAuthzDisabled = (dm', st)" by fastforce
  have "map_of (language_packs (fst (addLanguage ex_device ''es'' ?pack kAuthzDisabled))) ''es'' \<noteq> None" by code_simp
  moreover have "device_step\<^sup>*\<^sup>* ex_device dm'" using step_add [OF a] by blast
  ultimately show ?thesis
    using device_calls_keep_model [OF ex_device_ok(1), of dm'] a by auto
qed

lemma put_all_Cons: "put_all ((k, v) # src) dst = put_all src (AList.update k v dst)"
  by (simp add: put_all_def)

lemma put_all_map: "distinct (map fst src) \<Longrightarrow> map_of (put_all src dst) = map_of dst ++ map_of src"
proof (induction src arbitrary: dst)
  case (Cons x src)
  obtain k v where x: "x = (k, v)" by (cases x)
  have "map_of src k = None" using Cons.prems x by (auto simp: map_of_eq_None_iff)
  with Cons x show ?case
    by (auto simp: put_all_Cons update_conv' map_add_def fun_eq_iff split: option.split)
qed (simp add: put_all_def)

lemma distinct_put_all: "distinct (map fst dst) \<Longrightarrow> distinct (map fst (put_all src dst))"
  by (induction src arbitrary: dst) (auto simp: put_all_def distinct_update split_def)

text \<open>
  a language pack that was added can be fetched under its id, with its name and its words,
  and once it is removed it is not found.
\<close>

theorem language_pack_lifecycle:
  assumes "addLanguage dm ident pack a = (dm1, OK)" "distinct (map fst (lp_words pack))"
    and "removeLanguage dm1 ident b = (dm2, OK)"
  shows "fst (getLanguagePack dm1 ident c) = OK
     \<and> lp_name (clp_pack (snd (getLanguagePack dm1 ident c))) = lp_name pack
     \<and> map_of (lp_words (clp_pack (snd (getLanguagePack dm1 ident \<lparr>clp_language = [], clp_pack = lpack_default\<rparr>))))
       = map_of (lp_words pack)
     \<and> fst (getLanguagePack dm2 ident c) = NOT_FOUND"
proof -
  from assms(1) have i: "ident \<noteq> []" "map_of (language_packs dm1) ident
      = Some \<lparr>lp_name = lp_name pack, lp_words = put_all (lp_words pack) []\<rparr>"
    by (auto simp: addLanguage_def LanguagePack_def addItem_lpack_def lpack_fromProto_def Let_def emit_def
        update_conv' put_all_def split: if_splits)
  moreover have "map_of (language_packs dm2) ident = None"
    using assms(3) by (auto simp: removeLanguage_def delete_conv' split: if_splits)
  moreover have "map_of (put_all (put_all (lp_words pack) []) []) = map_of (lp_words pack)"
    using assms(2) by (simp add: put_all_map distinct_put_all)
  ultimately show ?thesis
    by (simp add: getLanguagePack_def lpack_toProto_def lpack_default_def)
qed

theorem language_pack_lifecycle_witness:
  "\<exists>dm1 dm2. removeLanguage dm1 ''es'' kAuthzDisabled = (dm2, OK)
     \<and> fst (getLanguagePack dm2 ''es'' \<lparr>clp_language = [], clp_pack = lpack_default\<rparr>) = NOT_FOUND"
proof -
  let ?pack = "\<lparr>lp_name = ''Spanish'', lp_words = [(''hi'', ''hola'')]\<rparr>"
  let ?dm1 = "fst (addLanguage ex_device ''es'' ?pack kAuthzDisabled)"
  let ?dm2 = "fst (removeLanguage ?dm1 ''es'' kAuthzDisabled)"
  have "snd (addLanguage ex_device ''es'' ?pack kAuthzDisabled) = OK" by code_simp
  then have a: "addLanguage ex_device ''es'' ?pack kAuthzDisabled = (?dm1, OK)" by (metis prod.collapse)
  have "snd (removeLanguage ?dm1 ''es'' kAuthzDisabled) = OK" by code_simp
  then have r: "removeLanguage ?dm1 ''es'' kAuthzDisabled = (?dm2, OK)" by (metis prod.collapse)
  from language_pack_lifecycle [OF a _ r] r show ?thesis by auto
qed

text \<open>
  C13: the component serializer sends, in order and without failing, exactly the top-level
  parameters the client may read and the detail level asks for: all of them in \<^verbatim>\<open>FULL\<close>, the
  minimal set and, with subscriptions, the subscribed ones otherwise, none in \<^verbatim>\<open>NONE\<close> and
  \<^verbatim>\<open>COMMANDS\<close>; and exactly the readable commands in \<^verbatim>\<open>FULL\<close> and \<^verbatim>\<open>COMMANDS\<close>. Draining it with
  \<^verbatim>\<open>hasMore\<close> and \<^verbatim>\<open>getNext\<close> ends and hands out every component.
\<close>

theorem serializer_sends_exactly:
  assumes "device_ok dm" "commands_ok dm" "getComponentSerializer dm a oids dl = Ret ser"
  shows "drain (length ser) ser = ser \<and> list_all is_ret ser
     \<and> List.map_filter sent_param ser
       = map fst (filter (\<lambda>(n, item). dl \<noteq> NONE \<and> dl \<noteq> COMMANDS \<and> readAuthz a (top_dref dm item)
            \<and> (dl = FULL \<or> pd_minimal_set (dinfo_of (dp_desc item)) \<or> dl = SUBSCRIPTIONS \<and> CHR ''/'' # n \<in> oids)) (params dm))
     \<and> List.map_filter sent_command ser
       = map fst (filter (\<lambda>(n, item). (dl = FULL \<or> dl = COMMANDS) \<and> readAuthz a (top_dref dm item)) (commands dm))"
proof -
  from assms(3) have ser: "ser = getDeviceSerializer dm a oids dl"
    by (auto simp: getComponentSerializer_def split: if_splits)
  have ok: "\<forall>e \<in> set (filter P (params dm)). item_ok (snd e)" "\<forall>e \<in> set (filter P (commands dm)). item_ok (snd e)" for P
    using assms(1,2) by (auto simp: device_ok_def commands_ok_def list_all_iff)
  note parts = sent_components [OF ok(1)] sent_components [OF ok(2)]
  have "List.map_filter sent_param ser
       = map fst (filter (\<lambda>(n, item). dl \<noteq> NONE \<and> dl \<noteq> COMMANDS \<and> readAuthz a (top_dref dm item)
            \<and> (dl = FULL \<or> pd_minimal_set (dinfo_of (dp_desc item)) \<or> dl = SUBSCRIPTIONS \<and> CHR ''/'' # n \<in> oids)) (params dm))"
    unfolding ser getDeviceSerializer_def
    by (cases dl) (auto simp: map_filter_append List.map_filter_simps sent_other parts send_param_def intro!: arg_cong [of _ _ "map fst"] filter_cong)
  moreover have "List.map_filter sent_command ser
       = map fst (filter (\<lambda>(n, item). (dl = FULL \<or> dl = COMMANDS) \<and> readAuthz a (top_dref dm item)) (commands dm))"
    unfolding ser getDeviceSerializer_def
    by (cases dl) (auto simp: map_filter_append List.map_filter_simps sent_other parts send_command_def intro!: arg_cong [of _ _ "map fst"] filter_cong)
  moreover have ret: "list_all is_ret ser" unfolding ser by (rule serializer_returns [OF assms(1,2)])
  ultimately show ?thesis using drain_all [OF ret] by simp
qed

theorem serializer_sends_exactly_witness:
  "\<exists>ser. getComponentSerializer ex_device kAuthzDisabled {''/tags''} SUBSCRIPTIONS = Ret ser
     \<and> List.map_filter sent_param ser = [''tags'']"
proof -
  have c: "commands_ok ex_device" by code_simp
  have s: "getComponentSerializer ex_device kAuthzDisabled {''/tags''} SUBSCRIPTIONS
      = Ret (getDeviceSerializer ex_device kAuthzDisabled {''/tags''} SUBSCRIPTIONS)"
    by (simp add: getComponentSerializer_def ex_device_def addItem_param_def Device_def)
  have f: "map fst (filter (\<lambda>(n, item). SUBSCRIPTIONS \<noteq> NONE \<and> SUBSCRIPTIONS \<noteq> COMMANDS
         \<and> readAuthz kAuthzDisabled (top_dref ex_device item)
         \<and> (SUBSCRIPTIONS = FULL \<or> pd_minimal_set (dinfo_of (dp_desc item))
            \<or> SUBSCRIPTIONS = SUBSCRIPTIONS \<and> CHR ''/'' # n \<in> {''/tags''})) (params ex_device)) = [''tags'']" by code_simp
  from serializer_sends_exactly [OF ex_device_ok(1) c s] s f show ?thesis by simp
qed

text \<open>\<^verbatim>\<open>getValue\<close> always returns a status.\<close>

lemma getValue_total:
  assumes "device_ok dm"
  shows "\<exists>st v. getValue dm oid dst a = Ret (st, v)"
proof (cases "Path oid")
  case (Ret path)
  from getParam_live [OF assms, of path OK a] obtain q rc path' where
    g: "getParam dm path OK a = Ret (q, rc, path')"
    "case q of None \<Rightarrow> rc \<noteq> OK | Some p \<Rightarrow> rc = OK \<and> readAuthz a (p_desc p) \<and> (\<exists>v. live dm p v)" by blast
  show ?thesis
  proof (cases q)
    case (Some p)
    with g obtain v where v: "live dm p v" by auto
    then have "wf_ctype (p_ctype p)" "has_type (p_ctype p) v" "describes (p_ctype p) (hd (chain (p_desc p)))"
      by (auto simp: live_def handle_ok_def)
    from to_total [OF this] obtain st x where "toProto (p_ctype p) dst v (p_desc p) a = Ret (st, x)" by blast
    with Ret g(1) Some live_deref [OF v] show ?thesis by (simp add: getValue_def param_toProto_value_def)
  qed (use Ret g in \<open>simp add: getValue_def\<close>)
qed (simp_all add: getValue_def Path_defined)

end
