(* ===== verification/Catena_Subscription.thy ===== *)
theory Catena_Subscription
  imports Device_Stream
begin

text \<open>
  \<^verbatim>\<open>ParamVisitor.cpp\<close> and \<^verbatim>\<open>SubscriptionManager.cpp\<close>. The traversal produces the sequence of the
  visits; a visitor is a function folded over it. The recursion goes through the device by path,
  so it is bounded by a fuel argument; \<open>traverse_fuel\<close> is proved to be enough on a well-formed
  device. The locks only order the calls and are left out.
\<close>

section \<open>Traversal of a parameter tree\<close>

datatype visit = VisitParam param string | VisitArray param string u32

definition child_path :: "string \<Rightarrow> string \<Rightarrow> string res" where
  "child_path path name = res_bind (Path path) (\<lambda>p. Ret (path_toString True (push_back_oid name p)))"

text \<open>Visit the children with the given names, one after the other; \<^const>\<open>None\<close> is out of fuel.\<close>

fun visit_each :: "(param \<Rightarrow> string \<Rightarrow> visit list res option) \<Rightarrow> bool \<Rightarrow> device \<Rightarrow> authorizer \<Rightarrow> string \<Rightarrow> string list
    \<Rightarrow> visit list res option" where
  "visit_each rec need_ok dm authz path [] = Some (Ret [])"
| "visit_each rec need_ok dm authz path (name # names) =
     (case res_bind (child_path path name) (\<lambda>s.
           res_bind (getParam_fqoid dm s OK authz) (\<lambda>(param, rc). Ret (s, param, rc))) of
        Ret (s, param, rc) \<Rightarrow>
          (case (case param of
                   None \<Rightarrow> Some (Ret [])
                 | Some q \<Rightarrow> if (need_ok \<longrightarrow> rc = OK) \<and> readAuthz authz (p_desc q) then rec q s else Some (Ret [])) of
             None \<Rightarrow> None
           | Some (Ret vs) \<Rightarrow>
               map_option (\<lambda>r. res_bind r (\<lambda>ws. Ret (vs @ ws))) (visit_each rec need_ok dm authz path names)
           | Some e \<Rightarrow> Some e)
      | Throw e \<Rightarrow> Some (Throw e)
      | Undef \<Rightarrow> Some Undef)"

definition array_length :: "cval \<Rightarrow> u32" where
  "array_length v = of_nat (size_of_value v)"

definition child_names :: "param \<Rightarrow> string list" where
  "child_names p =
     filter (\<lambda>n. n \<noteq> [] \<and> hd n \<noteq> CHR ''/'') (map fst (subParams (hd (chain (p_desc p)))))"

fun traverseParams :: "nat \<Rightarrow> device \<Rightarrow> authorizer \<Rightarrow> param \<Rightarrow> string \<Rightarrow> visit list res option" where
  "traverseParams 0 dm authz p path = None"
| "traverseParams (Suc n) dm authz p path =
     (case deref dm p of
        Ret v \<Rightarrow>
          (case (if isArrayType p \<and> array_length v > 0
                 then map_option (\<lambda>r. res_bind r (\<lambda>ws. Ret (VisitArray p path (array_length v) # ws)))
                        (visit_each (traverseParams n dm authz) False dm authz path
                           (map dec_of_nat [0..<unat (array_length v)]))
                 else Some (Ret [])) of
             None \<Rightarrow> None
           | Some (Ret elems) \<Rightarrow>
               map_option (\<lambda>r. res_bind r (\<lambda>ws. Ret (VisitParam p path # elems @ ws)))
                 (visit_each (traverseParams n dm authz) True dm authz path (child_names p))
           | Some e \<Rightarrow> Some e)
      | Throw e \<Rightarrow> Some (Throw e)
      | Undef \<Rightarrow> Some Undef)"

text \<open>No parameter lies deeper than the sizes of its type and of its descriptor allow.\<close>

definition traverse_fuel :: "device \<Rightarrow> nat" where
  "traverse_fuel dm = 2 + sum_list (map (\<lambda>(k, item). size (dp_ctype item) + size (dp_desc item)) (params dm))"

section \<open>Subscriptions\<close>

type_synonym subscriptions_map = "u32 \<Rightarrow> string set"

text \<open>\<^verbatim>\<open>SubscriptionVisitor\<close>: both visits insert the path unless its last segment is an index.\<close>

fun visit_path :: "visit \<Rightarrow> string" where
  "visit_path (VisitParam p path) = path"
| "visit_path (VisitArray p path len) = path"

fun subscribe_visits :: "visit list \<Rightarrow> string set \<Rightarrow> string set res" where
  "subscribe_visits [] oids = Ret oids"
| "subscribe_visits (w # ws) oids =
     res_bind (Path (visit_path w)) (\<lambda>pathObj.
     subscribe_visits ws (if back_is_index pathObj then oids else insert (visit_path w) oids))"

definition isWildcard :: "string \<Rightarrow> bool" where
  "isWildcard oid \<longleftrightarrow> length oid \<ge> 2 \<and> drop (length oid - 2) oid = ''/*''"

definition subscribe_tree :: "device \<Rightarrow> authorizer \<Rightarrow> param \<Rightarrow> string \<Rightarrow> string set \<Rightarrow> string set res" where
  "subscribe_tree dm authz p path oids =
     (case traverseParams (traverse_fuel dm) dm authz p path of
        None \<Rightarrow> Undef
      | Some r \<Rightarrow> res_bind r (\<lambda>ws. subscribe_visits ws oids))"

fun subscribe_all :: "device \<Rightarrow> authorizer \<Rightarrow> param list \<Rightarrow> string set \<Rightarrow> string set res" where
  "subscribe_all dm authz [] oids = Ret oids"
| "subscribe_all dm authz (p # ps) oids =
     (if readAuthz authz (p_desc p)
      then res_bind (subscribe_tree dm authz p (CHR ''/'' # pd_oid (node (p_desc p))) oids) (subscribe_all dm authz ps)
      else subscribe_all dm authz ps oids)"

definition addSubscription :: "subscriptions_map \<Rightarrow> string \<Rightarrow> device \<Rightarrow> authorizer \<Rightarrow> (subscriptions_map \<times> bool \<times> StatusCode) res" where
  "addSubscription sm oid dm authz =
     (let wildcard = isWildcard oid;
          baseOid = (if wildcard then substr oid 0 (length oid - 2) else oid);
          dmSubscriptions = sm (slot dm) in
      res_bind (if \<not> wildcard \<or> oid \<noteq> ''/*'' then getParam_fqoid dm baseOid OK authz else Ret (None, OK)) (\<lambda>(param, rc).
      res_bind
        (if \<not> wildcard then
           (if baseOid \<in> dmSubscriptions then Ret (dmSubscriptions, ALREADY_EXISTS)
            else if param \<noteq> None then Ret (insert baseOid dmSubscriptions, rc)
            else Ret (dmSubscriptions, rc))
         else (case param of
                 Some p \<Rightarrow> res_bind (subscribe_tree dm authz p baseOid dmSubscriptions) (\<lambda>oids. Ret (oids, rc))
               | None \<Rightarrow>
                   if oid = ''/*'' then
                     res_bind (getTopLevelParams dm rc authz) (\<lambda>(allParams, rc').
                     res_bind (subscribe_all dm authz allParams dmSubscriptions) (\<lambda>oids. Ret (oids, rc')))
                   else Ret (dmSubscriptions, rc)))
        (\<lambda>(oids, rc'). Ret (sm(slot dm := oids), rc' = OK, rc'))))"

definition removeSubscription :: "subscriptions_map \<Rightarrow> string \<Rightarrow> device \<Rightarrow> subscriptions_map \<times> bool \<times> StatusCode" where
  "removeSubscription sm oid dm =
     (let dmSubscriptions = sm (slot dm) in
      if isWildcard oid then
        let basePath = substr oid 0 (length oid - 2);
            kept = Set.filter (\<lambda>s. \<not> starts_with s basePath) dmSubscriptions;
            rc = (if kept = dmSubscriptions then NOT_FOUND else OK) in
        (sm(slot dm := kept), rc = OK, rc)
      else if oid \<in> dmSubscriptions then (sm(slot dm := dmSubscriptions - {oid}), True, OK)
      else (sm, False, NOT_FOUND))"

definition getAllSubscribedOids :: "subscriptions_map \<Rightarrow> device \<Rightarrow> string set" where
  "getAllSubscribedOids sm dm = sm (slot dm)"

definition isSubscribed :: "subscriptions_map \<Rightarrow> string \<Rightarrow> device \<Rightarrow> bool" where
  "isSubscribed sm oid dm \<longleftrightarrow> oid \<in> sm (slot dm)"

section \<open>Depth of paths\<close>

definition depth :: "string \<Rightarrow> nat" where
  "depth s = count_list s (CHR ''/'')"

lemma count_list_append [simp]: "count_list (xs @ ys) c = count_list xs c + count_list ys c"
  by (induction xs) auto

lemma depth_simps [simp]: "depth [] = 0" "depth (xs @ ys) = depth xs + depth ys"
  "depth (c # cs) = (if c = CHR ''/'' then Suc (depth cs) else depth cs)"
  by (auto simp: depth_def)

lemma depth_0: "CHR ''/'' \<notin> set s \<Longrightarrow> depth s = 0"
  by (simp add: depth_def count_notin)

lemma match_depth: "match_ok m \<Longrightarrow> depth (match_text m) = 1"
proof -
  have w: "list_all is_word w \<Longrightarrow> depth w = 0" for w
    by (rule depth_0) (auto simp: list_all_iff)
  have d: "list_all is_digit w \<Longrightarrow> depth w = 0" for w
    by (rule depth_0) (auto simp: list_all_iff)
  show "match_ok m \<Longrightarrow> depth (match_text m) = 1" by (cases m) (auto simp: w d)
qed

lemma segs_length: "segs_of_matches ms = Ret ss \<Longrightarrow> length ss = length ms"
  by (induction ms arbitrary: ss) (auto simp: res_simps)

lemma depth_matches: "list_all match_ok ms \<Longrightarrow> depth (concat (map match_text ms)) = length ms"
  by (induction ms) (auto simp: match_depth)

lemma Path_depth: "Path s = Ret p \<Longrightarrow> length (segments p) = depth s"
  using path_matches_sound [of s] depth_matches
  by (auto simp: Path_def res_simps dest!: segs_length split: option.splits)

lemma child_path_depth:
  assumes "Path path = Ret p"
  shows "\<exists>s. child_path path name = Ret s \<and> depth s > depth path"
proof -
  have t: "depth (toString_loop True first ss) \<ge> length ss" for first ss
    by (induction ss arbitrary: first) (auto simp: trans_le_add2)
  have "frontIdx p = 0" using Path_Ret_wf [OF assms] by simp
  moreover have "length (segments (push_back_oid name p)) = Suc (length (segments p))"
    by (simp add: push_back_oid_def)
  moreover have "frontIdx (push_back_oid name p) = frontIdx p" by (simp add: push_back_oid_def)
  ultimately have "depth (path_toString True (push_back_oid name p)) \<ge> Suc (length (segments p))"
    using t [of "segments (push_back_oid name p)" True] by (simp add: path_toString_def toString_from_def)
  with Path_depth [OF assms] show ?thesis by (simp add: child_path_def assms)
qed

section \<open>Parameters are not deeper than their types\<close>

definition hsize :: "param \<Rightarrow> nat" where
  "hsize p = size (p_ctype p) + size (hd (chain (p_desc p)))"

lemma size_member:
  "(n, t) \<in> set fs \<Longrightarrow> size t < size (TStruct fs)" "(n, t) \<in> set fs \<Longrightarrow> size t < size (TVariant fs)"
  using size_list_estimation' [of "(n, t)" fs "size t" "size_prod (\<lambda>_. 0) size"] by simp_all

lemma getSubParam_size: "getSubParam d n = Ret e \<Longrightarrow> size (hd (chain e)) < size (hd (chain d))"
  by (auto dest!: getSubParam_chain map_of_SomeD intro: size_subParams)

lemma hsize_pos: "hsize p \<ge> 1"
  by (cases "hd (chain (p_desc p))") (simp add: hsize_def)

fun shrinks :: "param \<Rightarrow> path \<Rightarrow> (nav \<times> path) res \<Rightarrow> bool" where
  "shrinks p oid (Ret (Next q w, oid')) \<longleftrightarrow> hsize q < hsize p \<and> path_size oid \<le> Suc (path_size oid')"
| "shrinks p oid (Ret (Stop (Some q) st, oid')) \<longleftrightarrow> path_size oid \<le> 1"
| "shrinks p oid _ \<longleftrightarrow> True"

lemma path_pop_size_le: "path_size oid \<le> Suc (path_size (path_pop oid))"
  "path_empty (path_pop oid) \<Longrightarrow> path_size oid \<le> Suc 0"
  by (auto simp: path_size_def path_pop_def path_empty_def split: if_splits)

lemma getParam_struct_shrinks: "p_ctype p = TStruct fs \<Longrightarrow> shrinks p oid (getParam_struct p fs v oid a st)"
proof (cases "field_index (front_as_string oid) fs")
  case (Some i)
  assume t: "p_ctype p = TStruct fs"
  have "size (snd (fs ! i)) < size (TStruct fs)"
    using field_index_Some [OF Some] size_member(1) [OF alt_member, of i fs] by simp
  with t Some show ?thesis
    by (cases v; cases "getSubParam (p_desc p) (front_as_string oid)")
       (auto simp: getParam_struct_def findParamByName_def Let_def path_pop_size_le hsize_def dest!: getSubParam_size)
qed (cases v, auto simp: getParam_struct_def findParamByName_def Let_def)

lemma getParam_variant_shrinks:
  assumes "handle_ok p v" "p_ctype p = TVariant alts"
  shows "shrinks p oid (getParam_variant p alts v oid a st)"
proof -
  from assms obtain i x where v: "v = VVariant i x" "i < length alts" by (auto simp: handle_ok_def has_type_variant)
  have "size (snd (alts ! i)) < size (TVariant alts)" using size_member(2) [OF alt_member [OF v(2)]] .
  with v assms(2) show ?thesis
    by (cases "getSubParam (p_desc p) (front_as_string oid)")
       (auto simp: getParam_variant_def Let_def path_pop_size_le hsize_def dest!: getSubParam_size)
qed

lemma getParam_step_shrinks:
  assumes "handle_ok p v"
  shows "shrinks p oid (getParam_step p v oid a st)"
proof -
  have "size sub < size (hd (chain (p_desc p)))" if "map_of (subParams (hd (chain (p_desc p)))) n = Some sub" for n sub
    using that by (auto dest!: map_of_SomeD intro: size_subParams)
  with assms show ?thesis
    by (cases "p_ctype p")
       (auto simp: getParam_step_def getParam_empty_def getParam_vec_def getParam_generic_def Let_def hsize_def
          path_pop_size_le getParam_struct_shrinks getParam_variant_shrinks split: cval.split option.split)
qed

lemma param_getParam_depth:
  "param_getParam p v oid a st = Ret (Some q, rc, oid') \<Longrightarrow> handle_ok p v \<Longrightarrow> readAuthz a (p_desc p) \<Longrightarrow>
     path_size oid \<le> hsize p"
proof (induction p v oid a st rule: param_getParam.induct)
  case (1 p v oid a st)
  from getParam_step_ok [OF 1(3,4), of st oid] obtain nav oid1 where
    s: "getParam_step p v oid a st = Ret (nav, oid1)" "nav_ok p v a st nav" by (auto simp: step_ok_def)
  note sh = getParam_step_shrinks [OF 1(3), of oid a st, unfolded s(1)]
  show ?case
  proof (cases nav)
    case (Stop r rc1)
    with 1(2,4) s have "r = Some q" by (subst (asm) param_getParam.simps) auto
    with sh Stop hsize_pos [of p] show ?thesis by simp
  next
    case (Next h w)
    with 1(2,4) s have r: "param_getParam h w oid1 a st = Ret (Some q, rc, oid')"
      by (subst (asm) param_getParam.simps) auto
    then have "readAuthz a (p_desc h)" by (subst (asm) param_getParam.simps) (auto split: if_splits)
    with 1(1) [of "(nav, oid1)" nav oid1 h w] 1(4) s Next r have "path_size oid1 \<le> hsize h" by simp
    with sh Next show ?thesis by simp
  qed
qed

lemma getParam_depth:
  assumes "device_ok dm" "getParam dm path st a = Ret (Some q, rc, path')"
  shows "path_size path < traverse_fuel dm"
proof -
  from assms(2) obtain item where
    item: "map_of (params dm) (front_as_string path) = Some item" "readAuthz a (top_dref dm item)"
    by (auto simp: getParam_def getItem_def Let_def top_param_def split: if_splits option.splits)
  let ?p = "top_param dm (RParam (front_as_string path)) item"
  have mem: "size (dp_ctype item) + size (dp_desc item)
      \<le> sum_list (map (\<lambda>(k, item). size (dp_ctype item) + size (dp_desc item)) (params dm))"
    using map_of_SomeD [OF item(1)] by (intro member_le_sum_list) force+
  have hs: "hsize ?p = size (dp_ctype item) + size (dp_desc item)"
    by (simp add: hsize_def top_param_def top_dref_def)
  show ?thesis
  proof (cases "path_empty (path_pop path)")
    case True
    then have "path_size path \<le> 1" using path_pop_size_le(2) by simp
    then show ?thesis by (simp add: traverse_fuel_def)
  next
    case False
    with assms(2) item have "param_getParam ?p (dp_value item) (path_pop path) a st = Ret (Some q, rc, path')"
      by (auto simp: getParam_def getItem_def Let_def top_param_def split: if_splits)
    moreover have "handle_ok ?p (dp_value item)" using top_param_live [OF assms(1) item(1)] by (simp add: live_def)
    moreover have "readAuthz a (p_desc ?p)" using item(2) by (simp add: top_param_def)
    ultimately have "path_size (path_pop path) \<le> hsize ?p" by (rule param_getParam_depth)
    with path_pop_size_le(1) [of path] mem hs show ?thesis by (simp add: traverse_fuel_def)
  qed
qed

section \<open>The traversal ends and only meets readable parameters\<close>

definition resolves :: "device \<Rightarrow> authorizer \<Rightarrow> string \<Rightarrow> param \<Rightarrow> bool" where
  "resolves dm a s q \<longleftrightarrow> getParam_fqoid dm s OK a = Ret (Some q, OK)"

lemma getParam_fqoid_total: "device_ok dm \<Longrightarrow> \<exists>q rc. getParam_fqoid dm s st a = Ret (q, rc)"
proof (cases "Path s")
  case (Ret p)
  assume "device_ok dm"
  from getParam_live [OF this, of p st a] obtain q rc path' where "getParam dm p st a = Ret (q, rc, path')" by blast
  with Ret show ?thesis by (simp add: getParam_fqoid_def)
qed (simp_all add: getParam_fqoid_def Path_defined)

lemma getParam_fqoid_Some:
  assumes "device_ok dm" "getParam_fqoid dm s OK a = Ret (Some q, rc)"
  shows "rc = OK \<and> readAuthz a (p_desc q) \<and> (\<exists>v. live dm q v) \<and> depth s < traverse_fuel dm \<and> (\<exists>p. Path s = Ret p)"
proof -
  from assms(2) obtain p where p: "Path s = Ret p" by (cases "Path s") (auto simp: getParam_fqoid_def)
  from getParam_live [OF assms(1), of p OK a] obtain q' rc' path' where
    g: "getParam dm p OK a = Ret (q', rc', path')"
    "case q' of None \<Rightarrow> rc' \<noteq> OK | Some q \<Rightarrow> rc' = OK \<and> readAuthz a (p_desc q) \<and> (\<exists>v. live dm q v)" by blast
  with assms(2) p have "q' = Some q" "rc' = rc" by (auto simp: getParam_fqoid_def)
  moreover have "path_size p = depth s" using Path_Ret_wf [OF p] Path_depth [OF p] by (simp add: path_size_def)
  ultimately show ?thesis using g p getParam_depth [OF assms(1), of p OK a q rc path'] by auto
qed

lemma getParam_fqoid_None:
  assumes "device_ok dm" "getParam_fqoid dm s OK a = Ret (None, rc)"
  shows "rc \<noteq> OK"
proof (cases "Path s")
  case (Ret p)
  from getParam_live [OF assms(1), of p OK a] obtain q' rc' path' where
    "getParam dm p OK a = Ret (q', rc', path')" "case q' of None \<Rightarrow> rc' \<noteq> OK | Some q \<Rightarrow> rc' = OK"
    by (auto split: option.splits)
  with Ret assms(2) show ?thesis by (auto simp: getParam_fqoid_def)
next
  case (Throw e)
  with assms(2) Path_status [of s] show ?thesis by (cases e) (auto simp: getParam_fqoid_def)
qed (simp add: Path_defined)

lemma resolves_facts:
  "device_ok dm \<Longrightarrow> resolves dm a s q \<Longrightarrow>
     readAuthz a (p_desc q) \<and> (\<exists>v. live dm q v) \<and> depth s < traverse_fuel dm \<and> (\<exists>p. Path s = Ret p)"
  unfolding resolves_def by (blast dest: getParam_fqoid_Some)

fun visit_param :: "visit \<Rightarrow> param" where
  "visit_param (VisitParam p path) = p"
| "visit_param (VisitArray p path len) = p"

definition visits_ok :: "device \<Rightarrow> authorizer \<Rightarrow> visit list res option \<Rightarrow> bool" where
  "visits_ok dm a r \<longleftrightarrow> (\<exists>ws. r = Some (Ret ws) \<and> (\<forall>w \<in> set ws. resolves dm a (visit_path w) (visit_param w)))"

lemma visit_each_ok:
  assumes "device_ok dm" "Path path = Ret p"
    and rec: "\<And>q s. resolves dm a s q \<Longrightarrow> depth s > depth path \<Longrightarrow> visits_ok dm a (rec q s)"
  shows "visits_ok dm a (visit_each rec b dm a path names)"
proof (induction names)
  case (Cons name names)
  then obtain ws where ws: "visit_each rec b dm a path names = Some (Ret ws)" "\<forall>w \<in> set ws. resolves dm a (visit_path w) (visit_param w)"
    by (auto simp: visits_ok_def)
  from child_path_depth [OF assms(2), of name] obtain s where s: "child_path path name = Ret s" "depth s > depth path" by blast
  from getParam_fqoid_total [OF assms(1)] obtain q rc where q: "getParam_fqoid dm s OK a = Ret (q, rc)" by blast
  show ?case
  proof (cases q)
    case None
    with s q ws show ?thesis by (simp add: visits_ok_def)
  next
    case (Some r)
    with q getParam_fqoid_Some [OF assms(1)] have r: "rc = OK" "readAuthz a (p_desc r)" "resolves dm a s r"
      by (auto simp: resolves_def)
    with rec [OF r(3) s(2)] obtain vs where "rec r s = Some (Ret vs)" "\<forall>w \<in> set vs. resolves dm a (visit_path w) (visit_param w)"
      by (auto simp: visits_ok_def)
    with s q Some r ws show ?thesis by (auto simp: visits_ok_def)
  qed
qed (simp add: visits_ok_def)

lemma traverse_ok:
  assumes "device_ok dm"
  shows "resolves dm a path p \<Longrightarrow> traverse_fuel dm < n + depth path \<Longrightarrow> visits_ok dm a (traverseParams n dm a p path)"
proof (induction n arbitrary: p path)
  case 0
  with resolves_facts [OF assms 0(1)] show ?case by simp
next
  case (Suc n)
  from resolves_facts [OF assms Suc.prems(1)] obtain pp v where p: "Path path = Ret pp" "live dm p v" by blast
  have each: "visits_ok dm a (visit_each (traverseParams n dm a) b dm a path names)" for b names
    using Suc by (intro visit_each_ok [OF assms p(1)] Suc.IH) auto
  from each obtain es where es: "visit_each (traverseParams n dm a) False dm a path
      (map dec_of_nat [0..<unat (array_length v)]) = Some (Ret es)" "\<forall>w \<in> set es. resolves dm a (visit_path w) (visit_param w)"
    unfolding visits_ok_def by blast
  from each obtain cs where cs: "visit_each (traverseParams n dm a) True dm a path (child_names p) = Some (Ret cs)"
    "\<forall>w \<in> set cs. resolves dm a (visit_path w) (visit_param w)"
    unfolding visits_ok_def by blast
  from es cs live_deref [OF p(2)] Suc.prems(1) show ?case by (auto simp: visits_ok_def)
qed

lemma traverse_enough:
  assumes "device_ok dm" "resolves dm a path p"
  shows "visits_ok dm a (traverseParams (traverse_fuel dm) dm a p path)"
proof -
  have "depth path > 0"
  proof -
    from assms(2) obtain pp where pp: "Path path = Ret pp" "\<not> path_empty pp"
      by (cases "Path path") (auto simp: resolves_def getParam_fqoid_def getParam_def split: if_splits)
    with Path_depth [OF pp(1)] show ?thesis by (auto simp: path_empty_def)
  qed
  with traverse_ok [OF assms, of "traverse_fuel dm"] show ?thesis by simp
qed

lemma subscribe_visits_ok:
  assumes "device_ok dm" "\<forall>w \<in> set ws. \<exists>q. resolves dm a (visit_path w) q"
  shows "\<exists>oids'. subscribe_visits ws oids = Ret oids' \<and> oids \<subseteq> oids' \<and> (\<forall>s \<in> oids' - oids. \<exists>q. resolves dm a s q)"
  using assms(2)
proof (induction ws arbitrary: oids)
  case (Cons w ws)
  then obtain q where q: "resolves dm a (visit_path w) q" by auto
  with resolves_facts [OF assms(1)] obtain p where p: "Path (visit_path w) = Ret p" by blast
  from Cons.IH Cons.prems obtain oids' where
    "subscribe_visits ws (if back_is_index p then oids else insert (visit_path w) oids) = Ret oids'"
    "(if back_is_index p then oids else insert (visit_path w) oids) \<subseteq> oids'"
    "\<forall>s \<in> oids' - (if back_is_index p then oids else insert (visit_path w) oids). \<exists>q. resolves dm a s q"
    by (metis list.set_intros(2))
  with p q show ?case by (cases "back_is_index p") auto
qed simp

definition extends_readable :: "device \<Rightarrow> authorizer \<Rightarrow> string set \<Rightarrow> string set \<Rightarrow> bool" where
  "extends_readable dm a oids oids' \<longleftrightarrow> oids \<subseteq> oids' \<and> (\<forall>s \<in> oids' - oids. \<exists>q. resolves dm a s q)"

lemma extends_readable_trans:
  "extends_readable dm a x y \<Longrightarrow> extends_readable dm a y z \<Longrightarrow> extends_readable dm a x z"
  unfolding extends_readable_def by blast

lemma subscribe_tree_ok:
  assumes "device_ok dm" "resolves dm a path p"
  shows "\<exists>oids'. subscribe_tree dm a p path oids = Ret oids' \<and> extends_readable dm a oids oids'"
proof -
  from traverse_enough [OF assms] obtain ws where
    "traverseParams (traverse_fuel dm) dm a p path = Some (Ret ws)" "\<forall>w \<in> set ws. \<exists>q. resolves dm a (visit_path w) q"
    by (auto simp: visits_ok_def)
  with subscribe_visits_ok [OF assms(1)] show ?thesis by (auto simp: subscribe_tree_def extends_readable_def)
qed

text \<open>Top-level parameters are registered under the oid of their descriptor, a valid segment.\<close>

definition names_ok :: "device \<Rightarrow> bool" where
  "names_ok dm \<longleftrightarrow> list_all (\<lambda>(k, item). pd_oid (dinfo_of (dp_desc item)) = k \<and> CHR ''/'' \<notin> set k
     \<and> is_ret (Path (CHR ''/'' # k))) (params dm)"

lemma Path_top_name:
  assumes "Path (CHR ''/'' # k) = Ret path" "front_is_string path"
  shows "path_empty (path_pop path) \<Longrightarrow> front_as_string path = k"
proof -
  assume e: "path_empty (path_pop path)"
  have wf: "list_all wf_segment (segments path)" "frontIdx path = 0" using Path_Ret_wf [OF assms(1)] by auto
  with e assms(2) obtain n where seg: "segments path = [SOid n]"
    by (cases "segments path"; cases "hd (segments path)")
       (auto simp: path_empty_def path_pop_def front_is_string_def)
  from assms(1) obtain ms where ms: "path_matches (CHR ''/'' # k) = Some ms" "segs_of_matches ms = Ret [SOid n]"
    using seg by (auto simp: Path_def res_simps split: option.splits)
  then obtain m where m: "ms = [m]" "seg_of_match m = Ret (SOid n)"
    by (cases ms; cases "tl ms") (auto simp: res_simps)
  from path_matches_sound [OF ms(1)] m(1) have ok: "match_ok m" "match_text m = CHR ''/'' # k" by auto
  with m(2) have "n = k" by (simp add: seg_of_match_ok res_simps split: seg_match.splits)
  with seg wf show "front_as_string path = k" by (simp add: front_as_string_def front_is_string_def)
qed

lemma top_level_resolves:
  assumes "names_ok dm" "Path (CHR ''/'' # k) = Ret path" "CHR ''/'' \<notin> set k"
    and "getParam dm path st a = Ret (Some p, rc, path')"
  shows "resolves dm a (CHR ''/'' # pd_oid (node (p_desc p))) p"
proof -
  have "length (segments path) = 1" using Path_depth [OF assms(2)] depth_0 [OF assms(3)] by simp
  then have e: "path_empty (path_pop path)" using Path_Ret_wf [OF assms(2)] by (simp add: path_empty_def path_pop_def)
  from assms(4) have fs: "front_is_string path" by (auto simp: getParam_def split: if_splits)
  note k = Path_top_name [OF assms(2) fs e]
  from assms(4) e k obtain item where
    item: "map_of (params dm) k = Some item" "readAuthz a (top_dref dm item)" "p = top_param dm (RParam k) item"
      "\<not> path_empty path"
    by (auto simp: getParam_def getItem_def Let_def param_copy_def top_param_def split: if_splits option.splits)
  from assms(1) map_of_SomeD [OF item(1)] have "pd_oid (dinfo_of (dp_desc item)) = k"
    by (auto simp: names_ok_def list_all_iff)
  then have "pd_oid (node (p_desc p)) = k" by (simp add: item(3) top_param_def top_dref_def node_def)
  with item fs k e assms(2) show ?thesis
    by (simp add: resolves_def getParam_fqoid_def getParam_def getItem_def Let_def param_copy_def top_param_def)
qed

lemma topLevel_loop_ok:
  assumes "device_ok dm" "names_ok dm" "set items \<subseteq> set (params dm)"
    and "\<forall>p \<in> set result. resolves dm a (CHR ''/'' # pd_oid (node (p_desc p))) p"
  shows "\<exists>ps rc. topLevel_loop dm items a result st = Ret (ps, rc)
       \<and> (\<forall>p \<in> set ps. resolves dm a (CHR ''/'' # pd_oid (node (p_desc p))) p)"
  using assms(3,4)
proof (induction items arbitrary: result st)
  case (Cons it items)
  obtain k item where it: "it = (k, item)" by (cases it)
  from Cons.prems(1) it have mem: "(k, item) \<in> set (params dm)" by simp
  with assms(2) have nm: "CHR ''/'' \<notin> set k" "is_ret (Path (CHR ''/'' # k))"
    by (auto simp: names_ok_def list_all_iff)
  then obtain path where path: "Path (CHR ''/'' # k) = Ret path" by (cases "Path (CHR ''/'' # k)") auto
  from getParam_live [OF assms(1), of path st a] obtain q rc path' where
    g: "getParam dm path st a = Ret (q, rc, path')" by blast
  show ?case
  proof (cases "readAuthz a (top_dref dm item)")
    case False
    with Cons it show ?thesis by simp
  next
    case True
    show ?thesis
    proof (cases q)
      case None
      with Cons it True path g show ?thesis by simp
    next
      case (Some p)
      have "resolves dm a (CHR ''/'' # pd_oid (node (p_desc p))) p"
        using top_level_resolves [OF assms(2) path nm(1) g [unfolded Some]] .
      with Cons it True path g Some show ?thesis by simp
    qed
  qed
qed simp

lemma subscribe_all_ok:
  assumes "device_ok dm" "\<forall>p \<in> set ps. resolves dm a (CHR ''/'' # pd_oid (node (p_desc p))) p"
  shows "\<exists>oids'. subscribe_all dm a ps oids = Ret oids' \<and> extends_readable dm a oids oids'"
  using assms(2)
proof (induction ps arbitrary: oids)
  case (Cons p ps)
  from subscribe_tree_ok [OF assms(1), of a "CHR ''/'' # pd_oid (node (p_desc p))" p oids] Cons.prems obtain oids1 where
    t: "subscribe_tree dm a p (CHR ''/'' # pd_oid (node (p_desc p))) oids = Ret oids1" "extends_readable dm a oids oids1"
    by auto
  from Cons.IH [of oids1] Cons.prems obtain oids2 where
    "subscribe_all dm a ps oids1 = Ret oids2" "extends_readable dm a oids1 oids2" by auto
  with t Cons show ?case by (auto intro: extends_readable_trans)
qed (simp add: extends_readable_def)

lemma getTopLevelParams_ok:
  assumes "device_ok dm" "names_ok dm"
  shows "\<exists>ps rc. getTopLevelParams dm st a = Ret (ps, rc)
       \<and> (\<forall>p \<in> set ps. resolves dm a (CHR ''/'' # pd_oid (node (p_desc p))) p)"
  unfolding getTopLevelParams_def using topLevel_loop_ok [OF assms, of "params dm" "[]" a st] by simp

lemma ex_device_names: "names_ok ex_device"
  by code_simp

section \<open>Properties\<close>

lemma addSubscription_ok:
  assumes "device_ok dm" "names_ok dm"
  shows "\<exists>sm' ok rc. addSubscription sm oid dm a = Ret (sm', ok, rc)
      \<and> extends_readable dm a (sm (slot dm)) (sm' (slot dm)) \<and> (\<forall>s. s \<noteq> slot dm \<longrightarrow> sm' s = sm s)"
proof -
  let ?base = "if isWildcard oid then substr oid 0 (length oid - 2) else oid"
  let ?all = "isWildcard oid \<and> oid = ''/*''"
  obtain q rc where q: "getParam_fqoid dm ?base OK a = Ret (q, rc)" using getParam_fqoid_total [OF assms(1)] by blast
  have res: "resolves dm a ?base p" if "q = Some p" for p
    using q that getParam_fqoid_Some [OF assms(1)] by (auto simp: resolves_def)
  obtain ps rc' where ps: "getTopLevelParams dm OK a = Ret (ps, rc')"
    "\<forall>p \<in> set ps. resolves dm a (CHR ''/'' # pd_oid (node (p_desc p))) p"
    using getTopLevelParams_ok [OF assms] by blast
  show ?thesis
  proof (cases "?all")
    case True
    with subscribe_all_ok [OF assms(1) ps(2), of "sm (slot dm)"] ps(1) show ?thesis
      by (auto simp: addSubscription_def Let_def)
  next
    case False
    show ?thesis
    proof (cases q)
      case None
      with False q show ?thesis
        by (auto simp: addSubscription_def Let_def extends_readable_def split: if_splits)
    next
      case (Some p)
      with False q res subscribe_tree_ok [OF assms(1), of a ?base p "sm (slot dm)"] show ?thesis
        by (auto simp: addSubscription_def Let_def extends_readable_def split: if_splits)
    qed
  qed
qed

text \<open>
  C14: a subscription, single or wildcard, always returns: the traversal of the parameter tree ends
  and nothing throws. It only adds oids, each of them resolves to a parameter the subscribing
  client may read, and it touches no other device's subscriptions.
\<close>

theorem addSubscription_only_readable:
  assumes "device_ok dm" "names_ok dm"
  shows "\<exists>sm' ok rc. addSubscription sm oid dm a = Ret (sm', ok, rc)
     \<and> sm (slot dm) \<subseteq> sm' (slot dm)
     \<and> (\<forall>s \<in> sm' (slot dm) - sm (slot dm). \<exists>q. resolves dm a s q \<and> readAuthz a (p_desc q))
     \<and> (\<forall>s. s \<noteq> slot dm \<longrightarrow> sm' s = sm s)"
proof -
  from addSubscription_ok [OF assms, of sm oid a] obtain sm' ok rc where r: "addSubscription sm oid dm a = Ret (sm', ok, rc)"
    "extends_readable dm a (sm (slot dm)) (sm' (slot dm))" "\<forall>s. s \<noteq> slot dm \<longrightarrow> sm' s = sm s" by blast
  have "\<exists>q. resolves dm a s q \<and> readAuthz a (p_desc q)" if "s \<in> sm' (slot dm) - sm (slot dm)" for s
    using r(2) that resolves_facts [OF assms(1)] unfolding extends_readable_def by blast
  with r show ?thesis by (auto simp: extends_readable_def)
qed

theorem addSubscription_only_readable_witness:
  "\<exists>sm' ok rc. addSubscription (\<lambda>_. {}) ''/*'' ex_device kAuthzDisabled = Ret (sm', ok, rc)
     \<and> (\<forall>s. s \<noteq> slot ex_device \<longrightarrow> sm' s = {})"
  using addSubscription_only_readable [OF ex_device_ok(1) ex_device_names, of "\<lambda>_. {}" "''/*''" kAuthzDisabled] by blast

text \<open>
  subscribing to a parameter is idempotent and can be undone: after a successful subscription
  the oid is subscribed, a second one reports that it exists already, unsubscribing succeeds and
  restores the subscriptions as they were.
\<close>

theorem subscription_lifecycle:
  assumes "device_ok dm" "\<not> isWildcard oid" "addSubscription sm oid dm a = Ret (sm1, True, rc)"
    and "addSubscription sm1 oid dm b = Ret (sm2, ok2, rc2)"
  shows "rc = OK \<and> isSubscribed sm1 oid dm \<and> \<not> ok2 \<and> rc2 = ALREADY_EXISTS \<and> sm2 = sm1
     \<and> removeSubscription sm1 oid dm = (sm, True, OK)"
proof -
  from assms(2,3) obtain q where q: "getParam_fqoid dm oid OK a = Ret (q, rc)" "oid \<notin> sm (slot dm)" "rc = OK"
    "sm1 = sm(slot dm := (if q = None then sm (slot dm) else insert oid (sm (slot dm))))"
    by (auto simp: addSubscription_def Let_def res_simps split: if_splits)
  have "q \<noteq> None" using getParam_fqoid_None [OF assms(1), of oid a rc] q(1,3) by auto
  with q(4) have sm1: "sm1 = sm(slot dm := insert oid (sm (slot dm)))" by simp
  then have "oid \<in> sm1 (slot dm)" by simp
  with assms(2,4) have "\<not> ok2 \<and> rc2 = ALREADY_EXISTS \<and> sm2 = sm1"
    by (auto simp: addSubscription_def Let_def res_simps)
  moreover from q(2) assms(2) have "removeSubscription sm1 oid dm = (sm, True, OK)"
    by (simp add: removeSubscription_def sm1)
  ultimately show ?thesis using q(3) \<open>oid \<in> sm1 (slot dm)\<close> by (simp add: isSubscribed_def)
qed

theorem subscription_lifecycle_witness:
  "\<exists>sm1. addSubscription (\<lambda>_. {}) ''/mix/level'' ex_device kAuthzDisabled = Ret (sm1, True, OK)
     \<and> isSubscribed sm1 ''/mix/level'' ex_device"
proof -
  let ?sm1 = "(\<lambda>_. {})(slot ex_device := {''/mix/level''})"
  have n: "\<not> isWildcard ''/mix/level''" by code_simp
  have "case getParam_fqoid ex_device ''/mix/level'' OK kAuthzDisabled of Ret (Some q, rc) \<Rightarrow> rc = OK | _ \<Rightarrow> False"
    by code_simp
  then obtain q where q: "getParam_fqoid ex_device ''/mix/level'' OK kAuthzDisabled = Ret (Some q, OK)"
    by (auto split: res.splits option.splits)
  with n have a: "addSubscription (\<lambda>_. {}) ''/mix/level'' ex_device kAuthzDisabled = Ret (?sm1, True, OK)"
    by (simp add: addSubscription_def)
  from q n have "addSubscription ?sm1 ''/mix/level'' ex_device kAuthzDisabled = Ret (?sm1, False, ALREADY_EXISTS)"
    by (auto simp: addSubscription_def fun_eq_iff)
  from subscription_lifecycle [OF ex_device_ok(1) n a this] a show ?thesis by blast
qed

section \<open>Limits of wildcard removal\<close>

text \<open>
  Removing a wildcard compares prefixes of the text without the separator: it also drops the
  subscriptions of parameters whose name only begins with the same letters.
\<close>

lemma wildcard_removal_is_textual:
  "fst (removeSubscription (\<lambda>_. {''/mixer''}) ''/mix/*'' ex_device) (slot ex_device) = {}"
  by code_simp

end
