(* ===== verification/Connection_Queue.thy ===== *)
theory Connection_Queue
  imports Catena_Subscription "HOL-Library.Product_Lexorder"
begin

text \<open>
  \<^verbatim>\<open>rpc/Connect.h\<close>, the part of a client connection that gRPC and REST share, and
  \<^verbatim>\<open>ConnectionQueue.cpp\<close>, which decides which connections may stay. The transport says whether
  the peer has gone (\<open>peerGone\<close>: \<^verbatim>\<open>context_.IsCancelled()\<close> or a closed socket). A pointer to a
  connection is a number, and the objects live in a store. The mutex and the condition variable
  only order the calls; what a waiting writer sees is \<open>hasUpdate\<close>.
\<close>

section \<open>Connections\<close>

text \<open>
  The message of \<^verbatim>\<open>PushUpdates\<close>; the value of an update is \<^const>\<open>None\<close> when an exception left it half
  written.
\<close>

datatype push_kind =
    PushNotSet
  | PushValue string "pvalue option"
  | PushLanguagePack lpack
  | PushSlotsAdded "u32 list"

record push_updates =
  pu_slot :: u32
  pu_kind :: push_kind

definition push_default :: push_updates where
  "push_default = \<lparr>pu_slot = 0, pu_kind = PushNotSet\<rparr>"

record connect =
  priority :: u32
  objectId :: u32
  cn_authz :: "authorizer option"
  hasUpdate :: bool
  is_shutdown :: bool
  detailLevel :: DetailLevel
  cn_res :: push_updates
  peerGone :: bool

definition Connect :: "u32 \<Rightarrow> connect" where
  "Connect oid =
     \<lparr>priority = 0, objectId = oid, cn_authz = None, hasUpdate = False, is_shutdown = False,
      detailLevel = UNSET, cn_res = push_default, peerGone = False\<rparr>"

definition connect_less :: "connect \<Rightarrow> connect \<Rightarrow> bool" where
  "connect_less c other \<longleftrightarrow>
     priority c < priority other \<or> (priority c = priority other \<and> objectId c \<ge> objectId other)"

definition shutdown :: "connect \<Rightarrow> connect" where
  "shutdown c = c\<lparr>is_shutdown := True, hasUpdate := True\<rparr>"

text \<open>The \<^verbatim>\<open>isCancelled\<close> of both transports; \<open>now\<close> is the clock.\<close>

definition isCancelled :: "connect \<Rightarrow> int \<Rightarrow> bool" where
  "isCancelled c now \<longleftrightarrow>
     peerGone c \<or> is_shutdown c \<or> (case cn_authz c of None \<Rightarrow> False | Some a \<Rightarrow> isExpired a now)"

fun scope_index :: "Scopes_e \<Rightarrow> u32" where
  "scope_index kUndefined = 0"
| "scope_index kMonitor = 1"
| "scope_index kOperate = 2"
| "scope_index kConfig = 3"
| "scope_index kAdmin = 4"

text \<open>The loop over the scopes, from the highest down, until one is granted.\<close>

fun init_priority :: "authorizer \<Rightarrow> Scopes_e list \<Rightarrow> u32 \<Rightarrow> u32" where
  "init_priority a [] pr = pr"
| "init_priority a (i # is') pr =
     (if readAuthz_e a i then 2 * scope_index i + (if writeAuthz_e a i then 1 else 0)
      else init_priority a is' pr)"

definition initAuthz :: "(string \<Rightarrow> (string \<times> claim) list option) \<Rightarrow> string \<Rightarrow> bool \<Rightarrow> connect \<Rightarrow> connect res" where
  "initAuthz decode jwsToken authz c =
     (if authz then
        res_bind (Authorizer decode jwsToken) (\<lambda>a.
        Ret (c\<lparr>cn_authz := Some a,
               priority := init_priority a [kAdmin, kConfig, kOperate, kMonitor] (priority c)\<rparr>))
      else Ret (c\<lparr>cn_authz := Some kAuthzDisabled\<rparr>))"

section \<open>Push updates\<close>

type_synonym slotmap = "(u32 \<times> device option) list"

definition device_at :: "slotmap \<Rightarrow> u32 \<Rightarrow> device option" where
  "device_at dms s = (case map_of dms s of None \<Rightarrow> None | Some d \<Rightarrow> d)"

text \<open>The table of detail levels; \<^verbatim>\<open>UNSET\<close> is not in it.\<close>

definition detail_wants :: "DetailLevel \<Rightarrow> dref \<Rightarrow> bool \<Rightarrow> bool" where
  "detail_wants dl d subscribed \<longleftrightarrow>
     (case dl of
        FULL \<Rightarrow> True
      | MINIMAL \<Rightarrow> pd_minimal_set (node d)
      | SUBSCRIPTIONS \<Rightarrow> pd_minimal_set (node d) \<or> subscribed
      | COMMANDS \<Rightarrow> pd_isCommand (node d)
      | NONE \<Rightarrow> False
      | UNSET \<Rightarrow> False)"

text \<open>
  \<open>v\<close> is the value the parameter \<open>p\<close> holds when the signal is emitted. Before \<^verbatim>\<open>initAuthz_\<close> there is
  no authorizer to ask.
\<close>

definition updateResponse :: "connect \<Rightarrow> string \<Rightarrow> param \<Rightarrow> cval \<Rightarrow> u32 \<Rightarrow> slotmap \<Rightarrow> subscriptions_map \<Rightarrow> int \<Rightarrow> connect res" where
  "updateResponse c oid p v s dms sm now =
     (if isCancelled c now then Ret (c\<lparr>hasUpdate := True\<rparr>)
      else case cn_authz c of
        None \<Rightarrow> Undef
      | Some a \<Rightarrow>
          if readAuthz a (p_desc p)
             \<and> detail_wants (detailLevel c) (p_desc p)
                  (case device_at dms s of None \<Rightarrow> False | Some dm \<Rightarrow> isSubscribed sm oid dm)
          then (case param_toProto_value p v KindNotSet a of
                  Ret (rc, value) \<Rightarrow>
                    Ret (c\<lparr>cn_res := \<lparr>pu_slot = s, pu_kind = PushValue oid (Some value)\<rparr>,
                           hasUpdate := (rc = OK \<or> hasUpdate c)\<rparr>)
                | Throw (ExceptionWithStatus st) \<Rightarrow>
                    Ret (c\<lparr>cn_res := \<lparr>pu_slot = s, pu_kind = PushValue oid None\<rparr>\<rparr>)
                | Throw e \<Rightarrow> Throw e
                | Undef \<Rightarrow> Undef)
          else Ret c)"

definition updateResponse_language :: "connect \<Rightarrow> lpack \<Rightarrow> u32 \<Rightarrow> int \<Rightarrow> connect res" where
  "updateResponse_language c l s now =
     (if isCancelled c now then Ret (c\<lparr>hasUpdate := True\<rparr>)
      else case cn_authz c of
        None \<Rightarrow> Undef
      | Some a \<Rightarrow>
          Ret (if readAuthz_e a kMonitor
               then c\<lparr>cn_res := \<lparr>pu_slot = s, pu_kind = PushLanguagePack (lpack_toProto l lpack_default)\<rparr>,
                      hasUpdate := True\<rparr>
               else c))"

section \<open>The queue\<close>

type_synonym connptr = nat
type_synonym connects = "connptr \<Rightarrow> connect"

record cqueue =
  maxConnections :: u32
  connectionQueue :: "connptr list"

definition ConnectionQueue :: "u32 \<Rightarrow> cqueue" where
  "ConnectionQueue n = \<lparr>maxConnections = n, connectionQueue = []\<rparr>"

text \<open>\<^verbatim>\<open>std::erase_if\<close> on a full queue: cancelled connections are shut down and leave.\<close>

definition erase_cancelled :: "int \<Rightarrow> connptr list \<Rightarrow> connects \<Rightarrow> connptr list \<times> connects" where
  "erase_cancelled now l cs =
     (filter (\<lambda>p. \<not> isCancelled (cs p) now) l,
      \<lambda>p. if p \<in> set l \<and> isCancelled (cs p) now then shutdown (cs p) else cs p)"

definition registerConnection :: "int \<Rightarrow> cqueue \<Rightarrow> connects \<Rightarrow> connptr option \<Rightarrow> (bool \<times> cqueue \<times> connects) res" where
  "registerConnection now q cs cd =
     (case cd of
        None \<Rightarrow> Throw (ExceptionWithStatus INVALID_ARGUMENT)
      | Some p \<Rightarrow>
          (let (l, cs1) = (if length (connectionQueue q) \<ge> unat (maxConnections q)
                           then erase_cancelled now (connectionQueue q) cs
                           else (connectionQueue q, cs));
               before = takeWhile (\<lambda>c. \<not> connect_less (cs1 p) (cs1 c)) l;
               inserted = before @ p # dropWhile (\<lambda>c. \<not> connect_less (cs1 p) (cs1 c)) l in
           if length l \<ge> unat (maxConnections q) then
             (if before \<noteq> [] then
                Ret (True, q\<lparr>connectionQueue := tl inserted\<rparr>,
                     cs1(hd inserted := shutdown (cs1 (hd inserted))))
              else Ret (False, q\<lparr>connectionQueue := l\<rparr>, cs1))
           else Ret (True, q\<lparr>connectionQueue := inserted\<rparr>, cs1)))"

definition deregisterConnection :: "cqueue \<Rightarrow> connptr \<Rightarrow> cqueue" where
  "deregisterConnection q cd = q\<lparr>connectionQueue := remove1 cd (connectionQueue q)\<rparr>"

section \<open>The order of connections\<close>

text \<open>
  \<^verbatim>\<open>operator<\<close> is the reflexive order of the rank: the priority first, then the age, where an older
  connection has the smaller identifier and ranks higher.
\<close>

definition rank :: "connect \<Rightarrow> int \<times> int" where
  "rank c = (uint (priority c), - uint (objectId c))"

lemma connect_less_rank: "connect_less c d \<longleftrightarrow> rank c \<le> rank d"
  by (auto simp: connect_less_def rank_def word_less_def word_le_def less_eq_prod_def word_uint_eq_iff)

lemma rank_shutdown [simp]: "rank (shutdown c) = rank c"
  by (simp add: rank_def shutdown_def)

lemma insort_split:
  "takeWhile (\<lambda>y. \<not> f x \<le> f y) l @ x # dropWhile (\<lambda>y. \<not> f x \<le> f y) l = insort_key f x l"
  by (induction l) auto

lemmas insort_rank = insort_split [where f = "\<lambda>c. rank (cs c)" for cs]

lemma insort_first: "takeWhile (\<lambda>y. \<not> f x \<le> f y) l = [] \<Longrightarrow> insort_key f x l = x # l"
  by (cases l) (auto split: if_splits)

lemma hd_insort_old:
  "takeWhile (\<lambda>y. \<not> f x \<le> f y) l \<noteq> [] \<Longrightarrow> hd (insort_key f x l) = hd l \<and> tl (insort_key f x l) = insort_key f x (tl l) \<and> l \<noteq> []"
  by (cases l) (auto split: if_splits)

definition queue_ok :: "cqueue \<Rightarrow> connects \<Rightarrow> bool" where
  "queue_ok q cs \<longleftrightarrow>
     length (connectionQueue q) \<le> unat (maxConnections q) \<and> distinct (connectionQueue q)
     \<and> sorted (map (\<lambda>p. rank (cs p)) (connectionQueue q))"

text \<open>What registering a connection should do: of the connections in question, keep the best.\<close>

definition admitted :: "int \<Rightarrow> cqueue \<Rightarrow> connects \<Rightarrow> connptr \<Rightarrow> connptr list" where
  "admitted now q cs p =
     (let alive = (if length (connectionQueue q) \<ge> unat (maxConnections q)
                   then filter (\<lambda>c. \<not> isCancelled (cs c) now) (connectionQueue q)
                   else connectionQueue q);
          ranked = insort_key (\<lambda>c. rank (cs c)) p alive in
      drop (length ranked - unat (maxConnections q)) ranked)"

lemma rank_erase [simp]: "rank (snd (erase_cancelled now l cs) c) = rank (cs c)"
  by (simp add: erase_cancelled_def)

lemma registerConnection_room:
  assumes new: "p \<notin> set (connectionQueue q)"
    and room: "length (fst (if length (connectionQueue q) \<ge> unat (maxConnections q)
                            then erase_cancelled now (connectionQueue q) cs else (connectionQueue q, cs)))
               < unat (maxConnections q)"
  shows "\<exists>cs'. registerConnection now q cs (Some p) =
                 Ret (p \<in> set (admitted now q cs p), q\<lparr>connectionQueue := admitted now q cs p\<rparr>, cs')
             \<and> (\<forall>c. cs' c = (if c \<in> set (connectionQueue q) - set (admitted now q cs p)
                            then shutdown (cs c) else cs c))"
proof (cases "length (connectionQueue q) \<ge> unat (maxConnections q)")
  case True
  then show ?thesis using room new
    by (auto simp: registerConnection_def Let_def connect_less_rank insort_rank admitted_def
        erase_cancelled_def set_insort_key if_distrib [of rank] cong: if_cong)
next
  case False
  then show ?thesis using room
    by (auto simp: registerConnection_def Let_def connect_less_rank insort_rank admitted_def
        erase_cancelled_def set_insort_key)
qed

lemma erase_none:
  assumes "length (connectionQueue q) \<le> n" "n \<le> length (fst (erase_cancelled now (connectionQueue q) cs))"
  shows "erase_cancelled now (connectionQueue q) cs = (connectionQueue q, cs)"
proof -
  have "filter (\<lambda>c. \<not> isCancelled (cs c) now) (connectionQueue q) = connectionQueue q"
    using assms length_filter_le [of "\<lambda>c. \<not> isCancelled (cs c) now" "connectionQueue q"]
    by (metis (no_types, lifting) erase_cancelled_def fst_conv le_antisym le_trans length_filter_less
        filter_True less_irrefl)
  then show ?thesis by (auto simp: erase_cancelled_def filter_id_conv fun_eq_iff)
qed

lemma registerConnection_full:
  assumes ok: "queue_ok q cs" and new: "p \<notin> set (connectionQueue q)"
    and full: "unat (maxConnections q) \<le> length (connectionQueue q)"
    and none: "erase_cancelled now (connectionQueue q) cs = (connectionQueue q, cs)"
  shows "\<exists>cs'. registerConnection now q cs (Some p) =
                 Ret (p \<in> set (admitted now q cs p), q\<lparr>connectionQueue := admitted now q cs p\<rparr>, cs')
             \<and> (\<forall>c. cs' c = (if c \<in> set (connectionQueue q) - set (admitted now q cs p)
                            then shutdown (cs c) else cs c))"
proof -
  let ?Q = "connectionQueue q" and ?f = "\<lambda>c. rank (cs c)"
  have len: "length ?Q = unat (maxConnections q)" using ok full by (simp add: queue_ok_def)
  have adm: "admitted now q cs p = tl (insort_key ?f p ?Q)"
    using none len by (simp add: admitted_def erase_cancelled_def drop_Suc)
  show ?thesis
  proof (cases "takeWhile (\<lambda>y. \<not> ?f p \<le> ?f y) ?Q = []")
    case True
    have "admitted now q cs p = ?Q" using adm insort_first [OF True] by simp
    with True none len new show ?thesis by (simp add: registerConnection_def connect_less_rank)
  next
    case False
    note h = hd_insort_old [OF False]
    have "distinct ?Q" using ok by (simp add: queue_ok_def)
    with h have "hd ?Q \<in> set ?Q" "hd ?Q \<notin> set (tl ?Q)" "set ?Q = insert (hd ?Q) (set (tl ?Q))"
      by (cases ?Q, auto)+
    moreover have "hd (takeWhile (\<lambda>y. \<not> ?f p \<le> ?f y) ?Q) = hd ?Q"
      "tl (takeWhile (\<lambda>y. \<not> ?f p \<le> ?f y) ?Q) @ p # dropWhile (\<lambda>y. \<not> ?f p \<le> ?f y) ?Q = insort_key ?f p (tl ?Q)"
      using h False arg_cong [OF insort_rank [of cs p ?Q], of tl] by (cases ?Q; simp split: if_splits)+
    ultimately show ?thesis using h False none len new adm
      by (auto simp: registerConnection_def Let_def connect_less_rank set_insort_key)
  qed
qed

lemma registerConnection_refines:
  assumes ok: "queue_ok q cs" and new: "p \<notin> set (connectionQueue q)"
  shows "\<exists>cs'. registerConnection now q cs (Some p) =
                 Ret (p \<in> set (admitted now q cs p), q\<lparr>connectionQueue := admitted now q cs p\<rparr>, cs')
             \<and> (\<forall>c. cs' c = (if c \<in> set (connectionQueue q) - set (admitted now q cs p)
                            then shutdown (cs c) else cs c))"
proof (cases "length (fst (if length (connectionQueue q) \<ge> unat (maxConnections q)
                 then erase_cancelled now (connectionQueue q) cs else (connectionQueue q, cs)))
               < unat (maxConnections q)")
  case True
  then show ?thesis by (rule registerConnection_room [OF new])
next
  case False
  then have full: "unat (maxConnections q) \<le> length (connectionQueue q)" by (auto split: if_splits)
  moreover have "erase_cancelled now (connectionQueue q) cs = (connectionQueue q, cs)"
    using False full ok by (intro erase_none [of q "unat (maxConnections q)"]) (simp_all add: queue_ok_def)
  ultimately show ?thesis by (rule registerConnection_full [OF ok new])
qed

lemma admitted_ok:
  assumes "queue_ok q cs" "p \<notin> set (connectionQueue q)"
  shows "length (admitted now q cs p) \<le> unat (maxConnections q)" "distinct (admitted now q cs p)"
    "sorted (map (\<lambda>c. rank (cs c)) (admitted now q cs p))"
    "set (admitted now q cs p) \<subseteq> insert p (set (connectionQueue q))"
  using assms
  by (auto simp: admitted_def Let_def queue_ok_def distinct_insort set_insort_key sorted_insort_key sorted_filter
      drop_map [symmetric] sorted_wrt_drop distinct_drop dest!: in_set_dropD split: if_splits)

section \<open>Interleavings\<close>

text \<open>
  The calls on the queue and whatever else happens to the connections in between: updates,
  cancellation, expiry. The priority of a connection is set before it is registered.
\<close>

inductive queue_step :: "cqueue \<times> connects \<Rightarrow> cqueue \<times> connects \<Rightarrow> bool" where
  registered: "registerConnection now q cs (Some p) = Ret (added, q', cs') \<Longrightarrow> p \<notin> set (connectionQueue q) \<Longrightarrow>
     queue_step (q, cs) (q', cs')"
| deregistered: "queue_step (q, cs) (deregisterConnection q p, cs)"
| elsewhere: "(\<And>p. p \<in> set (connectionQueue q) \<Longrightarrow> rank (cs' p) = rank (cs p)) \<Longrightarrow> queue_step (q, cs) (q, cs')"

inductive_cases queue_stepE: "queue_step s t"

lemma queue_ok_cong:
  "(\<And>p. p \<in> set (connectionQueue q) \<Longrightarrow> rank (cs' p) = rank (cs p)) \<Longrightarrow> queue_ok q cs' = queue_ok q cs"
  by (simp add: queue_ok_def cong: map_cong)

lemma register_ok:
  assumes "queue_ok q cs" "p \<notin> set (connectionQueue q)" "registerConnection now q cs (Some p) = Ret (added, q', cs')"
  shows "queue_ok q' cs'" "maxConnections q' = maxConnections q" "connectionQueue q' = admitted now q cs p"
    "added \<longleftrightarrow> p \<in> set (connectionQueue q')"
    "cs' c = (if c \<in> set (connectionQueue q) - set (connectionQueue q') then shutdown (cs c) else cs c)"
proof -
  from registerConnection_refines [OF assms(1,2), of now] assms(3) have
    r: "added \<longleftrightarrow> p \<in> set (admitted now q cs p)" "q' = q\<lparr>connectionQueue := admitted now q cs p\<rparr>"
    "\<And>c. cs' c = (if c \<in> set (connectionQueue q) - set (admitted now q cs p) then shutdown (cs c) else cs c)"
    by auto
  from r(2) show "maxConnections q' = maxConnections q" and adm: "connectionQueue q' = admitted now q cs p" by simp_all
  from r adm show "added \<longleftrightarrow> p \<in> set (connectionQueue q')"
    "cs' c = (if c \<in> set (connectionQueue q) - set (connectionQueue q') then shutdown (cs c) else cs c)" by simp_all
  have "queue_ok q' cs" using admitted_ok [OF assms(1,2), of now] r(2) by (simp add: queue_ok_def)
  moreover have "queue_ok q' cs' = queue_ok q' cs" by (rule queue_ok_cong) (simp add: r(3))
  ultimately show "queue_ok q' cs'" by simp
qed

lemma deregister_ok: "queue_ok q cs \<Longrightarrow> queue_ok (deregisterConnection q p) cs"
  using length_remove1 [of p "connectionQueue q"]
  by (auto simp: queue_ok_def deregisterConnection_def sorted_map_remove1)

lemma queue_step_ok:
  "queue_step s t \<Longrightarrow> queue_ok (fst s) (snd s) \<Longrightarrow>
     queue_ok (fst t) (snd t) \<and> maxConnections (fst t) = maxConnections (fst s)"
proof (induction rule: queue_step.induct)
  case (elsewhere q cs' cs)
  then show ?case using queue_ok_cong [of q cs' cs] by simp
qed (simp_all add: register_ok(1,2) deregister_ok, simp add: deregisterConnection_def)

lemma queue_steps_ok:
  "queue_step\<^sup>*\<^sup>* s t \<Longrightarrow> queue_ok (fst s) (snd s) \<Longrightarrow>
     queue_ok (fst t) (snd t) \<and> maxConnections (fst t) = maxConnections (fst s)"
  by (induction rule: rtranclp_induct) (auto dest: queue_step_ok)

section \<open>Properties\<close>

text \<open>The part of a list sorted by \<open>f\<close> that \<open>drop\<close> leaves is the largest.\<close>

lemma drop_keeps_largest:
  assumes "sorted (map f l)" "x \<in> set l" "x \<notin> set (drop n l)" "y \<in> set (drop n l)"
  shows "f x \<le> f y"
proof -
  have "x \<in> set (take n l)" using assms(2,3) by (metis Un_iff append_take_drop_id set_append)
  moreover have "sorted (map f (take n l @ drop n l))" using assms(1) by simp
  ultimately show ?thesis using assms(4) unfolding map_append sorted_append by auto
qed

lemma admitted_largest:
  assumes "queue_ok q cs" "p \<notin> set (connectionQueue q)" "kept \<in> set (admitted now q cs p)"
    and "out \<in> insert p (set (connectionQueue q)) - set (admitted now q cs p)"
    and "\<not> isCancelled (cs out) now \<or> out = p"
  shows "rank (cs out) \<le> rank (cs kept)"
proof -
  define alive where "alive = (if length (connectionQueue q) \<ge> unat (maxConnections q)
      then filter (\<lambda>c. \<not> isCancelled (cs c) now) (connectionQueue q) else connectionQueue q)"
  define ranked where "ranked = insort_key (\<lambda>c. rank (cs c)) p alive"
  have adm: "admitted now q cs p = drop (length ranked - unat (maxConnections q)) ranked"
    by (simp add: admitted_def alive_def ranked_def Let_def)
  have "sorted (map (\<lambda>c. rank (cs c)) ranked)"
    using assms(1) by (simp add: ranked_def alive_def queue_ok_def sorted_insort_key sorted_filter)
  moreover have "out \<in> set ranked" using assms(4,5) by (auto simp: ranked_def alive_def set_insort_key)
  ultimately show ?thesis
    using drop_keeps_largest [of "\<lambda>c. rank (cs c)" ranked out _ kept] assms(3,4) unfolding adm by blast
qed


definition ex_connects :: connects where
  "ex_connects p = (Connect (of_nat p))\<lparr>priority := (if p = 2 then 9 else 3), cn_authz := Some kAuthzDisabled\<rparr>"


text \<open>
  however registrations, departures and the life of the connections interleave, the queue
  never holds more connections than the configured limit, none twice, and it stays ordered.
\<close>

theorem connection_limit:
  assumes "queue_step\<^sup>*\<^sup>* (ConnectionQueue n, cs0) (q, cs)"
  shows "length (connectionQueue q) \<le> unat n \<and> distinct (connectionQueue q)
     \<and> sorted_wrt (\<lambda>c d. connect_less (cs c) (cs d)) (connectionQueue q)"
proof -
  have "queue_ok (ConnectionQueue n) cs0" by (simp add: queue_ok_def ConnectionQueue_def)
  with queue_steps_ok [OF assms] have "queue_ok q cs" "maxConnections q = n" by (simp_all add: ConnectionQueue_def)
  then show ?thesis by (simp add: queue_ok_def connect_less_rank sorted_map)
qed

theorem connection_limit_witness:
  "\<exists>q cs. queue_step\<^sup>*\<^sup>* (ConnectionQueue 1, ex_connects) (q, cs) \<and> connectionQueue q = [1]
     \<and> length (connectionQueue q) \<le> unat (1 :: u32)"
proof -
  have r: "registerConnection 0 (ConnectionQueue 1) ex_connects (Some 1)
      = Ret (True, (ConnectionQueue 1)\<lparr>connectionQueue := [1]\<rparr>, ex_connects)"
    by (simp add: registerConnection_def ConnectionQueue_def)
  have "queue_step (ConnectionQueue 1, ex_connects) ((ConnectionQueue 1)\<lparr>connectionQueue := [1]\<rparr>, ex_connects)"
    by (rule queue_step.registered [OF r]) (simp add: ConnectionQueue_def)
  then have "queue_step\<^sup>*\<^sup>* (ConnectionQueue 1, ex_connects) ((ConnectionQueue 1)\<lparr>connectionQueue := [1]\<rparr>, ex_connects)"
    by (rule r_into_rtranclp)
  with connection_limit [OF this] show ?thesis by (intro exI conjI) auto
qed


definition ex_connect :: connect where
  "ex_connect = (Connect 1)\<lparr>cn_authz := Some kAuthzDisabled, detailLevel := FULL\<rparr>"

abbreviation ex_param :: param where
  "ex_param \<equiv> top_param ex_device (RParam ''mix'') ex_item"

lemma ex_param_ok: "handle_ok ex_param (dp_value ex_item)"
proof -
  have "map_of (params ex_device) ''mix'' = Some ex_item" by code_simp
  from top_param_live [OF ex_device_ok(1) this] show ?thesis by (simp add: live_def)
qed

lemma ex_connect_open: "\<not> isCancelled ex_connect 0" "cn_authz ex_connect = Some kAuthzDisabled"
  by (simp_all add: ex_connect_def isCancelled_def Connect_def isExpired_def kAuthzDisabled_def)


text \<open>
  There is room for one message only: an update that arrives before the writer has sent the
  previous one replaces it, so a client misses changes of a multi-set.
\<close>

lemma pending_update_lost:
  "\<exists>c1 c2 pv w. updateResponse ex_connect ''/mix'' ex_param (dp_value ex_item) 1 [] (\<lambda>_. {}) 0 = Ret c1
     \<and> pu_kind (cn_res c1) = PushValue ''/mix'' (Some pv) \<and> hasUpdate c1
     \<and> updateResponse c1 ''/tags'' (top_param ex_device (RParam ''tags'') ex_array) (VVec []) 1 [] (\<lambda>_. {}) 0 = Ret c2
     \<and> pu_kind (cn_res c2) = PushValue ''/tags'' (Some w)"
proof -
  have "updateResponse ex_connect ''/mix'' ex_param (dp_value ex_item) 1 [] (\<lambda>_. {}) 0
      = Ret (ex_connect\<lparr>cn_res := \<lparr>pu_slot = 1, pu_kind = PushValue ''/mix''
               (Some (StructValue [(''level'', Int32Value 7), (''tags'', StringArray [])]))\<rparr>, hasUpdate := True\<rparr>)"
    by code_simp
  moreover have "updateResponse (ex_connect\<lparr>cn_res := \<lparr>pu_slot = 1, pu_kind = PushValue ''/mix''
               (Some (StructValue [(''level'', Int32Value 7), (''tags'', StringArray [])]))\<rparr>, hasUpdate := True\<rparr>)
         ''/tags'' (top_param ex_device (RParam ''tags'') ex_array) (VVec []) 1 [] (\<lambda>_. {}) 0
      = Ret (ex_connect\<lparr>cn_res := \<lparr>pu_slot = 1, pu_kind = PushValue ''/tags'' (Some (StringArray []))\<rparr>, hasUpdate := True\<rparr>)"
    by code_simp
  ultimately show ?thesis by (intro exI conjI) (assumption | simp)+
qed

end
