(* ===== verification/Rpc_Core.thy ===== *)
theory Rpc_Core
  imports Connection_Queue
begin

text \<open>
  The gRPC service (\<^verbatim>\<open>connections/gRPC\<close>): \<^verbatim>\<open>ServiceImpl\<close>, the base class \<^verbatim>\<open>CallData\<close> and the
  controllers that answer a request with one message. A call object is driven by the completion
  queue of the gRPC library, which calls \<^verbatim>\<open>proceed\<close> once per event; here every event is one
  application of a \<^verbatim>\<open>proceed\<close> function, and what the call hands to its responder is recorded in the
  order it happens. The messages of the protocol and the completion queue belong to the library;
  the locks only order the calls.
\<close>

section \<open>The service\<close>

datatype CallStatus = kCreate | kProcess | kRead | kWrite | kPostWrite | kFinish

datatype rpc =
    RGetPopulatedSlots | RGetValue | RSetValue | RMultiSetValue | RConnect | RDeviceRequest
  | RExternalObjectRequest | RParamInfoRequest | RGetParam | RExecuteCommand | RAddLanguage
  | RListLanguages | RLanguagePackRequest | RUpdateSubscriptions

type_synonym callptr = connptr

text \<open>
  \<open>listening\<close> are the calls whose \<^verbatim>\<open>Request\<dots>\<close> was handed to the library and that wait for a client;
  \<open>listeners\<close> are the connections attached to the three signals of the device in a slot, and
  \<open>shutdownSignal\<close> those attached to the static signal that ends them all.
\<close>

record service =
  dms :: slotmap
  subscriptionManager :: subscriptions_map
  authorizationEnabled :: bool
  connectionQueue_of :: cqueue
  connects_of :: connects
  EOPath :: string
  registry :: "callptr list"
  objectCounter :: "rpc \<Rightarrow> u32"
  next_ptr :: callptr
  listening :: "(rpc \<times> callptr) list"
  listeners :: "(u32 \<times> callptr) list"
  shutdownSignal :: "callptr list"

fun add_devices :: "device list \<Rightarrow> slotmap \<Rightarrow> slotmap res" where
  "add_devices [] m = Ret m"
| "add_devices (dm # rest) m =
     (if map_of m (slot dm) \<noteq> None then Throw RuntimeError
      else add_devices rest (m @ [(slot dm, Some dm)]))"

text \<open>The completion queue is given; \<^verbatim>\<open>cq_ok\<close> says that it is not null.\<close>

definition ServiceImpl :: "bool \<Rightarrow> device list \<Rightarrow> string \<Rightarrow> bool \<Rightarrow> u32 \<Rightarrow> service res" where
  "ServiceImpl cq_ok devices eoPath authz maxConn =
     (if \<not> cq_ok then Throw RuntimeError
      else res_bind (add_devices devices []) (\<lambda>m.
        Ret \<lparr>dms = m, subscriptionManager = (\<lambda>_. {}), authorizationEnabled = authz,
             connectionQueue_of = ConnectionQueue maxConn, connects_of = (\<lambda>_. Connect 0), EOPath = eoPath,
             registry = [], objectCounter = (\<lambda>_. 0), next_ptr = 0, listening = [], listeners = [], shutdownSignal = []\<rparr>))"

definition registerItem :: "callptr \<Rightarrow> service \<Rightarrow> service" where
  "registerItem cd sv = sv\<lparr>registry := registry sv @ [cd]\<rparr>"

definition deregisterItem :: "callptr \<Rightarrow> service \<Rightarrow> service" where
  "deregisterItem cd sv = sv\<lparr>registry := remove1 cd (registry sv)\<rparr>"

text \<open>
  The constructor of a call object: it takes the next identifier of its class, registers itself
  and, through \<^verbatim>\<open>proceed\<close>, asks the library for a client or deregisters again.
\<close>

definition new_call :: "rpc \<Rightarrow> bool \<Rightarrow> service \<Rightarrow> service" where
  "new_call r ok sv =
     (let p = next_ptr sv;
          sv1 = registerItem p (sv\<lparr>next_ptr := Suc p, objectCounter := (objectCounter sv)(r := objectCounter sv r + 1),
                  connects_of := (if r = RConnect then (connects_of sv)(p := Connect (objectCounter sv r)) else connects_of sv)\<rparr>) in
      if ok then sv1\<lparr>listening := listening sv1 @ [(r, p)]\<rparr> else deregisterItem p sv1)"

definition init_service :: "service \<Rightarrow> service" where
  "init_service sv = fold (\<lambda>r. new_call r True)
     [RGetPopulatedSlots, RGetValue, RSetValue, RMultiSetValue, RConnect, RDeviceRequest, RExternalObjectRequest,
      RParamInfoRequest, RGetParam, RExecuteCommand, RAddLanguage, RListLanguages, RLanguagePackRequest,
      RUpdateSubscriptions] sv"

section \<open>Calls\<close>

text \<open>What a call asks of its responder.\<close>

datatype 'r reply =
    Write 'r
  | Finish 'r
  | FinishStatus StatusCode

record ('q, 'r) call =
  cl_ptr :: callptr
  cl_status :: CallStatus
  cl_req :: 'q
  cl_meta :: "(string \<times> string) list"
  requestStart :: int
  requestReceived :: int
  cl_out :: "'r reply list"

definition reply :: "'r reply \<Rightarrow> ('q, 'r, 'z) call_scheme \<Rightarrow> ('q, 'r, 'z) call_scheme" where
  "reply m c = c\<lparr>cl_out := cl_out c @ [m]\<rparr>"

text \<open>The pointer to the meta data is the address of a reference and is never null.\<close>

definition jwsToken :: "service \<Rightarrow> (string \<times> string) list \<Rightarrow> string res" where
  "jwsToken sv meta =
     (if authorizationEnabled sv then
        (case map_of meta ''authorization'' of
           None \<Rightarrow> Throw (ExceptionWithStatus UNAUTHENTICATED)
         | Some v \<Rightarrow>
             if starts_with v ''Bearer '' then Ret (drop (length ''Bearer '') v)
             else Throw (ExceptionWithStatus UNAUTHENTICATED))
      else Ret [])"

definition processTimestamps :: "int \<Rightarrow> ('q, 'r, 'z) call_scheme \<Rightarrow> ('q, 'r, 'z) call_scheme" where
  "processTimestamps now c =
     (let c1 = c\<lparr>requestReceived := now\<rparr> in
      case map_of (cl_meta c) ''request-start'' of
        None \<Rightarrow> c1
      | Some v \<Rightarrow> c1\<lparr>requestStart := snd (readTimestamp v (requestStart c))\<rparr>)"

text \<open>The two checks every controller starts with: the slot and the token.\<close>

definition find_device :: "service \<Rightarrow> int \<Rightarrow> device option res" where
  "find_device sv s =
     (if s < 0 \<or> s > 65535 then Throw (ExceptionWithStatus INVALID_ARGUMENT)
      else Ret (device_at (dms sv) (word_of_int s)))"

type_synonym jwt = "string \<Rightarrow> (string \<times> claim) list option"

definition call_authz :: "jwt \<Rightarrow> service \<Rightarrow> (string \<times> string) list \<Rightarrow> authorizer res" where
  "call_authz decode sv meta =
     (if authorizationEnabled sv then res_bind (jwsToken sv meta) (Authorizer decode)
      else Ret kAuthzDisabled)"

text \<open>The \<^verbatim>\<open>catch\<close> clauses of the controllers: the status of the call when its \<^verbatim>\<open>try\<close> block throws.\<close>

fun catch_status :: "exn \<Rightarrow> StatusCode" where
  "catch_status (ExceptionWithStatus st) = st"
| "catch_status _ = UNKNOWN"

fun try_catch :: "service \<Rightarrow> 'r \<Rightarrow> (service \<times> 'r \<times> StatusCode) res \<Rightarrow> (service \<times> 'r \<times> StatusCode) res" where
  "try_catch sv ans (Ret x) = Ret x"
| "try_catch sv ans (Throw e) = Ret (sv, ans, catch_status e)"
| "try_catch sv ans Undef = Undef"

section \<open>Signals\<close>

text \<open>
  The signals of a device run \<^verbatim>\<open>updateResponse_\<close> of every attached connection. It changes nothing but
  the connection, so the signals of an operation are handled in order after it.
\<close>

definition notify :: "int \<Rightarrow> u32 \<Rightarrow> event \<Rightarrow> callptr \<Rightarrow> service \<Rightarrow> service res" where
  "notify now s ev p sv =
     res_bind (case ev of
                 ValueSetByClient oid q v \<Rightarrow> updateResponse (connects_of sv p) oid q v s (dms sv) (subscriptionManager sv) now
               | ValueSetByServer oid q v \<Rightarrow> updateResponse (connects_of sv p) oid q v s (dms sv) (subscriptionManager sv) now
               | LanguageAdded l \<Rightarrow> updateResponse_language (connects_of sv p) l s now)
       (\<lambda>c. Ret (sv\<lparr>connects_of := (connects_of sv)(p := c)\<rparr>))"

fun notify_all :: "int \<Rightarrow> u32 \<Rightarrow> event \<Rightarrow> callptr list \<Rightarrow> service \<Rightarrow> service res" where
  "notify_all now s ev [] sv = Ret sv"
| "notify_all now s ev (p # ps) sv = res_bind (notify now s ev p sv) (notify_all now s ev ps)"

definition attached :: "service \<Rightarrow> u32 \<Rightarrow> callptr list" where
  "attached sv s = map snd (filter (\<lambda>(s', p). s' = s) (listeners sv))"

fun dispatch :: "int \<Rightarrow> u32 \<Rightarrow> event list \<Rightarrow> service \<Rightarrow> service res" where
  "dispatch now s [] sv = Ret sv"
| "dispatch now s (ev # evs) sv = res_bind (notify_all now s ev (attached sv s) sv) (dispatch now s evs)"

text \<open>Store a device an operation has changed, and handle the signals it emitted.\<close>

definition put_device :: "int \<Rightarrow> u32 \<Rightarrow> device \<Rightarrow> device \<Rightarrow> service \<Rightarrow> service res" where
  "put_device now s old dm sv =
     dispatch now s (drop (length (emitted old)) (emitted dm)) (sv\<lparr>dms := AList.update s (Some dm) (dms sv)\<rparr>)"

section \<open>Calls with one answer\<close>

text \<open>
  The switch that the controllers with a single answer share. \<open>process\<close> is what the controller does
  between the creation of its successor and the answer, its \<^verbatim>\<open>try\<close> and \<^verbatim>\<open>catch\<close> included; \<open>now\<close> is the clock.
\<close>

definition unary_proceed :: "rpc \<Rightarrow> (int \<Rightarrow> service \<Rightarrow> ('q, 'r) call \<Rightarrow> (service \<times> 'r \<times> StatusCode) res)
    \<Rightarrow> int \<Rightarrow> service \<Rightarrow> ('q, 'r) call \<Rightarrow> bool \<Rightarrow> (service \<times> ('q, 'r) call) res" where
  "unary_proceed r process now sv c ok =
     (let c0 = (if ok then c else c\<lparr>cl_status := kFinish\<rparr>) in
      case cl_status c0 of
        kCreate \<Rightarrow> Ret (sv\<lparr>listening := listening sv @ [(r, cl_ptr c0)]\<rparr>, c0\<lparr>cl_status := kProcess\<rparr>)
      | kProcess \<Rightarrow>
          (let c1 = processTimestamps now c0; sv1 = new_call r ok sv in
           res_bind (process now sv1 c1) (\<lambda>(sv2, ans, rc).
           Ret (sv2, reply (if rc = OK then Finish ans else FinishStatus rc) (c1\<lparr>cl_status := kFinish\<rparr>))))
      | kFinish \<Rightarrow> Ret (deregisterItem (cl_ptr c0) sv, c0)
      | _ \<Rightarrow> Ret (sv, reply (FinishStatus INTERNAL) (c0\<lparr>cl_status := kFinish\<rparr>)))"

section \<open>The invariant of the service\<close>

definition slots_ok :: "slotmap \<Rightarrow> bool" where
  "slots_ok m \<longleftrightarrow> (\<forall>s dm. device_at m s = Some dm \<longrightarrow> device_ok dm \<and> slot dm = s)"

definition connections_ok :: "service \<Rightarrow> bool" where
  "connections_ok sv \<longleftrightarrow>
     queue_ok (connectionQueue_of sv) (connects_of sv)
     \<and> (\<forall>p \<in> set (connectionQueue (connectionQueue_of sv)). p < next_ptr sv)
     \<and> distinct (listeners sv)
     \<and> (\<forall>(s, p) \<in> set (listeners sv). p < next_ptr sv \<and> cn_authz (connects_of sv p) \<noteq> None)"

definition registry_ok :: "service \<Rightarrow> bool" where
  "registry_ok sv \<longleftrightarrow>
     distinct (registry sv) \<and> (\<forall>p \<in> set (registry sv). p < next_ptr sv)
     \<and> (\<forall>(r, p) \<in> set (listening sv). p \<in> set (registry sv)) \<and> distinct (map snd (listening sv))"

definition service_ok :: "service \<Rightarrow> bool" where
  "service_ok sv \<longleftrightarrow> slots_ok (dms sv) \<and> connections_ok sv \<and> registry_ok sv"

text \<open>The handling of signals changes connections only, and neither their rank nor their authorizer.\<close>

definition only_connects :: "service \<Rightarrow> service \<Rightarrow> bool" where
  "only_connects sv sv' \<longleftrightarrow>
     (\<exists>cs. sv' = sv\<lparr>connects_of := cs\<rparr> \<and> (\<forall>p. rank (cs p) = rank (connects_of sv p) \<and> cn_authz (cs p) = cn_authz (connects_of sv p)))"

lemma only_connects_refl [simp]: "only_connects sv sv"
  by (auto simp: only_connects_def intro: exI [of _ "connects_of sv"])

lemma only_connects_trans: "only_connects sv sv' \<Longrightarrow> only_connects sv' sv'' \<Longrightarrow> only_connects sv sv''"
  by (fastforce simp: only_connects_def)

lemma only_connects_ok: "only_connects sv sv' \<Longrightarrow> service_ok sv' = service_ok sv"
  using queue_ok_cong [of "connectionQueue_of sv" "connects_of sv'" "connects_of sv"]
  by (auto simp: only_connects_def service_ok_def connections_ok_def registry_ok_def)

fun event_ok :: "event \<Rightarrow> bool" where
  "event_ok (ValueSetByClient oid p v) = handle_ok p v"
| "event_ok (ValueSetByServer oid p v) = handle_ok p v"
| "event_ok (LanguageAdded l) = True"

lemma updateResponse_total:
  assumes "handle_ok p v" "cn_authz c \<noteq> None"
  shows "\<exists>c'. updateResponse c oid p v s m sm now = Ret c' \<and> rank c' = rank c \<and> cn_authz c' = cn_authz c"
proof -
  from assms(2) obtain a where a: "cn_authz c = Some a" by blast
  from to_total [of "p_ctype p" v "p_desc p" KindNotSet a] assms(1) obtain rc x where
    "toProto (p_ctype p) KindNotSet v (p_desc p) a = Ret (rc, x)" by (auto simp: handle_ok_def)
  then show ?thesis by (simp add: updateResponse_def param_toProto_value_def a rank_def)
qed

lemma notify_total:
  assumes "event_ok ev" "cn_authz (connects_of sv p) \<noteq> None"
  shows "\<exists>sv'. notify now s ev p sv = Ret sv' \<and> only_connects sv sv'
       \<and> (\<forall>q. q \<noteq> p \<longrightarrow> connects_of sv' q = connects_of sv q)"
proof -
  have "\<exists>c. (case ev of
                 ValueSetByClient oid q v \<Rightarrow> updateResponse (connects_of sv p) oid q v s (dms sv) (subscriptionManager sv) now
               | ValueSetByServer oid q v \<Rightarrow> updateResponse (connects_of sv p) oid q v s (dms sv) (subscriptionManager sv) now
               | LanguageAdded l \<Rightarrow> updateResponse_language (connects_of sv p) l s now) = Ret c
          \<and> rank c = rank (connects_of sv p) \<and> cn_authz c = cn_authz (connects_of sv p)"
    using assms updateResponse_total
    by (cases ev) (auto simp: updateResponse_language_def rank_def)
  then show ?thesis by (fastforce simp: notify_def only_connects_def)
qed

lemma notify_all_total:
  assumes "event_ok ev" "\<forall>p \<in> set ps. cn_authz (connects_of sv p) \<noteq> None"
  shows "\<exists>sv'. notify_all now s ev ps sv = Ret sv' \<and> only_connects sv sv'"
  using assms(2)
proof (induction ps arbitrary: sv)
  case (Cons p ps)
  with notify_total [OF assms(1), of sv p now s] obtain sv1 where
    1: "notify now s ev p sv = Ret sv1" "only_connects sv sv1" by auto
  then have "\<forall>q \<in> set ps. cn_authz (connects_of sv1 q) \<noteq> None" using Cons.prems by (auto simp: only_connects_def)
  from Cons.IH [OF this] 1 show ?case by (auto intro: only_connects_trans)
qed simp

lemma attached_only [simp]: "only_connects sv sv' \<Longrightarrow> attached sv' s = attached sv s"
  by (auto simp: only_connects_def attached_def)

lemma attached_authz: "connections_ok sv \<Longrightarrow> p \<in> set (attached sv s) \<Longrightarrow> cn_authz (connects_of sv p) \<noteq> None"
  by (force simp: connections_ok_def attached_def)

lemma attached_distinct: "connections_ok sv \<Longrightarrow> distinct (attached sv s)"
  by (auto simp: connections_ok_def attached_def distinct_map inj_on_def)

lemma dispatch_total:
  assumes "connections_ok sv" "list_all event_ok evs"
  shows "\<exists>sv'. dispatch now s evs sv = Ret sv' \<and> only_connects sv sv'"
  using assms
proof (induction evs arbitrary: sv)
  case (Cons ev evs)
  from notify_all_total [of ev "attached sv s" sv now s] attached_authz [OF Cons.prems(1)] Cons.prems(2) obtain sv1 where
    1: "notify_all now s ev (attached sv s) sv = Ret sv1" "only_connects sv sv1" by auto
  have "connections_ok sv1"
    using Cons.prems(1) 1(2) queue_ok_cong [of "connectionQueue_of sv" "connects_of sv1" "connects_of sv"]
    by (auto simp: only_connects_def connections_ok_def)
  with Cons.IH [of sv1] Cons.prems(2) 1 show ?case by (auto intro: only_connects_trans)
qed simp

lemma device_at_update: "device_at (AList.update s d m) t = (if t = s then d else device_at m t)"
  by (simp add: device_at_def update_conv')

lemma put_device_total:
  assumes "service_ok sv" "device_at (dms sv) s = Some old" "device_ok dm" "slot dm = s"
    and "emitted dm = emitted old @ evs" "list_all event_ok evs"
  shows "\<exists>sv'. put_device now s old dm sv = Ret sv' \<and> service_ok sv'
       \<and> only_connects (sv\<lparr>dms := AList.update s (Some dm) (dms sv)\<rparr>) sv'"
proof -
  let ?sv = "sv\<lparr>dms := AList.update s (Some dm) (dms sv)\<rparr>"
  have ok: "service_ok ?sv" using assms(1,3,4)
    by (auto simp: service_ok_def slots_ok_def device_at_update connections_ok_def registry_ok_def split: if_splits)
  with dispatch_total [of ?sv evs now s] assms(5,6) obtain sv' where
    "dispatch now s evs ?sv = Ret sv'" "only_connects ?sv sv'" by (auto simp: service_ok_def)
  with ok assms(5) only_connects_ok show ?thesis by (auto simp: put_device_def)
qed

end
