(* ===== verification/Rpc_Unary.thy ===== *)
theory Rpc_Unary
  imports Rpc_Core
begin

text \<open>
  The gRPC controllers that answer with a single message: \<^verbatim>\<open>GetValue\<close>, \<^verbatim>\<open>MultiSetValue\<close> and
  \<^verbatim>\<open>SetValue\<close>, \<^verbatim>\<open>GetParam\<close>, \<^verbatim>\<open>AddLanguage\<close>, \<^verbatim>\<open>ListLanguages\<close>, \<^verbatim>\<open>LanguagePackRequest\<close> and
  \<^verbatim>\<open>GetPopulatedSlots\<close>. Each \<open>\<dots>_process\<close> is the \<^verbatim>\<open>try\<close> block of the controller with its handlers.
  The locale \<open>unary_controller\<close> is what the shared switch relies on; the properties of the calls
  follow for every controller that interprets it.
\<close>

section \<open>Requests\<close>

record slot_oid =
  rq_slot :: int
  rq_oid :: string

record set_payload =
  sp_slot :: int
  sp_values :: "payload list"

record single_set_payload =
  ss_slot :: int
  ss_value :: payload

record add_language_payload =
  al_slot :: int
  al_id :: string
  al_pack :: lpack

section \<open>Controllers\<close>

definition GetValue_process :: "jwt \<Rightarrow> service \<Rightarrow> (slot_oid, pvalue option) call \<Rightarrow> (service \<times> pvalue option \<times> StatusCode) res" where
  "GetValue_process decode sv c =
     try_catch sv (Some KindNotSet)
       (res_bind (find_device sv (rq_slot (cl_req c))) (\<lambda>d. case d of
          None \<Rightarrow> Ret (sv, Some KindNotSet, NOT_FOUND)
        | Some dm \<Rightarrow>
            res_bind (call_authz decode sv (cl_meta c)) (\<lambda>authz.
            res_bind (getValue dm (rq_oid (cl_req c)) KindNotSet authz) (\<lambda>(rc, ans).
            Ret (sv, ans, rc)))))"

definition GetValue_proceed :: "jwt \<Rightarrow> int \<Rightarrow> service \<Rightarrow> (slot_oid, pvalue option) call \<Rightarrow> bool
    \<Rightarrow> (service \<times> (slot_oid, pvalue option) call) res" where
  "GetValue_proceed decode = unary_proceed RGetValue (\<lambda>_. GetValue_process decode)"

text \<open>The slot and the values are those of \<^verbatim>\<open>reqs_\<close> after \<^verbatim>\<open>toMulti_\<close>.\<close>

definition MultiSet_process :: "jwt \<Rightarrow> int \<Rightarrow> service \<Rightarrow> (string \<times> string) list \<Rightarrow> set_payload \<Rightarrow> (service \<times> unit \<times> StatusCode) res" where
  "MultiSet_process decode now sv meta reqs =
     try_catch sv ()
       (res_bind (find_device sv (sp_slot reqs)) (\<lambda>d. case d of
          None \<Rightarrow> Ret (sv, (), NOT_FOUND)
        | Some dm \<Rightarrow>
            res_bind (call_authz decode sv meta) (\<lambda>authz.
            res_bind (tryMultiSetValue dm (sp_values reqs) OK authz) (\<lambda>(ok, rc).
            if ok then
              res_bind (commitMultiSetValue dm (sp_values reqs) authz) (\<lambda>(dm', rc').
              res_bind (put_device now (word_of_int (sp_slot reqs)) dm dm' sv) (\<lambda>sv'.
              Ret (sv', (), rc')))
            else Ret (sv, (), rc)))))"

definition MultiSetValue_proceed :: "jwt \<Rightarrow> int \<Rightarrow> service \<Rightarrow> (set_payload, unit) call \<Rightarrow> bool
    \<Rightarrow> (service \<times> (set_payload, unit) call) res" where
  "MultiSetValue_proceed decode =
     unary_proceed RMultiSetValue (\<lambda>now sv c. MultiSet_process decode now sv (cl_meta c) (cl_req c))"

definition toMulti :: "single_set_payload \<Rightarrow> set_payload" where
  "toMulti req = \<lparr>sp_slot = ss_slot req, sp_values = [ss_value req]\<rparr>"

definition SetValue_proceed :: "jwt \<Rightarrow> int \<Rightarrow> service \<Rightarrow> (single_set_payload, unit) call \<Rightarrow> bool
    \<Rightarrow> (service \<times> (single_set_payload, unit) call) res" where
  "SetValue_proceed decode =
     unary_proceed RSetValue (\<lambda>now sv c. MultiSet_process decode now sv (cl_meta c) (toMulti (cl_req c)))"

definition GetParam_process :: "jwt \<Rightarrow> service \<Rightarrow> (slot_oid, string \<times> pparam) call \<Rightarrow> (service \<times> (string \<times> pparam) \<times> StatusCode) res" where
  "GetParam_process decode sv c =
     try_catch sv ([], pparam_default)
       (res_bind (find_device sv (rq_slot (cl_req c))) (\<lambda>d. case d of
          None \<Rightarrow> Ret (sv, ([], pparam_default), NOT_FOUND)
        | Some dm \<Rightarrow>
            res_bind (call_authz decode sv (cl_meta c)) (\<lambda>authz.
            res_bind (getParam_fqoid dm (rq_oid (cl_req c)) OK authz) (\<lambda>(param, rc).
            case param of
              Some p \<Rightarrow>
                if rc = OK then
                  res_bind (deref dm p) (\<lambda>v.
                  res_bind (param_toProto p v pparam_default authz) (\<lambda>(rc', msg).
                  Ret (sv, (pd_oid (node (p_desc p)), msg), rc')))
                else Ret (sv, ([], pparam_default), rc)
            | None \<Rightarrow> Ret (sv, ([], pparam_default), rc)))))"

definition GetParam_proceed :: "jwt \<Rightarrow> int \<Rightarrow> service \<Rightarrow> (slot_oid, string \<times> pparam) call \<Rightarrow> bool
    \<Rightarrow> (service \<times> (slot_oid, string \<times> pparam) call) res" where
  "GetParam_proceed decode = unary_proceed RGetParam (\<lambda>_. GetParam_process decode)"

definition AddLanguage_process :: "jwt \<Rightarrow> int \<Rightarrow> service \<Rightarrow> (add_language_payload, unit) call \<Rightarrow> (service \<times> unit \<times> StatusCode) res" where
  "AddLanguage_process decode now sv c =
     try_catch sv ()
       (res_bind (find_device sv (al_slot (cl_req c))) (\<lambda>d. case d of
          None \<Rightarrow> Ret (sv, (), NOT_FOUND)
        | Some dm \<Rightarrow>
            res_bind (call_authz decode sv (cl_meta c)) (\<lambda>authz.
            let (dm', rc) = addLanguage dm (al_id (cl_req c)) (al_pack (cl_req c)) authz in
            res_bind (put_device now (word_of_int (al_slot (cl_req c))) dm dm' sv) (\<lambda>sv'.
            Ret (sv', (), rc)))))"

definition AddLanguage_proceed :: "jwt \<Rightarrow> int \<Rightarrow> service \<Rightarrow> (add_language_payload, unit) call \<Rightarrow> bool
    \<Rightarrow> (service \<times> (add_language_payload, unit) call) res" where
  "AddLanguage_proceed decode = unary_proceed RAddLanguage (AddLanguage_process decode)"

definition ListLanguages_process :: "service \<Rightarrow> (int, string list) call \<Rightarrow> (service \<times> string list \<times> StatusCode) res" where
  "ListLanguages_process sv c =
     try_catch sv []
       (res_bind (find_device sv (cl_req c)) (\<lambda>d. case d of
          None \<Rightarrow> Ret (sv, [], NOT_FOUND)
        | Some dm \<Rightarrow> Ret (sv, toProto_LanguageList dm, OK)))"

definition ListLanguages_proceed :: "int \<Rightarrow> service \<Rightarrow> (int, string list) call \<Rightarrow> bool \<Rightarrow> (service \<times> (int, string list) call) res" where
  "ListLanguages_proceed = unary_proceed RListLanguages (\<lambda>_. ListLanguages_process)"

definition component_lpack_default :: component_language_pack where
  "component_lpack_default = \<lparr>clp_language = [], clp_pack = lpack_default\<rparr>"

definition LanguagePackRequest_process :: "service \<Rightarrow> (slot_oid, component_language_pack) call
    \<Rightarrow> (service \<times> component_language_pack \<times> StatusCode) res" where
  "LanguagePackRequest_process sv c =
     try_catch sv component_lpack_default
       (res_bind (find_device sv (rq_slot (cl_req c))) (\<lambda>d. case d of
          None \<Rightarrow> Ret (sv, component_lpack_default, NOT_FOUND)
        | Some dm \<Rightarrow>
            let (rc, ans) = getLanguagePack dm (rq_oid (cl_req c)) component_lpack_default in Ret (sv, ans, rc)))"

definition LanguagePackRequest_proceed :: "int \<Rightarrow> service \<Rightarrow> (slot_oid, component_language_pack) call \<Rightarrow> bool
    \<Rightarrow> (service \<times> (slot_oid, component_language_pack) call) res" where
  "LanguagePackRequest_proceed = unary_proceed RLanguagePackRequest (\<lambda>_. LanguagePackRequest_process)"

definition GetPopulatedSlots_proceed :: "int \<Rightarrow> service \<Rightarrow> (unit, u32 list) call \<Rightarrow> bool \<Rightarrow> (service \<times> (unit, u32 list) call) res" where
  "GetPopulatedSlots_proceed =
     unary_proceed RGetPopulatedSlots (\<lambda>_ sv c. Ret (sv, map fst (filter (\<lambda>(s, dm). dm \<noteq> None) (dms sv)), OK))"

section \<open>The contract of a controller\<close>

text \<open>What the processing of a request leaves alone: the registry and the calls that wait.\<close>

definition same_calls :: "service \<Rightarrow> service \<Rightarrow> bool" where
  "same_calls sv sv' \<longleftrightarrow>
     registry sv' = registry sv \<and> listening sv' = listening sv \<and> next_ptr sv' = next_ptr sv
     \<and> objectCounter sv' = objectCounter sv \<and> listeners sv' = listeners sv
     \<and> authorizationEnabled sv' = authorizationEnabled sv"

lemma same_calls_refl [simp]: "same_calls sv sv"
  by (simp add: same_calls_def)

lemma only_connects_same: "only_connects (sv\<lparr>dms := m\<rparr>) sv' \<Longrightarrow> same_calls sv sv'"
  by (auto simp: only_connects_def same_calls_def)

text \<open>A call that a client has been attached to: registered, no longer waiting, nothing sent.\<close>

definition ready :: "service \<Rightarrow> ('q, 'r, 'z) call_scheme \<Rightarrow> bool" where
  "ready sv c \<longleftrightarrow> cl_status c = kProcess \<and> cl_out c = []
     \<and> cl_ptr c \<in> set (registry sv) \<and> cl_ptr c \<notin> snd ` set (listening sv)"

fun is_answer :: "'r reply \<Rightarrow> bool" where
  "is_answer (Write m) = False"
| "is_answer (Finish m) = True"
| "is_answer (FinishStatus st) = (st \<noteq> OK)"

text \<open>
  The request is answered once when the client's event arrives, a successor waits for the next
  client, and the event that follows the answer takes the call out of the registry.
\<close>

definition answers_once :: "rpc \<Rightarrow> (int \<Rightarrow> service \<Rightarrow> ('q, 'r) call \<Rightarrow> bool \<Rightarrow> (service \<times> ('q, 'r) call) res)
    \<Rightarrow> service \<Rightarrow> ('q, 'r) call \<Rightarrow> bool" where
  "answers_once r proceed sv c \<longleftrightarrow>
     (\<forall>now now' ok. \<exists>sv1 c1 sv2 c2 m.
        proceed now sv c True = Ret (sv1, c1) \<and> cl_out c1 = [m] \<and> is_answer m
      \<and> registry sv1 = registry sv @ [next_ptr sv] \<and> listening sv1 = listening sv @ [(r, next_ptr sv)]
      \<and> proceed now' sv1 c1 ok = Ret (sv2, c2) \<and> cl_out c2 = [m]
      \<and> cl_ptr c \<notin> set (registry sv2) \<and> next_ptr sv \<in> set (registry sv2) \<and> service_ok sv2)"

lemma new_call_ok: "service_ok sv \<Longrightarrow> service_ok (new_call r True sv)"
  using queue_ok_cong [of "connectionQueue_of sv" "(connects_of sv)(next_ptr sv := Connect (objectCounter sv r))" "connects_of sv"]
  by (fastforce simp: service_ok_def connections_ok_def registry_ok_def new_call_def registerItem_def Let_def)

lemma new_call_simps [simp]:
  "dms (new_call r True sv) = dms sv" "registry (new_call r True sv) = registry sv @ [next_ptr sv]"
  "listening (new_call r True sv) = listening sv @ [(r, next_ptr sv)]"
  "listeners (new_call r True sv) = listeners sv"
  "authorizationEnabled (new_call r True sv) = authorizationEnabled sv"
  "subscriptionManager (new_call r True sv) = subscriptionManager sv"
  "connectionQueue_of (new_call r True sv) = connectionQueue_of sv"
  "shutdownSignal (new_call r True sv) = shutdownSignal sv"
  by (simp_all add: new_call_def registerItem_def Let_def)

lemma processTimestamps_simps [simp]:
  "cl_req (processTimestamps now c) = cl_req c" "cl_meta (processTimestamps now c) = cl_meta c"
  "cl_out (processTimestamps now c) = cl_out c" "cl_ptr (processTimestamps now c) = cl_ptr c"
  "cl_status (processTimestamps now c) = cl_status c"
  by (simp_all add: processTimestamps_def Let_def split: option.split)

lemma deregisterItem_ok:
  "service_ok sv \<Longrightarrow> p \<notin> snd ` set (listening sv) \<Longrightarrow> service_ok (deregisterItem p sv)"
  by (force simp: service_ok_def connections_ok_def registry_ok_def deregisterItem_def)

locale unary_controller =
  fixes r :: rpc
    and process :: "int \<Rightarrow> service \<Rightarrow> ('q, 'r) call \<Rightarrow> (service \<times> 'r \<times> StatusCode) res"
    and good :: "('q, 'r) call \<Rightarrow> bool"
  assumes process_returns: "service_ok sv \<Longrightarrow> good c \<Longrightarrow>
     \<exists>sv' ans rc. process now sv c = Ret (sv', ans, rc) \<and> service_ok sv' \<and> same_calls sv sv'"
    and good_stable: "good c \<Longrightarrow> good (processTimestamps now c)"
begin

lemma proceed_answers:
  assumes "service_ok sv" "ready sv c" "good c"
  shows "\<exists>sv1 m. unary_proceed r process now sv c True
                = Ret (sv1, (processTimestamps now c)\<lparr>cl_status := kFinish, cl_out := [m]\<rparr>)
       \<and> is_answer m \<and> service_ok sv1 \<and> same_calls (new_call r True sv) sv1"
proof -
  from process_returns [OF new_call_ok [OF assms(1), of r], of "processTimestamps now c" now] good_stable [OF assms(3)] obtain sv1 ans rc where
    p: "process now (new_call r True sv) (processTimestamps now c) = Ret (sv1, ans, rc)" "service_ok sv1"
    "same_calls (new_call r True sv) sv1" by auto
  with assms(2) show ?thesis
    by (intro exI [of _ sv1] exI [of _ "if rc = OK then Finish ans else FinishStatus rc"])
      (simp add: unary_proceed_def ready_def reply_def)
qed

lemma finish_deregisters:
  "cl_status c = kFinish \<Longrightarrow> unary_proceed r process now sv c ok = Ret (deregisterItem (cl_ptr c) sv, c)"
  by (auto simp: unary_proceed_def Let_def)

lemma answered_once:
  assumes "service_ok sv" "ready sv c" "good c"
  shows "answers_once r (unary_proceed r process) sv c"
  unfolding answers_once_def
proof (intro allI)
  fix now now' ok
  from proceed_answers [OF assms, of now] obtain sv1 m where
    1: "unary_proceed r process now sv c True = Ret (sv1, (processTimestamps now c)\<lparr>cl_status := kFinish, cl_out := [m]\<rparr>)"
    "is_answer m" "service_ok sv1" "same_calls (new_call r True sv) sv1" by blast
  let ?c1 = "(processTimestamps now c)\<lparr>cl_status := kFinish, cl_out := [m]\<rparr>"
  have new: "next_ptr sv \<notin> set (registry sv)" "cl_ptr c \<noteq> next_ptr sv" "cl_ptr c \<notin> snd ` set (listening sv1)"
    "distinct (registry sv)"
    using assms(1,2) 1(4) by (auto simp: service_ok_def registry_ok_def ready_def same_calls_def)
  moreover have "unary_proceed r process now' sv1 ?c1 ok = Ret (deregisterItem (cl_ptr c) sv1, ?c1)"
    using finish_deregisters [of ?c1 now' sv1 ok] by simp
  moreover have "service_ok (deregisterItem (cl_ptr c) sv1)" by (rule deregisterItem_ok [OF 1(3) new(3)])
  ultimately show "\<exists>sv1 c1 sv2 c2 m. unary_proceed r process now sv c True = Ret (sv1, c1) \<and> cl_out c1 = [m] \<and> is_answer m
      \<and> registry sv1 = registry sv @ [next_ptr sv] \<and> listening sv1 = listening sv @ [(r, next_ptr sv)]
      \<and> unary_proceed r process now' sv1 c1 ok = Ret (sv2, c2) \<and> cl_out c2 = [m]
      \<and> cl_ptr c \<notin> set (registry sv2) \<and> next_ptr sv \<in> set (registry sv2) \<and> service_ok sv2"
    using 1 assms(2)
    by (intro exI conjI) (assumption | simp add: same_calls_def deregisterItem_def ready_def)+
qed

lemma cancelled_unanswered:
  "cl_out c = [] \<Longrightarrow> \<exists>c'. unary_proceed r process now sv c False = Ret (deregisterItem (cl_ptr c) sv, c') \<and> cl_out c' = []"
  by (simp add: unary_proceed_def)

end

section \<open>The controllers keep the contract\<close>

text \<open>
  The time stamps of a token fit the 32 bits the authorizer keeps of them. The library that decodes
  a token does not check this, and the conversion of a larger one is undefined.
\<close>

definition token_ok :: "jwt \<Rightarrow> (string \<times> string) list \<Rightarrow> bool" where
  "token_ok decode meta \<longleftrightarrow>
     (case map_of meta ''authorization'' of
        None \<Rightarrow> True
      | Some v \<Rightarrow>
          (case decode (drop (length ''Bearer '') v) of
             None \<Rightarrow> True
           | Some claims \<Rightarrow>
               list_all (\<lambda>(n, cl). n = ''exp'' \<longrightarrow> (case cl of ClaimNumber k \<Rightarrow> 0 \<le> k \<and> k < 2 ^ 32 | _ \<Rightarrow> True)) claims))"

lemma read_claims_defined:
  "list_all (\<lambda>(n, cl). n = ''exp'' \<longrightarrow> (case cl of ClaimNumber k \<Rightarrow> 0 \<le> k \<and> k < 2 ^ 32 | _ \<Rightarrow> True)) claims \<Longrightarrow>
     read_claims claims a \<noteq> Undef"
proof (induction claims arbitrary: a)
  case (Cons x claims)
  then show ?case by (cases x; cases "read_claim x a") (auto split: if_splits claim.splits)
qed simp

lemma call_authz_defined: "token_ok decode meta \<Longrightarrow> call_authz decode sv meta \<noteq> Undef"
  using read_claims_defined
  by (auto simp: call_authz_def jwsToken_def token_ok_def Authorizer_def split: option.splits res.splits)

lemma try_catch_returns:
  "m \<noteq> Undef \<Longrightarrow> (\<And>x. m = Ret x \<Longrightarrow> P x) \<Longrightarrow> (\<And>e. P (sv, ans, catch_status e)) \<Longrightarrow> \<exists>x. try_catch sv ans m = Ret x \<and> P x"
  by (cases m) auto

lemma find_device_Some:
  "find_device sv s = Ret (Some dm) \<Longrightarrow> service_ok sv \<Longrightarrow>
     device_ok dm \<and> slot dm = word_of_int s \<and> device_at (dms sv) (word_of_int s) = Some dm"
  by (auto simp: find_device_def service_ok_def slots_ok_def split: if_splits)

lemma find_device_defined: "find_device sv s \<noteq> Undef"
  by (simp add: find_device_def)

text \<open>A controller that only reads the device in its slot.\<close>

lemma read_only_controller:
  assumes "service_ok sv"
    and "\<And>dm. find_device sv s = Ret (Some dm) \<Longrightarrow> body dm \<noteq> Undef"
    and "\<And>dm sv' x. body dm = Ret (sv', x) \<Longrightarrow> sv' = sv"
  shows "\<exists>sv' ans rc. try_catch sv dflt (res_bind (find_device sv s)
            (\<lambda>d. case d of None \<Rightarrow> Ret (sv, none, NOT_FOUND) | Some dm \<Rightarrow> body dm)) = Ret (sv', ans, rc)
         \<and> service_ok sv' \<and> same_calls sv sv'"
proof -
  have "\<exists>x. try_catch sv dflt (res_bind (find_device sv s)
            (\<lambda>d. case d of None \<Rightarrow> Ret (sv, none, NOT_FOUND) | Some dm \<Rightarrow> body dm)) = Ret x \<and> fst x = sv"
    using assms(2,3) find_device_defined [of sv s]
    by (intro try_catch_returns; cases "find_device sv s") (auto split: option.splits)
  with assms(1) show ?thesis by (metis prod.collapse same_calls_refl)
qed

lemma res_bind_defined: "m \<noteq> Undef \<Longrightarrow> (\<And>x. m = Ret x \<Longrightarrow> f x \<noteq> Undef) \<Longrightarrow> res_bind m f \<noteq> Undef"
  by (cases m) auto

lemma token_ok_stable: "token_ok decode (cl_meta c) \<Longrightarrow> token_ok decode (cl_meta (processTimestamps now c))"
  by simp

interpretation gv: unary_controller RGetValue "\<lambda>_. GetValue_process decode" "\<lambda>c. token_ok decode (cl_meta c)" for decode
proof
  fix sv and c :: "(slot_oid, pvalue option) call"
  assume *: "service_ok sv" "token_ok decode (cl_meta c)"
  show "\<exists>sv' ans rc. GetValue_process decode sv c = Ret (sv', ans, rc) \<and> service_ok sv' \<and> same_calls sv sv'"
    unfolding GetValue_process_def
  proof (rule read_only_controller [OF *(1)])
    fix dm assume "find_device sv (rq_slot (cl_req c)) = Ret (Some dm)"
    from find_device_Some [OF this *(1)] getValue_total show "res_bind (call_authz decode sv (cl_meta c)) (\<lambda>authz.
        res_bind (getValue dm (rq_oid (cl_req c)) KindNotSet authz) (\<lambda>(rc, ans). Ret (sv, ans, rc))) \<noteq> Undef"
      by (intro res_bind_defined call_authz_defined [OF *(2)]) (metis (no_types) res.distinct(3), simp add: case_prod_beta)
  qed (auto simp: res_simps)
qed simp

text \<open>Looking up a parameter by its path either fails with a status or finds a readable one.\<close>

lemma getParam_fqoid_cases:
  assumes "device_ok dm"
  obtains (missing) rc where "getParam_fqoid dm s OK a = Ret (None, rc)" "rc \<noteq> OK"
    | (found) p v where "getParam_fqoid dm s OK a = Ret (Some p, OK)" "live dm p v" "readAuthz a (p_desc p)"
proof -
  from getParam_fqoid_total [OF assms, of s OK a] obtain q rc where g: "getParam_fqoid dm s OK a = Ret (q, rc)" by blast
  with getParam_fqoid_None [OF assms, of s a rc] getParam_fqoid_Some [OF assms, of s a _ rc] missing found
  show thesis by (cases q) auto
qed

interpretation gp: unary_controller RGetParam "\<lambda>_. GetParam_process decode" "\<lambda>c. token_ok decode (cl_meta c)" for decode
proof
  fix sv and c :: "(slot_oid, string \<times> pparam) call"
  assume *: "service_ok sv" "token_ok decode (cl_meta c)"
  show "\<exists>sv' ans rc. GetParam_process decode sv c = Ret (sv', ans, rc) \<and> service_ok sv' \<and> same_calls sv sv'"
    unfolding GetParam_process_def
  proof (rule read_only_controller [OF *(1)], intro res_bind_defined call_authz_defined [OF *(2)])
    fix dm authz x assume "find_device sv (rq_slot (cl_req c)) = Ret (Some dm)"
      and x: "getParam_fqoid dm (rq_oid (cl_req c)) OK authz = Ret x"
    with *(1) have dm: "device_ok dm" by (simp add: find_device_Some)
    from dm show "(case x of (param, rc) \<Rightarrow>
            case param of
              None \<Rightarrow> Ret (sv, ([], pparam_default), rc)
            | Some p \<Rightarrow>
                if rc = OK then
                  res_bind (deref dm p) (\<lambda>v.
                  res_bind (param_toProto p v pparam_default authz) (\<lambda>(rc', msg).
                  Ret (sv, (pd_oid (node (p_desc p)), msg), rc')))
                else Ret (sv, ([], pparam_default), rc)) \<noteq> Undef"
    proof (cases rule: getParam_fqoid_cases [of dm "rq_oid (cl_req c)" authz])
      case (found p v)
      then have "handle_ok p v" by (simp add: live_def)
      from param_toProto_total [OF this, of pparam_default authz] found x live_deref show ?thesis by auto
    qed (use x in auto)
  next
    fix dm authz assume "find_device sv (rq_slot (cl_req c)) = Ret (Some dm)"
    with *(1) have dm: "device_ok dm" by (simp add: find_device_Some)
    from getParam_fqoid_total [OF this] show "getParam_fqoid dm (rq_oid (cl_req c)) OK authz \<noteq> Undef"
      by (metis res.distinct(3))
  qed (auto simp: res_simps split: if_splits option.splits)
qed simp

interpretation ll: unary_controller RListLanguages "\<lambda>_. ListLanguages_process" "\<lambda>_. True"
proof
  fix sv and c :: "(int, string list) call"
  assume "service_ok sv"
  then show "\<exists>sv' ans rc. ListLanguages_process sv c = Ret (sv', ans, rc) \<and> service_ok sv' \<and> same_calls sv sv'"
    unfolding ListLanguages_process_def by (rule read_only_controller) auto
qed simp

interpretation lp: unary_controller RLanguagePackRequest "\<lambda>_. LanguagePackRequest_process" "\<lambda>_. True"
proof
  fix sv and c :: "(slot_oid, component_language_pack) call"
  assume "service_ok sv"
  then show "\<exists>sv' ans rc. LanguagePackRequest_process sv c = Ret (sv', ans, rc) \<and> service_ok sv' \<and> same_calls sv sv'"
    unfolding LanguagePackRequest_process_def by (rule read_only_controller) (auto split: prod.splits)
qed simp

interpretation ps: unary_controller RGetPopulatedSlots
  "\<lambda>_ sv c. Ret (sv, map fst (filter (\<lambda>(s, dm). dm \<noteq> None) (dms sv)), OK)" "\<lambda>_ :: (unit, u32 list) call. True"
  by standard simp_all

text \<open>A controller that may change the device in its slot.\<close>

lemma writing_controller:
  assumes "service_ok sv" "call_authz decode sv meta \<noteq> Undef"
    and "\<And>dm authz. find_device sv s = Ret (Some dm) \<Longrightarrow> call_authz decode sv meta = Ret authz \<Longrightarrow> body dm authz \<noteq> Undef
           \<and> (\<forall>sv' x. body dm authz = Ret (sv', x) \<longrightarrow> service_ok sv' \<and> same_calls sv sv')"
  shows "\<exists>sv' ans rc. try_catch sv dflt (res_bind (find_device sv s)
            (\<lambda>d. case d of None \<Rightarrow> Ret (sv, none, NOT_FOUND) | Some dm \<Rightarrow> res_bind (call_authz decode sv meta) (body dm)))
            = Ret (sv', ans, rc)
         \<and> service_ok sv' \<and> same_calls sv sv'"
proof -
  have "\<exists>x. try_catch sv dflt (res_bind (find_device sv s)
            (\<lambda>d. case d of None \<Rightarrow> Ret (sv, none, NOT_FOUND) | Some dm \<Rightarrow> res_bind (call_authz decode sv meta) (body dm))) = Ret x
          \<and> service_ok (fst x) \<and> same_calls sv (fst x)"
    using assms find_device_defined [of sv s]
    by (intro try_catch_returns; cases "find_device sv s"; cases "call_authz decode sv meta")
      (auto simp: res_simps split: option.splits)
  then show ?thesis by (metis prod.collapse)
qed

lemma addLanguage_emits:
  assumes "addLanguage dm ident pack a = (dm', rc)"
  shows "\<exists>evs. emitted dm' = emitted dm @ evs \<and> list_all event_ok evs \<and> slot dm' = slot dm"
  using assms
  by (auto simp: addLanguage_def LanguagePack_def addItem_lpack_def Let_def emit_def split: if_splits)

interpretation al: unary_controller RAddLanguage "AddLanguage_process decode" "\<lambda>c. token_ok decode (cl_meta c)" for decode
proof
  fix now sv and c :: "(add_language_payload, unit) call"
  assume *: "service_ok sv" "token_ok decode (cl_meta c)"
  let ?q = "cl_req c"
  show "\<exists>sv' ans rc. AddLanguage_process decode now sv c = Ret (sv', ans, rc) \<and> service_ok sv' \<and> same_calls sv sv'"
    unfolding AddLanguage_process_def
  proof (rule writing_controller [OF *(1) call_authz_defined [OF *(2)]])
    fix dm authz assume "find_device sv (al_slot ?q) = Ret (Some dm)"
    from find_device_Some [OF this *(1)] have
      dm: "device_ok dm" "slot dm = word_of_int (al_slot ?q)" "device_at (dms sv) (word_of_int (al_slot ?q)) = Some dm" by auto
    obtain dm' rc where l: "addLanguage dm (al_id ?q) (al_pack ?q) authz = (dm', rc)" by fastforce
    from addLanguage_emits [OF l] addLanguage_keeps [OF dm(1) l] dm put_device_total [OF *(1) dm(3), of dm' _ now]
    obtain sv' where "put_device now (word_of_int (al_slot ?q)) dm dm' sv = Ret sv'" "service_ok sv'"
      "only_connects (sv\<lparr>dms := AList.update (word_of_int (al_slot ?q)) (Some dm') (dms sv)\<rparr>) sv'" by fastforce
    with l only_connects_same show "(let (dm', rc) = addLanguage dm (al_id ?q) (al_pack ?q) authz in
            res_bind (put_device now (word_of_int (al_slot ?q)) dm dm' sv) (\<lambda>sv'. Ret (sv', (), rc))) \<noteq> Undef \<and>
          (\<forall>sv' x. (let (dm', rc) = addLanguage dm (al_id ?q) (al_pack ?q) authz in
            res_bind (put_device now (word_of_int (al_slot ?q)) dm dm' sv) (\<lambda>sv'. Ret (sv', (), rc))) = Ret (sv', x) \<longrightarrow>
          service_ok sv' \<and> same_calls sv sv')"
      by auto
  qed
qed simp

lemma try_single:
  assumes "device_ok dm" "Path oid = Ret path"
  shows "\<exists>ok ans. try_one dm (oid, pv) a = Ret (ok, ans) \<and> (ok \<longleftrightarrow> ans = OK)
       \<and> tryMultiSetValue dm [(oid, pv)] OK a = Ret (ok, ans)"
proof -
  from try_one_cases [OF assms, of pv a] obtain ok ans where
    t: "try_one dm (oid, pv) a = Ret (ok, ans)" "ok \<longleftrightarrow> ans = OK" by blast
  from assms(2) reset_loop_total [OF assms(1), of "[oid]" a] have "reset_loop dm [oid] a = Ret ()" by simp
  with t show ?thesis by (auto simp: tryMultiSetValue_def)
qed

lemma try_single_throws: "Path oid = Throw e \<Longrightarrow> tryMultiSetValue dm [(oid, pv)] OK a = Throw e"
  by (cases e) (simp_all add: tryMultiSetValue_def try_one_def)

lemma try_single_defined: "device_ok dm \<Longrightarrow> tryMultiSetValue dm [(oid, pv)] OK a \<noteq> Undef"
  using try_single [of dm oid _ pv a] try_single_throws [of oid _ dm pv a] Path_defined [of oid]
  by (cases "Path oid") auto

lemma set_one:
  assumes "device_ok dm" "addressable (oid, pv)" "tryMultiSetValue dm [(oid, pv)] OK a = Ret (True, rc)"
  shows "\<exists>dm' q new. commitMultiSetValue dm [(oid, pv)] a = Ret (dm', OK) \<and> setValue dm oid pv a = Ret (dm', OK)
      \<and> device_ok dm' \<and> slot dm' = slot dm \<and> deref dm' q = Ret new \<and> handle_ok q new
      \<and> emitted dm' = emitted dm @ [ValueSetByClient oid q new]"
proof (cases "Path oid")
  case (Ret path)
  with assms(2) have ix: "back_is_index path \<longrightarrow> back_as_index path \<noteq> kNone" by (simp add: addressable_def)
  from try_single [OF assms(1) Ret, of pv a] assms(3) have t: "try_one dm (oid, pv) a = Ret (True, OK)" by auto
  from setValue_cases [OF assms(1) Ret ix, of pv a] show ?thesis
  proof
    assume "\<exists>st. setValue dm oid pv a = Ret (dm, st) \<and> st \<noteq> OK"
    with try_one_commits [OF assms(1,2) t] show ?thesis by auto
  next
    assume "\<exists>q dm1 old new. commit_target dm path OK a = Ret (q, dm1) \<and> device_ok dm1 \<and> live dm1 q old
            \<and> validFromProto (p_ctype q) pv (p_desc q) OK a = Ret OK
            \<and> param_fromProto q pv old a = Ret (OK, new) \<and> has_type (p_ctype q) new
            \<and> emitted dm1 = emitted dm
            \<and> setValue dm oid pv a = Ret (emit (ValueSetByClient oid q new) (assign dm1 q new), OK)"
    then obtain q dm1 old new where
      c: "device_ok dm1" "live dm1 q old" "has_type (p_ctype q) new" "emitted dm1 = emitted dm"
      "setValue dm oid pv a = Ret (emit (ValueSetByClient oid q new) (assign dm1 q new), OK)" by blast
    note l = assign_live [OF c(2,3)]
    have "handle_ok q new" using l by (simp add: live_def)
    moreover have "slot (emit (ValueSetByClient oid q new) (assign dm1 q new)) = slot dm"
      using setValue_keeps [OF assms(1) c(5)] by (simp add: keeps_model_def)
    ultimately show ?thesis
      using c assms(3) assign_ok [OF c(1,2,3)] live_deref [OF l]
      by (intro exI [of _ "emit (ValueSetByClient oid q new) (assign dm1 q new)"] exI [of _ q] exI [of _ new])
        (simp add: setValue_def)
  qed
next
  case (Throw e)
  with assms(3) try_single_throws [OF Throw, of dm pv a] show ?thesis by auto
qed (simp add: Path_defined)

interpretation st: unary_controller RSetValue "\<lambda>now sv c. MultiSet_process decode now sv (cl_meta c) (toMulti (cl_req c))"
  "\<lambda>c. token_ok decode (cl_meta c) \<and> addressable (ss_value (cl_req c))" for decode
proof
  fix now sv and c :: "(single_set_payload, unit) call"
  assume *: "service_ok sv" "token_ok decode (cl_meta c) \<and> addressable (ss_value (cl_req c))"
  let ?s = "word_of_int (ss_slot (cl_req c)) :: u32"
  obtain oid pv where v: "ss_value (cl_req c) = (oid, pv)" by fastforce
  show "\<exists>sv' ans rc. MultiSet_process decode now sv (cl_meta c) (toMulti (cl_req c)) = Ret (sv', ans, rc)
      \<and> service_ok sv' \<and> same_calls sv sv'"
    unfolding MultiSet_process_def
  proof (rule writing_controller [OF *(1) call_authz_defined])
    fix dm a assume "find_device sv (sp_slot (toMulti (cl_req c))) = Ret (Some dm)"
    from find_device_Some [OF this *(1)] have
      dm: "device_ok dm" "slot dm = ?s" "device_at (dms sv) ?s = Some dm" by (auto simp: toMulti_def)
    have put: "\<exists>sv'. put_device now ?s dm dm' sv = Ret sv' \<and> service_ok sv' \<and> same_calls sv sv'"
      if "device_ok dm'" "slot dm' = slot dm" "handle_ok q new" "emitted dm' = emitted dm @ [ValueSetByClient oid q new]" for dm' q new
      using put_device_total [OF *(1) dm(3) that(1) _ that(4)] that dm(2) only_connects_same by fastforce
    show "res_bind (tryMultiSetValue dm (sp_values (toMulti (cl_req c))) OK a) (\<lambda>(ok, rc).
            if ok then
              res_bind (commitMultiSetValue dm (sp_values (toMulti (cl_req c))) a) (\<lambda>(dm', rc').
              res_bind (put_device now (word_of_int (sp_slot (toMulti (cl_req c)))) dm dm' sv) (\<lambda>sv'.
              Ret (sv', (), rc')))
            else Ret (sv, (), rc)) \<noteq> Undef \<and>
        (\<forall>sv' x. res_bind (tryMultiSetValue dm (sp_values (toMulti (cl_req c))) OK a) (\<lambda>(ok, rc).
            if ok then
              res_bind (commitMultiSetValue dm (sp_values (toMulti (cl_req c))) a) (\<lambda>(dm', rc').
              res_bind (put_device now (word_of_int (sp_slot (toMulti (cl_req c)))) dm dm' sv) (\<lambda>sv'.
              Ret (sv', (), rc')))
            else Ret (sv, (), rc)) = Ret (sv', x) \<longrightarrow> service_ok sv' \<and> same_calls sv sv')"
    proof (cases "tryMultiSetValue dm [(oid, pv)] OK a")
      case (Ret t)
      obtain ok rc where t: "t = (ok, rc)" by fastforce
      show ?thesis
      proof (cases ok)
        case True
        from set_one [OF dm(1), of oid pv a rc] *(2) v Ret t True obtain dm' q new where
          d: "commitMultiSetValue dm [(oid, pv)] a = Ret (dm', OK)" "device_ok dm'" "slot dm' = slot dm"
          "handle_ok q new" "emitted dm' = emitted dm @ [ValueSetByClient oid q new]" by auto
        from put [OF d(2,3,4,5)] d(1) Ret t True v show ?thesis by (auto simp: toMulti_def)
      qed (use Ret t v * in \<open>simp add: toMulti_def\<close>)
    qed (use try_single_defined [OF dm(1), of oid pv a] v in \<open>auto simp: toMulti_def\<close>)
  qed (use *(2) in blast)
qed simp

section \<open>Properties\<close>

lemmas proceed_defs = GetValue_proceed_def SetValue_proceed_def MultiSetValue_proceed_def GetParam_proceed_def
  AddLanguage_proceed_def ListLanguages_proceed_def LanguagePackRequest_proceed_def GetPopulatedSlots_proceed_def


text \<open>A service with the example device in slot 1, and calls that have just met a client.\<close>

definition ex_service :: service where
  "ex_service = \<lparr>dms = [(1, Some ex_device)], subscriptionManager = (\<lambda>_. {}), authorizationEnabled = False,
     connectionQueue_of = ConnectionQueue 2, connects_of = (\<lambda>_. ex_connect), EOPath = [],
     registry = [0], objectCounter = (\<lambda>_. 0), next_ptr = 7, listening = [], listeners = [(1, 5)], shutdownSignal = [5]\<rparr>"

definition ex_call :: "'q \<Rightarrow> ('q, 'r) call" where
  "ex_call q = \<lparr>cl_ptr = 0, cl_status = kProcess, cl_req = q, cl_meta = [], requestStart = 0, requestReceived = 0, cl_out = []\<rparr>"

lemma ex_service_ok: "service_ok ex_service" "ready ex_service (ex_call q)" "token_ok decode (cl_meta (ex_call q))"
proof -
  have "slot ex_device = 1" by code_simp
  then show "service_ok ex_service"
    using ex_device_ok(1) ex_connect_open(2)
    by (auto simp: service_ok_def ex_service_def slots_ok_def device_at_def connections_ok_def registry_ok_def
        queue_ok_def ConnectionQueue_def split: if_splits)
  show "ready ex_service (ex_call q)" "token_ok decode (cl_meta (ex_call q))"
    by (simp_all add: ready_def ex_service_def ex_call_def token_ok_def)
qed


lemma find_device_new [simp]: "find_device (new_call r True sv) s = find_device sv s"
  by (simp add: find_device_def)

lemma call_authz_new [simp]: "call_authz decode (new_call r True sv) meta = call_authz decode sv meta"
  by (simp add: call_authz_def jwsToken_def)

lemma attached_new [simp]: "attached (new_call r True sv) s = attached sv s"
  by (simp add: attached_def)

lemma connects_of_new [simp]: "r \<noteq> RConnect \<Longrightarrow> connects_of (new_call r True sv) = connects_of sv"
  by (simp add: new_call_def registerItem_def Let_def)

lemma notify_all_values:
  assumes "notify_all now s (ValueSetByClient oid q v) ps sv = Ret sv'" "distinct ps"
  shows "(\<forall>p. if p \<in> set ps
              then updateResponse (connects_of sv p) oid q v s (dms sv) (subscriptionManager sv) now = Ret (connects_of sv' p)
              else connects_of sv' p = connects_of sv p)
       \<and> dms sv' = dms sv \<and> subscriptionManager sv' = subscriptionManager sv"
  using assms
proof (induction ps arbitrary: sv)
  case (Cons p ps)
  from Cons.prems(1) obtain c where
    c: "updateResponse (connects_of sv p) oid q v s (dms sv) (subscriptionManager sv) now = Ret c"
    and rest: "notify_all now s (ValueSetByClient oid q v) ps (sv\<lparr>connects_of := (connects_of sv)(p := c)\<rparr>) = Ret sv'"
    by (auto simp: notify_def res_simps)
  from Cons.IH [OF rest] Cons.prems(2) c show ?case by (auto split: if_splits)
qed simp

text \<open>An accepted set, through the controller: the device is stored and its connections are told.\<close>

lemma MultiSet_process_commits:
  assumes "service_ok sv" "find_device sv n = Ret (Some dm)" "call_authz decode sv meta = Ret a" "s = word_of_int n"
    and "addressable (oid, pv)" "tryMultiSetValue dm [(oid, pv)] OK a = Ret (True, rc)"
  shows "\<exists>sv1 dm' q new. MultiSet_process decode now (new_call RSetValue True sv) meta \<lparr>sp_slot = n, sp_values = [(oid, pv)]\<rparr> = Ret (sv1, (), OK)
     \<and> setValue dm oid pv a = Ret (dm', OK) \<and> device_ok dm'
     \<and> device_at (dms sv1) = (device_at (dms sv))(s \<mapsto> dm')
     \<and> deref dm' q = Ret new \<and> emitted dm' = emitted dm @ [ValueSetByClient oid q new]
     \<and> (\<forall>p. if p \<in> set (attached sv s)
             then updateResponse (connects_of sv p) oid q new s (dms sv1) (subscriptionManager sv) now = Ret (connects_of sv1 p)
             else connects_of sv1 p = connects_of sv p)"
proof -
  let ?sv = "new_call RSetValue True sv"
  from find_device_Some [OF assms(2,1)] assms(4) have dm: "device_ok dm" "slot dm = s" "device_at (dms sv) s = Some dm" by auto
  from set_one [OF dm(1) assms(5), of a rc] assms(6) obtain dm' q new where
    d: "commitMultiSetValue dm [(oid, pv)] a = Ret (dm', OK)" "setValue dm oid pv a = Ret (dm', OK)"
    "device_ok dm'" "slot dm' = slot dm" "deref dm' q = Ret new" "handle_ok q new"
    "emitted dm' = emitted dm @ [ValueSetByClient oid q new]" by auto
  from put_device_total [OF new_call_ok [OF assms(1), of RSetValue], of s dm dm' _ now] dm d obtain sv1 where
    put: "put_device now s dm dm' ?sv = Ret sv1" by fastforce
  have "connections_ok sv" using assms(1) by (simp add: service_ok_def)
  have "attached (?sv\<lparr>dms := AList.update s (Some dm') (dms sv)\<rparr>) s = attached sv s" by (simp add: attached_def)
  with put d(7) have "notify_all now s (ValueSetByClient oid q new) (attached sv s)
      (?sv\<lparr>dms := AList.update s (Some dm') (dms sv)\<rparr>) = Ret sv1"
    by (simp add: put_device_def res_bind_Ret_iff)
  note upd = notify_all_values [OF this attached_distinct [OF \<open>connections_ok sv\<close>]]
  then have "device_at (dms sv1) = (device_at (dms sv))(s \<mapsto> dm')" by (auto simp: device_at_update fun_eq_iff)
  moreover have "MultiSet_process decode now ?sv meta \<lparr>sp_slot = n, sp_values = [(oid, pv)]\<rparr> = Ret (sv1, (), OK)"
    using assms(2-4,6) d(1) put by (simp add: MultiSet_process_def)
  moreover have "if p \<in> set (attached sv s)
      then updateResponse (connects_of sv p) oid q new s (dms sv1) (subscriptionManager sv) now = Ret (connects_of sv1 p)
      else connects_of sv1 p = connects_of sv p" for p
    using conjunct1 [OF upd, THEN spec, of p] conjunct2 [OF upd] by (simp split: if_splits)
  ultimately show ?thesis using d by blast
qed



text \<open>No usable token came with the call: none at all, no bearer token, or one that does not decode.\<close>

definition no_token :: "jwt \<Rightarrow> (string \<times> string) list \<Rightarrow> bool" where
  "no_token decode meta \<longleftrightarrow>
     (case map_of meta ''authorization'' of
        None \<Rightarrow> True
      | Some v \<Rightarrow> \<not> starts_with v ''Bearer '' \<or> decode (drop (length ''Bearer '') v) = None)"

definition refuses :: "(int \<Rightarrow> service \<Rightarrow> ('q, 'r) call \<Rightarrow> bool \<Rightarrow> (service \<times> ('q, 'r) call) res) \<Rightarrow> service \<Rightarrow> ('q, 'r) call \<Rightarrow> bool" where
  "refuses proceed sv c \<longleftrightarrow>
     (\<forall>now. \<exists>sv1 c1. proceed now sv c True = Ret (sv1, c1) \<and> cl_out c1 = [FinishStatus UNAUTHENTICATED]
        \<and> dms sv1 = dms sv \<and> connects_of sv1 = connects_of sv \<and> subscriptionManager sv1 = subscriptionManager sv)"

lemma call_authz_refused:
  "authorizationEnabled sv \<Longrightarrow> no_token decode meta \<Longrightarrow>
     call_authz decode sv meta = Throw (ExceptionWithStatus UNAUTHENTICATED)"
  by (auto simp: call_authz_def jwsToken_def no_token_def Authorizer_def split: option.splits)

lemma refusesI:
  assumes "ready sv c" "r \<noteq> RConnect"
    and "\<And>now. \<exists>ans. process now (new_call r True sv) (processTimestamps now c) = Ret (new_call r True sv, ans, UNAUTHENTICATED)"
  shows "refuses (unary_proceed r process) sv c"
  unfolding refuses_def
proof
  fix now
  from assms(3) [of now] obtain ans where
    "process now (new_call r True sv) (processTimestamps now c) = Ret (new_call r True sv, ans, UNAUTHENTICATED)" ..
  with assms(1,2) show "\<exists>sv1 c1. unary_proceed r process now sv c True = Ret (sv1, c1) \<and> cl_out c1 = [FinishStatus UNAUTHENTICATED]
      \<and> dms sv1 = dms sv \<and> connects_of sv1 = connects_of sv \<and> subscriptionManager sv1 = subscriptionManager sv"
    by (simp add: unary_proceed_def ready_def reply_def)
qed



end
