(* ===== verification/Rpc_Stream.thy ===== *)
theory Rpc_Stream
  imports Rpc_Unary "HOL-Library.Char_ord" "HOL-Library.List_Lexorder"
begin

text \<open>
  The gRPC controllers that answer with a stream of messages: \<^verbatim>\<open>DeviceRequest\<close>,
  \<^verbatim>\<open>UpdateSubscriptions\<close> and \<^verbatim>\<open>ParamInfoRequest\<close>. One event writes one message; a \<^verbatim>\<open>case\<close> that
  falls through to the next is a call of that part. The locale \<open>stream_call\<close> is what such a
  controller promises about the messages it has still to write.
\<close>

section \<open>DeviceRequest\<close>

record device_request =
  dr_slot :: int
  dr_detail_level :: DetailLevel
  dr_subscribed_oids :: "string list"

text \<open>\<open>serializer\<close> is null until the request is processed.\<close>

record device_call = "(device_request, component) call" +
  serializer :: "component res list option"

text \<open>The loop that subscribes to the oids of the request; each status is dropped.\<close>

fun add_subscriptions :: "subscriptions_map \<Rightarrow> string list \<Rightarrow> device \<Rightarrow> authorizer \<Rightarrow> subscriptions_map \<times> unit res" where
  "add_subscriptions sm [] dm authz = (sm, Ret ())"
| "add_subscriptions sm (oid # oids) dm authz =
     (case addSubscription sm oid dm authz of
        Ret (sm', _, _) \<Rightarrow> add_subscriptions sm' oids dm authz
      | Throw e \<Rightarrow> (sm, Throw e)
      | Undef \<Rightarrow> (sm, Undef))"

definition DeviceRequest_process :: "jwt \<Rightarrow> service \<Rightarrow> device_call \<Rightarrow> (service \<times> component res list option \<times> StatusCode) res" where
  "DeviceRequest_process decode sv c =
     try_catch sv None
       (res_bind (find_device sv (dr_slot (cl_req c))) (\<lambda>d. case d of
          None \<Rightarrow> Ret (sv, None, NOT_FOUND)
        | Some dm \<Rightarrow>
            res_bind (call_authz decode sv (cl_meta c)) (\<lambda>authz.
            let dl = dr_detail_level (cl_req c);
                (sm, added) = (if dl = SUBSCRIPTIONS
                               then add_subscriptions (subscriptionManager sv) (dr_subscribed_oids (cl_req c)) dm authz
                               else (subscriptionManager sv, Ret ()));
                sv' = sv\<lparr>subscriptionManager := sm\<rparr>;
                oids = (if dl = SUBSCRIPTIONS then getAllSubscribedOids sm dm else {}) in
            try_catch sv' None
              (res_bind added (\<lambda>_.
               res_bind (getComponentSerializer dm authz oids dl) (\<lambda>ser.
               Ret (sv', Some ser, OK)))))))"

definition DeviceRequest_write :: "service \<Rightarrow> device_call \<Rightarrow> (service \<times> device_call) res" where
  "DeviceRequest_write sv c =
     (case serializer c of
        None \<Rightarrow> Ret (sv, reply (FinishStatus INTERNAL) (c\<lparr>cl_status := kFinish\<rparr>))
      | Some ser \<Rightarrow>
          (let (component, ser') = getNext ser in
           case component of
             Ret m \<Rightarrow> Ret (sv, reply (Write m)
                        (c\<lparr>cl_status := (if hasMore ser' then kWrite else kPostWrite), serializer := Some ser'\<rparr>))
           | Throw e \<Rightarrow> Ret (sv, reply (FinishStatus (catch_status e)) (c\<lparr>cl_status := kFinish, serializer := Some ser'\<rparr>))
           | Undef \<Rightarrow> Undef))"

definition DeviceRequest_proceed :: "jwt \<Rightarrow> int \<Rightarrow> service \<Rightarrow> device_call \<Rightarrow> bool \<Rightarrow> (service \<times> device_call) res" where
  "DeviceRequest_proceed decode now sv c ok =
     (let c0 = (if ok then c else c\<lparr>cl_status := kFinish\<rparr>) in
      case cl_status c0 of
        kCreate \<Rightarrow> Ret (sv\<lparr>listening := listening sv @ [(RDeviceRequest, cl_ptr c0)]\<rparr>, c0\<lparr>cl_status := kProcess\<rparr>)
      | kProcess \<Rightarrow>
          (let c1 = processTimestamps now c0; sv1 = new_call RDeviceRequest ok sv in
           res_bind (DeviceRequest_process decode sv1 c1) (\<lambda>(sv2, ser, rc).
           if rc = OK then DeviceRequest_write sv2 (c1\<lparr>cl_status := kWrite, serializer := ser\<rparr>)
           else Ret (sv2, reply (FinishStatus rc) (c1\<lparr>cl_status := kFinish\<rparr>))))
      | kWrite \<Rightarrow> DeviceRequest_write sv c0
      | kPostWrite \<Rightarrow> Ret (sv, reply (FinishStatus OK) (c0\<lparr>cl_status := kFinish\<rparr>))
      | kFinish \<Rightarrow> Ret (deregisterItem (cl_ptr c0) sv, c0)
      | kRead \<Rightarrow> Ret (sv, reply (FinishStatus INTERNAL) (c0\<lparr>cl_status := kFinish\<rparr>)))"

section \<open>UpdateSubscriptions\<close>

record update_request =
  us_slot :: int
  added_oids :: "string list"
  removed_oids :: "string list"

text \<open>
  \<open>us_dm\<close> is the slot of the device the call has found; \<open>subbedOids\<close> is the rest of the
  \<^verbatim>\<open>std::set\<close>, which is iterated in ascending order.
\<close>

record update_call = "(update_request, string \<times> pparam) call" +
  us_dm :: "u32 option"
  us_authz :: authorizer
  subbedOids :: "string list"

definition remove_subscriptions :: "subscriptions_map \<Rightarrow> string list \<Rightarrow> device \<Rightarrow> subscriptions_map" where
  "remove_subscriptions sm oids dm = fold (\<lambda>oid sm. fst (removeSubscription sm oid dm)) oids sm"

text \<open>The new state and the status of the \<^verbatim>\<open>try\<close> block.\<close>

definition UpdateSubscriptions_process :: "jwt \<Rightarrow> service \<Rightarrow> update_call \<Rightarrow> (service \<times> update_call \<times> StatusCode) res" where
  "UpdateSubscriptions_process decode sv c =
     try_catch sv c
       (res_bind (find_device sv (us_slot (cl_req c))) (\<lambda>d. case d of
          None \<Rightarrow> Ret (sv, c, NOT_FOUND)
        | Some dm \<Rightarrow>
            let c1 = c\<lparr>us_dm := Some (slot dm)\<rparr> in
            if \<not> subscriptions dm then Ret (sv, c1, FAILED_PRECONDITION)
            else try_catch sv c1
              (res_bind (call_authz decode sv (cl_meta c)) (\<lambda>authz.
               let (sm, added) = add_subscriptions (subscriptionManager sv) (added_oids (cl_req c)) dm authz in
               try_catch (sv\<lparr>subscriptionManager := sm\<rparr>) (c1\<lparr>us_authz := authz\<rparr>)
                 (res_bind added (\<lambda>_.
                  let sm' = remove_subscriptions sm (removed_oids (cl_req c)) dm in
                  Ret (sv\<lparr>subscriptionManager := sm'\<rparr>,
                       c1\<lparr>us_authz := authz, subbedOids := sorted_list_of_set (getAllSubscribedOids sm' dm),
                          cl_status := kWrite\<rparr>, OK)))))))"

text \<open>The loop that looks for the next parameter to send; errors are ignored.\<close>

fun next_param :: "device \<Rightarrow> authorizer \<Rightarrow> string list \<Rightarrow> ((string \<times> pparam) option \<times> string list) res" where
  "next_param dm authz [] = Ret (None, [])"
| "next_param dm authz (oid # oids) =
     res_bind (getParam_fqoid dm oid OK kAuthzDisabled) (\<lambda>(param, _).
     case param of
       None \<Rightarrow> next_param dm authz oids
     | Some p \<Rightarrow>
         res_bind (deref dm p) (\<lambda>v.
         res_bind (param_toProto p v pparam_default authz) (\<lambda>(rc, msg).
         if rc = OK then Ret (Some (pd_oid (node (p_desc p)), msg), oids) else next_param dm authz oids)))"

definition UpdateSubscriptions_write :: "service \<Rightarrow> update_call \<Rightarrow> (service \<times> update_call) res" where
  "UpdateSubscriptions_write sv c =
     (case (case (case us_dm c of None \<Rightarrow> None | Some s \<Rightarrow> device_at (dms sv) s) of
              None \<Rightarrow> Ret (None, subbedOids c)
            | Some dm \<Rightarrow> next_param dm (us_authz c) (subbedOids c)) of
        Ret (Some m, oids) \<Rightarrow> Ret (sv, reply (Write m) (c\<lparr>subbedOids := oids\<rparr>))
      | Ret (None, oids) \<Rightarrow> Ret (sv, reply (FinishStatus OK) (c\<lparr>subbedOids := oids, cl_status := kFinish\<rparr>))
      | Throw e \<Rightarrow> Ret (sv, reply (FinishStatus (catch_status e)) (c\<lparr>cl_status := kFinish\<rparr>))
      | Undef \<Rightarrow> Undef)"

definition UpdateSubscriptions_proceed :: "jwt \<Rightarrow> int \<Rightarrow> service \<Rightarrow> update_call \<Rightarrow> bool \<Rightarrow> (service \<times> update_call) res" where
  "UpdateSubscriptions_proceed decode now sv c ok =
     (let c0 = (if ok then c else c\<lparr>cl_status := kFinish\<rparr>) in
      case cl_status c0 of
        kCreate \<Rightarrow> Ret (sv\<lparr>listening := listening sv @ [(RUpdateSubscriptions, cl_ptr c0)]\<rparr>, c0\<lparr>cl_status := kProcess\<rparr>)
      | kProcess \<Rightarrow>
          (let c1 = processTimestamps now c0; sv1 = new_call RUpdateSubscriptions ok sv in
           res_bind (UpdateSubscriptions_process decode sv1 c1) (\<lambda>(sv2, c2, rc).
           if rc = OK then UpdateSubscriptions_write sv2 c2
           else Ret (sv2, reply (FinishStatus rc) (c2\<lparr>cl_status := kFinish\<rparr>))))
      | kWrite \<Rightarrow> UpdateSubscriptions_write sv c0
      | kPostWrite \<Rightarrow> Ret (sv, reply (FinishStatus OK) (c0\<lparr>cl_status := kFinish\<rparr>))
      | kFinish \<Rightarrow> Ret (deregisterItem (cl_ptr c0) sv, c0)
      | kRead \<Rightarrow> Ret (sv, reply (FinishStatus INTERNAL) (c0\<lparr>cl_status := kFinish\<rparr>)))"

section \<open>ParamInfoRequest\<close>

record param_info_request =
  pi_slot :: int
  oid_prefix :: string
  recursive :: bool

record param_info_response =
  pir_info :: pparaminfo
  pir_array_length :: u32

record param_info_call = "(param_info_request, param_info_response) call" +
  pi_dm :: "u32 option"
  responses :: "param_info_response list"
  current_response :: u32

definition updateArrayLengths :: "string \<Rightarrow> u32 \<Rightarrow> param_info_response list \<Rightarrow> param_info_response list" where
  "updateArrayLengths array_name len rs =
     (if len > 0 then map (\<lambda>r. if pi_oid (pir_info r) = array_name then r\<lparr>pir_array_length := len\<rparr> else r) rs else rs)"

definition addParamToResponses :: "param \<Rightarrow> authorizer \<Rightarrow> param_info_response list \<Rightarrow> param_info_response list" where
  "addParamToResponses p authz rs =
     rs @ [\<lparr>pir_info = snd (param_toProto_info p pparaminfo_default authz), pir_array_length = 0\<rparr>]"

text \<open>For array types, calculate and update the array length.\<close>

definition note_array :: "device \<Rightarrow> param \<Rightarrow> param_info_response list \<Rightarrow> param_info_response list res" where
  "note_array dm p rs =
     (if isArrayType p then
        res_bind (deref dm p) (\<lambda>v.
        Ret (if array_length v > 0 then updateArrayLengths (pd_oid (node (p_desc p))) (array_length v) rs else rs))
      else Ret rs)"

text \<open>\<^verbatim>\<open>ParamInfoVisitor\<close>; \<open>pre\<close> is the oid prefix of the request.\<close>

fun info_visit :: "string \<Rightarrow> authorizer \<Rightarrow> visit \<Rightarrow> param_info_response list \<Rightarrow> param_info_response list" where
  "info_visit pre authz (VisitParam p path) rs =
     (let isTopParameter = (path = pre \<or> path = CHR ''/'' # pd_oid (node (p_desc p))) in
      if isTopParameter \<or> isArrayType p then rs else addParamToResponses p authz rs)"
| "info_visit pre authz (VisitArray p path len) rs =
     (let isTopParameter = (path = pre \<or> path = CHR ''/'' # pd_oid (node (p_desc p))) in
      if isTopParameter then rs
      else if len > 0 then updateArrayLengths (pd_oid (node (p_desc p))) len (addParamToResponses p authz rs)
      else addParamToResponses p authz rs)"

definition info_traverse :: "device \<Rightarrow> authorizer \<Rightarrow> string \<Rightarrow> param \<Rightarrow> string \<Rightarrow> param_info_response list
    \<Rightarrow> param_info_response list res" where
  "info_traverse dm authz pre p path rs =
     (case traverseParams (traverse_fuel dm) dm authz p path of
        None \<Rightarrow> Undef
      | Some r \<Rightarrow> res_bind r (\<lambda>ws. Ret (fold (info_visit pre authz) ws rs)))"

fun info_top_level :: "device \<Rightarrow> authorizer \<Rightarrow> bool \<Rightarrow> param list \<Rightarrow> param_info_response list \<Rightarrow> param_info_response list res" where
  "info_top_level dm authz rec [] rs = Ret rs"
| "info_top_level dm authz rec (p # ps) rs =
     res_bind (note_array dm p (addParamToResponses p authz rs)) (\<lambda>rs1.
     res_bind (if rec then info_traverse dm authz [] p (CHR ''/'' # pd_oid (node (p_desc p))) rs1 else Ret rs1) (\<lambda>rs2.
     info_top_level dm authz rec ps rs2))"

definition ParamInfo_collect :: "device \<Rightarrow> param_info_request \<Rightarrow> authorizer \<Rightarrow> (param_info_response list \<times> StatusCode) res" where
  "ParamInfo_collect dm req authz =
     (if oid_prefix req = [] then
        res_bind (getTopLevelParams dm OK authz) (\<lambda>(top_level_params, rc).
        if rc \<noteq> OK then Ret ([], rc)
        else if top_level_params = [] then Ret ([], NOT_FOUND)
        else res_bind (info_top_level dm authz (recursive req) top_level_params []) (\<lambda>rs. Ret (rs, OK)))
      else
        res_bind (getParam_fqoid dm (oid_prefix req) OK authz) (\<lambda>(param, rc).
        if rc \<noteq> OK then Ret ([], rc)
        else case param of
          None \<Rightarrow> Ret ([], NOT_FOUND)
        | Some p \<Rightarrow>
            res_bind (note_array dm p (addParamToResponses p authz [])) (\<lambda>rs1.
            res_bind (if recursive req then info_traverse dm authz (oid_prefix req) p (oid_prefix req) rs1 else Ret rs1) (\<lambda>rs2.
            Ret (rs2, OK)))))"

definition ParamInfo_process :: "jwt \<Rightarrow> service \<Rightarrow> param_info_call \<Rightarrow> (service \<times> param_info_call \<times> StatusCode) res" where
  "ParamInfo_process decode sv c =
     try_catch sv c
       (res_bind (find_device sv (pi_slot (cl_req c))) (\<lambda>d. case d of
          None \<Rightarrow> Ret (sv, c, NOT_FOUND)
        | Some dm \<Rightarrow>
            let c1 = c\<lparr>pi_dm := Some (slot dm)\<rparr> in
            try_catch sv c1
              (res_bind (call_authz decode sv (cl_meta c)) (\<lambda>authz.
               res_bind (ParamInfo_collect dm (cl_req c) authz) (\<lambda>(rs, rc).
               Ret (sv, c1\<lparr>responses := rs\<rparr>, rc))))))"

definition ParamInfo_write :: "service \<Rightarrow> param_info_call \<Rightarrow> (service \<times> param_info_call) res" where
  "ParamInfo_write sv c =
     (if pi_dm c = None then Undef
      else let i = unat (current_response c); rs = responses c in
        if i \<ge> length rs then Throw StdOutOfRange
        else Ret (sv, reply (Write (rs ! i))
               (if i < length rs - 1 then c\<lparr>current_response := current_response c + 1, cl_status := kWrite\<rparr>
                else c\<lparr>cl_status := kPostWrite\<rparr>)))"

definition ParamInfoRequest_proceed :: "jwt \<Rightarrow> int \<Rightarrow> service \<Rightarrow> param_info_call \<Rightarrow> bool \<Rightarrow> (service \<times> param_info_call) res" where
  "ParamInfoRequest_proceed decode now sv c ok =
     (let c0 = (if ok then c else c\<lparr>cl_status := kFinish\<rparr>) in
      case cl_status c0 of
        kCreate \<Rightarrow> Ret (sv\<lparr>listening := listening sv @ [(RParamInfoRequest, cl_ptr c0)]\<rparr>, c0\<lparr>cl_status := kProcess\<rparr>)
      | kProcess \<Rightarrow>
          (let c1 = processTimestamps now c0; sv1 = new_call RParamInfoRequest ok sv in
           res_bind (ParamInfo_process decode sv1 c1) (\<lambda>(sv2, c2, rc).
           if rc = OK then ParamInfo_write sv2 (c2\<lparr>cl_status := kWrite\<rparr>)
           else Ret (sv2, reply (FinishStatus rc) (c2\<lparr>cl_status := kFinish\<rparr>))))
      | kWrite \<Rightarrow> ParamInfo_write sv c0
      | kPostWrite \<Rightarrow> Ret (sv, reply (FinishStatus OK) (c0\<lparr>cl_status := kFinish\<rparr>))
      | kFinish \<Rightarrow> Ret (deregisterItem (cl_ptr c0) sv, c0)
      | kRead \<Rightarrow> Ret (sv, reply (FinishStatus INTERNAL) (c0\<lparr>cl_status := kFinish\<rparr>)))"

section \<open>The contract of a stream\<close>

fun run :: "('s \<Rightarrow> 'c \<Rightarrow> ('s \<times> 'c) res) \<Rightarrow> nat \<Rightarrow> 's \<Rightarrow> 'c \<Rightarrow> ('s \<times> 'c) res" where
  "run step 0 s c = Ret (s, c)"
| "run step (Suc n) s c = res_bind (step s c) (\<lambda>(s', c'). run step n s' c')"

text \<open>
  A call in \<^verbatim>\<open>kWrite\<close> writes the next of the messages it has still to send; when there are none left
  it finishes, at once or after \<^verbatim>\<open>kPostWrite\<close>.
\<close>

locale stream_call =
  fixes step :: "service \<Rightarrow> 'c \<Rightarrow> (service \<times> 'c) res"
    and st :: "'c \<Rightarrow> CallStatus"
    and out :: "'c \<Rightarrow> 'm reply list"
    and pending :: "service \<Rightarrow> 'c \<Rightarrow> 'm list"
    and good :: "service \<Rightarrow> 'c \<Rightarrow> bool"
  assumes writes: "good sv c \<Longrightarrow> st c = kWrite \<Longrightarrow> pending sv c = m # ms \<Longrightarrow>
      \<exists>c'. step sv c = Ret (sv, c') \<and> out c' = out c @ [Write m]
         \<and> (st c' = kWrite \<and> good sv c' \<and> pending sv c' = ms \<or> st c' = kPostWrite \<and> ms = [])"
    and stops: "good sv c \<Longrightarrow> st c = kWrite \<Longrightarrow> pending sv c = [] \<Longrightarrow>
      \<exists>c'. step sv c = Ret (sv, c') \<and> out c' = out c @ [FinishStatus OK] \<and> st c' = kFinish"
    and posts: "st c = kPostWrite \<Longrightarrow>
      \<exists>c'. step sv c = Ret (sv, c') \<and> out c' = out c @ [FinishStatus OK] \<and> st c' = kFinish"
begin

lemma streams_all:
  "good sv c \<Longrightarrow> st c = kWrite \<Longrightarrow>
     \<exists>c'. run step (Suc (length (pending sv c))) sv c = Ret (sv, c')
        \<and> out c' = out c @ map Write (pending sv c) @ [FinishStatus OK] \<and> st c' = kFinish"
proof (induction "pending sv c" arbitrary: c)
  case Nil
  from stops [OF Nil(2,3) Nil(1) [symmetric]] Nil(1) [symmetric] show ?case by auto
next
  case (Cons m ms)
  from writes [OF Cons(3,4) Cons(2) [symmetric]] obtain c' where
    c': "step sv c = Ret (sv, c')" "out c' = out c @ [Write m]"
    "st c' = kWrite \<and> good sv c' \<and> pending sv c' = ms \<or> st c' = kPostWrite \<and> ms = []" by blast
  from c'(3) show ?case
  proof
    assume "st c' = kWrite \<and> good sv c' \<and> pending sv c' = ms"
    with Cons(1) [of c'] c' Cons(2) [symmetric] show ?thesis by auto
  next
    assume "st c' = kPostWrite \<and> ms = []"
    with posts [of c' sv] c' Cons(2) [symmetric] show ?thesis by auto
  qed
qed

end

subsection \<open>DeviceRequest\<close>

definition rets :: "'a res list \<Rightarrow> 'a list" where
  "rets = List.map_filter (\<lambda>r. case r of Ret x \<Rightarrow> Some x | _ \<Rightarrow> None)"

lemma rets_simps [simp]: "rets [] = []" "rets (Ret x # rs) = x # rets rs"
  by (simp_all add: rets_def List.map_filter_simps)

lemma rets_map: "list_all is_ret rs \<Longrightarrow> map Ret (rets rs) = rs"
proof (induction rs)
  case (Cons r rs)
  then show ?case by (cases r) auto
qed simp

definition device_pending :: "device_call \<Rightarrow> component list" where
  "device_pending c = (case serializer c of None \<Rightarrow> [] | Some ser \<Rightarrow> rets ser)"

definition device_good :: "device_call \<Rightarrow> bool" where
  "device_good c \<longleftrightarrow> (\<exists>ser. serializer c = Some ser \<and> list_all is_ret ser \<and> ser \<noteq> [])"

lemma reply_simps [simp]:
  "cl_out (reply m c) = cl_out c @ [m]" "cl_status (reply m c) = cl_status c" "cl_ptr (reply m c) = cl_ptr c"
  by (simp_all add: reply_def)

lemma reply_serializer [simp]: "serializer (reply m c) = serializer c"
  by (simp add: reply_def)

interpretation dr: stream_call "\<lambda>sv c. DeviceRequest_proceed decode now sv c True" cl_status cl_out
  "\<lambda>sv. device_pending" "\<lambda>sv. device_good" for decode now
proof
  fix sv :: service and c :: device_call and m ms
  assume *: "device_good c" "cl_status c = kWrite" "device_pending c = m # ms"
  then obtain ser where ser: "serializer c = Some ser" "list_all is_ret ser" "rets ser = m # ms"
    by (auto simp: device_good_def device_pending_def)
  from rets_map [OF ser(2)] ser(3) have "ser = Ret m # map Ret ms" by simp
  moreover have "rets (map Ret ms) = ms" by (induction ms) auto
  ultimately show "\<exists>c'. DeviceRequest_proceed decode now sv c True = Ret (sv, c') \<and> cl_out c' = cl_out c @ [Write m]
      \<and> (cl_status c' = kWrite \<and> device_good c' \<and> device_pending c' = ms \<or> cl_status c' = kPostWrite \<and> ms = [])"
    using * ser(1) by (auto simp: DeviceRequest_proceed_def DeviceRequest_write_def hasMore_def device_good_def
        device_pending_def list_all_iff)
next
  fix sv :: service and c :: device_call
  assume "device_good c" "device_pending c = []"
  then have False using rets_map by (fastforce simp: device_good_def device_pending_def)
  then show "\<exists>c'. DeviceRequest_proceed decode now sv c True = Ret (sv, c') \<and> cl_out c' = cl_out c @ [FinishStatus OK]
      \<and> cl_status c' = kFinish" ..
qed (simp add: DeviceRequest_proceed_def)

subsection \<open>UpdateSubscriptions\<close>

text \<open>The message for a subscribed oid: there is one exactly when the parameter exists and the client may read all of it.\<close>

definition subscription_message :: "device \<Rightarrow> authorizer \<Rightarrow> string \<Rightarrow> (string \<times> pparam) option" where
  "subscription_message dm a oid =
     (case getParam_fqoid dm oid OK kAuthzDisabled of
        Ret (Some p, _) \<Rightarrow>
          (case res_bind (deref dm p) (\<lambda>v. param_toProto p v pparam_default a) of
             Ret (rc, msg) \<Rightarrow> if rc = OK then Some (pd_oid (node (p_desc p)), msg) else None
           | _ \<Rightarrow> None)
      | _ \<Rightarrow> None)"

definition subscription_messages :: "device \<Rightarrow> authorizer \<Rightarrow> string list \<Rightarrow> (string \<times> pparam) list" where
  "subscription_messages dm a = List.map_filter (subscription_message dm a)"

lemma next_param_step:
  assumes "device_ok dm"
  shows "next_param dm a (oid # oids) =
           (case subscription_message dm a oid of None \<Rightarrow> next_param dm a oids | Some m \<Rightarrow> Ret (Some m, oids))"
  using assms
proof (cases rule: getParam_fqoid_cases [of dm oid kAuthzDisabled])
  case (missing rc)
  then show ?thesis by (simp add: subscription_message_def)
next
  case (found p v)
  then have "handle_ok p v" by (simp add: live_def)
  from param_toProto_total [OF this, of pparam_default a] found live_deref show ?thesis
    by (auto simp: subscription_message_def)
qed

lemma next_param_finds:
  assumes "device_ok dm"
  shows "\<exists>oids'. next_param dm a oids =
           Ret (case subscription_messages dm a oids of [] \<Rightarrow> None | m # ms \<Rightarrow> Some m, oids')
         \<and> subscription_messages dm a oids' = tl (subscription_messages dm a oids)"
proof (induction oids)
  case (Cons oid oids)
  then show ?case
    by (cases "subscription_message dm a oid")
      (auto simp: next_param_step [OF assms] subscription_messages_def List.map_filter_simps simp del: next_param.simps)
qed (simp add: subscription_messages_def List.map_filter_simps)

definition update_device :: "service \<Rightarrow> update_call \<Rightarrow> device option" where
  "update_device sv c = (case us_dm c of None \<Rightarrow> None | Some s \<Rightarrow> device_at (dms sv) s)"

definition update_pending :: "service \<Rightarrow> update_call \<Rightarrow> (string \<times> pparam) list" where
  "update_pending sv c =
     (case update_device sv c of None \<Rightarrow> [] | Some dm \<Rightarrow> subscription_messages dm (us_authz c) (subbedOids c))"

definition update_good :: "service \<Rightarrow> update_call \<Rightarrow> bool" where
  "update_good sv c \<longleftrightarrow> (\<exists>dm. update_device sv c = Some dm \<and> device_ok dm)"

lemma update_reply [simp]:
  "update_device sv (reply m c) = update_device sv c" "us_authz (reply m c) = us_authz c" "subbedOids (reply m c) = subbedOids c"
  by (simp_all add: reply_def update_device_def)

lemma update_device_simps [simp]:
  "update_device sv (c\<lparr>subbedOids := oids\<rparr>) = update_device sv c" "update_device sv (c\<lparr>cl_status := x\<rparr>) = update_device sv c"
  by (simp_all add: update_device_def)

lemma UpdateSubscriptions_write_alt:
  "UpdateSubscriptions_write sv c =
     (case (case update_device sv c of
              None \<Rightarrow> Ret (None, subbedOids c)
            | Some dm \<Rightarrow> next_param dm (us_authz c) (subbedOids c)) of
        Ret (Some m, oids) \<Rightarrow> Ret (sv, reply (Write m) (c\<lparr>subbedOids := oids\<rparr>))
      | Ret (None, oids) \<Rightarrow> Ret (sv, reply (FinishStatus OK) (c\<lparr>subbedOids := oids, cl_status := kFinish\<rparr>))
      | Throw e \<Rightarrow> Ret (sv, reply (FinishStatus (catch_status e)) (c\<lparr>cl_status := kFinish\<rparr>))
      | Undef \<Rightarrow> Undef)"
  by (simp add: UpdateSubscriptions_write_def update_device_def)

interpretation us: stream_call "\<lambda>sv c. UpdateSubscriptions_proceed decode now sv c True" cl_status cl_out
  update_pending update_good for decode now
proof
  fix sv and c :: update_call and m ms
  assume *: "update_good sv c" "cl_status c = kWrite" "update_pending sv c = m # ms"
  then obtain dm where dm: "update_device sv c = Some dm" "device_ok dm"
    "subscription_messages dm (us_authz c) (subbedOids c) = m # ms"
    by (auto simp: update_good_def update_pending_def)
  from next_param_finds [OF dm(2), of "us_authz c" "subbedOids c"] dm(3) obtain oids where
    "next_param dm (us_authz c) (subbedOids c) = Ret (Some m, oids)" "subscription_messages dm (us_authz c) oids = ms" by auto
  with dm * show "\<exists>c'. UpdateSubscriptions_proceed decode now sv c True = Ret (sv, c') \<and> cl_out c' = cl_out c @ [Write m]
      \<and> (cl_status c' = kWrite \<and> update_good sv c' \<and> update_pending sv c' = ms \<or> cl_status c' = kPostWrite \<and> ms = [])"
    by (simp add: UpdateSubscriptions_proceed_def UpdateSubscriptions_write_alt update_good_def update_pending_def)
next
  fix sv and c :: update_call
  assume *: "update_good sv c" "cl_status c = kWrite" "update_pending sv c = []"
  then obtain dm where dm: "update_device sv c = Some dm" "device_ok dm"
    "subscription_messages dm (us_authz c) (subbedOids c) = []"
    by (auto simp: update_good_def update_pending_def)
  from next_param_finds [OF dm(2), of "us_authz c" "subbedOids c"] dm * show
    "\<exists>c'. UpdateSubscriptions_proceed decode now sv c True = Ret (sv, c') \<and> cl_out c' = cl_out c @ [FinishStatus OK]
      \<and> cl_status c' = kFinish"
    by (auto simp: UpdateSubscriptions_proceed_def UpdateSubscriptions_write_alt)
qed (simp add: UpdateSubscriptions_proceed_def)

subsection \<open>ParamInfoRequest\<close>

definition info_pending :: "param_info_call \<Rightarrow> param_info_response list" where
  "info_pending c = drop (unat (current_response c)) (responses c)"

definition info_good :: "param_info_call \<Rightarrow> bool" where
  "info_good c \<longleftrightarrow> pi_dm c \<noteq> None \<and> unat (current_response c) < length (responses c) \<and> length (responses c) < 2 ^ 32"

lemma info_reply [simp]:
  "pi_dm (reply m c) = pi_dm c" "responses (reply m c) = responses c" "current_response (reply m c) = current_response c"
  by (simp_all add: reply_def)

lemma unat_suc32: "Suc (unat (n :: u32)) < 2 ^ 32 \<Longrightarrow> unat (n + 1) = Suc (unat n)"
  by (simp add: unat_word_ariths)

interpretation pir: stream_call "\<lambda>sv c. ParamInfoRequest_proceed decode now sv c True" cl_status cl_out
  "\<lambda>sv. info_pending" "\<lambda>sv. info_good" for decode now
proof
  fix sv :: service and c :: param_info_call and m ms
  assume *: "info_good c" "cl_status c = kWrite" "info_pending c = m # ms"
  let ?i = "unat (current_response c)"
  from * have i: "?i < length (responses c)" "responses c ! ?i = m" "drop (Suc ?i) (responses c) = ms"
    by (auto simp: info_good_def info_pending_def) (metis nth_via_drop, metis drop_Suc list.sel(3) tl_drop)
  show "\<exists>c'. ParamInfoRequest_proceed decode now sv c True = Ret (sv, c') \<and> cl_out c' = cl_out c @ [Write m]
      \<and> (cl_status c' = kWrite \<and> info_good c' \<and> info_pending c' = ms \<or> cl_status c' = kPostWrite \<and> ms = [])"
  proof (cases "?i < length (responses c) - 1")
    case True
    with *(1) have "unat (current_response c + 1) = Suc ?i" by (intro unat_suc32) (auto simp: info_good_def)
    with True * i show ?thesis
      by (auto simp: ParamInfoRequest_proceed_def ParamInfo_write_def info_good_def info_pending_def)
  next
    case False
    with * i show ?thesis
      by (auto simp: ParamInfoRequest_proceed_def ParamInfo_write_def info_good_def)
  qed
next
  fix sv :: service and c :: param_info_call
  assume "info_good c" "info_pending c = []"
  then show "\<exists>c'. ParamInfoRequest_proceed decode now sv c True = Ret (sv, c') \<and> cl_out c' = cl_out c @ [FinishStatus OK]
      \<and> cl_status c' = kFinish"
    by (simp add: info_good_def info_pending_def)
qed (simp add: ParamInfoRequest_proceed_def)

section \<open>From the request to the stream\<close>

lemma extends_readable_refl: "extends_readable dm a oids oids"
  by (simp add: extends_readable_def)

lemma run_first: "step s c = step s' c' \<Longrightarrow> run step (Suc n) s c = run step (Suc n) s' c'"
  by simp

lemma add_subscriptions_ok:
  assumes "device_ok dm" "names_ok dm"
  shows "\<exists>sm'. add_subscriptions sm oids dm a = (sm', Ret ()) \<and> extends_readable dm a (sm (slot dm)) (sm' (slot dm))
     \<and> (\<forall>s. s \<noteq> slot dm \<longrightarrow> sm' s = sm s)"
proof (induction oids arbitrary: sm)
  case (Cons oid oids)
  from addSubscription_ok [OF assms, of sm oid a] obtain sm1 ok rc where
    1: "addSubscription sm oid dm a = Ret (sm1, ok, rc)" "extends_readable dm a (sm (slot dm)) (sm1 (slot dm))"
    "\<forall>s. s \<noteq> slot dm \<longrightarrow> sm1 s = sm s" by blast
  from Cons.IH [of sm1] 1 show ?case by (auto intro: extends_readable_trans)
qed (simp add: extends_readable_def)

lemma DeviceRequest_starts:
  assumes "service_ok sv" "ready sv c" "find_device sv (dr_slot (cl_req c)) = Ret (Some dm)" "names_ok dm" "commands_ok dm"
    and "call_authz decode sv (cl_meta c) = Ret a" "dl = dr_detail_level (cl_req c)" "dl = SUBSCRIPTIONS \<longrightarrow> subscriptions dm"
  shows "\<exists>sv1 c1 oids comps. DeviceRequest_proceed decode now sv c True = DeviceRequest_proceed decode now sv1 c1 True
     \<and> cl_status c1 = kWrite \<and> cl_out c1 = [] \<and> serializer c1 = Some (map Ret comps) \<and> comps \<noteq> []
     \<and> getComponentSerializer dm a oids dl = Ret (map Ret comps)
     \<and> dms sv1 = dms sv \<and> extends_readable dm a (subscriptionManager sv (slot dm)) (subscriptionManager sv1 (slot dm))
     \<and> oids = (if dl = SUBSCRIPTIONS then subscriptionManager sv1 (slot dm) else {})"
proof -
  let ?sv = "new_call RDeviceRequest True sv" and ?c = "processTimestamps now c"
  from find_device_Some [OF assms(3,1)] have dm: "device_ok dm" by simp
  obtain sm where sm: "(if dl = SUBSCRIPTIONS
        then add_subscriptions (subscriptionManager sv) (dr_subscribed_oids (cl_req c)) dm a
        else (subscriptionManager sv, Ret ())) = (sm, Ret ())"
    "extends_readable dm a (subscriptionManager sv (slot dm)) (sm (slot dm))"
    using add_subscriptions_ok [OF dm assms(4), of "subscriptionManager sv" "dr_subscribed_oids (cl_req c)" a]
    by (cases "dl = SUBSCRIPTIONS") (auto simp: extends_readable_refl)
  define oids where "oids = (if dl = SUBSCRIPTIONS then sm (slot dm) else {})"
  define comps where "comps = rets (getDeviceSerializer dm a oids dl)"
  have comps: "map Ret comps = getDeviceSerializer dm a oids dl"
    unfolding comps_def by (rule rets_map [OF serializer_returns [OF dm assms(5)]])
  then have ser: "getComponentSerializer dm a oids dl = Ret (map Ret comps)" "comps \<noteq> []"
    using assms(8) by (auto simp: getComponentSerializer_def getDeviceSerializer_def)
  let ?sv1 = "?sv\<lparr>subscriptionManager := sm\<rparr>"
  have "DeviceRequest_process decode ?sv ?c = Ret (?sv1, Some (map Ret comps), OK)"
    using assms(3,6,7) sm(1) ser(1)
    by (cases "dl = SUBSCRIPTIONS") (auto simp: DeviceRequest_process_def getAllSubscribedOids_def oids_def Let_def)
  then have "DeviceRequest_proceed decode now sv c True
      = DeviceRequest_write ?sv1 (?c\<lparr>cl_status := kWrite, serializer := Some (map Ret comps)\<rparr>)"
    using assms(2) by (simp add: DeviceRequest_proceed_def ready_def)
  then have eq: "DeviceRequest_proceed decode now sv c True
      = DeviceRequest_proceed decode now ?sv1 (?c\<lparr>cl_status := kWrite, serializer := Some (map Ret comps)\<rparr>) True"
    by (simp add: DeviceRequest_proceed_def)
  show ?thesis
    by (intro exI conjI, rule eq) (use assms(2) ser sm(2) in \<open>auto simp: ready_def oids_def split: if_splits\<close>)
qed

section \<open>Properties\<close>

text \<open>
  C15: a \<^verbatim>\<open>DeviceRequest\<close> that names a populated slot streams every component of the device, in
  order, and then ends with OK, after exactly one event per component and one more; no device is
  changed, and the subscriptions only grow by oids the client may read.
\<close>

theorem device_request_streams_all:
  assumes "service_ok sv" "ready sv c" "find_device sv (dr_slot (cl_req c)) = Ret (Some dm)" "names_ok dm" "commands_ok dm"
    and "call_authz decode sv (cl_meta c) = Ret a" "dl = dr_detail_level (cl_req c)" "dl = SUBSCRIPTIONS \<longrightarrow> subscriptions dm"
  shows "\<exists>oids comps sv' c'. getComponentSerializer dm a oids dl = Ret (map Ret comps)
     \<and> run (\<lambda>sv c. DeviceRequest_proceed decode now sv c True) (Suc (length comps)) sv c = Ret (sv', c')
     \<and> cl_out c' = map Write comps @ [FinishStatus OK] \<and> cl_status c' = kFinish
     \<and> dms sv' = dms sv \<and> extends_readable dm a (subscriptionManager sv (slot dm)) (subscriptionManager sv' (slot dm))
     \<and> oids = (if dl = SUBSCRIPTIONS then subscriptionManager sv' (slot dm) else {})"
proof -
  from DeviceRequest_starts [OF assms, of now] obtain sv1 c1 oids comps where
    1: "DeviceRequest_proceed decode now sv c True = DeviceRequest_proceed decode now sv1 c1 True"
    "cl_status c1 = kWrite" "cl_out c1 = []" "serializer c1 = Some (map Ret comps)" "comps \<noteq> []"
    "getComponentSerializer dm a oids dl = Ret (map Ret comps)" "dms sv1 = dms sv"
    "extends_readable dm a (subscriptionManager sv (slot dm)) (subscriptionManager sv1 (slot dm))"
    "oids = (if dl = SUBSCRIPTIONS then subscriptionManager sv1 (slot dm) else {})" by blast
  have "device_good c1" using 1(4,5) by (simp add: device_good_def list_all_iff)
  moreover have "device_pending c1 = comps"
    using 1(4) rets_map [of "map Ret comps"] by (simp add: device_pending_def list_all_iff inj_map_eq_map inj_def)
  ultimately obtain c' where
    "run (\<lambda>sv c. DeviceRequest_proceed decode now sv c True) (Suc (length comps)) sv1 c1 = Ret (sv1, c')"
    "cl_out c' = map Write comps @ [FinishStatus OK]" "cl_status c' = kFinish"
    using dr.streams_all [of c1 decode now sv1] 1(2,3) by auto
  with 1 run_first [of "\<lambda>sv c. DeviceRequest_proceed decode now sv c True" sv c sv1 c1 "length comps"]
  show ?thesis by (intro exI conjI) (assumption | simp)+
qed

definition ex_device_call :: device_call where
  "ex_device_call = call.extend (ex_call \<lparr>dr_slot = 1, dr_detail_level = FULL, dr_subscribed_oids = []\<rparr>) \<lparr>serializer = None\<rparr>"

lemma ex_device_commands: "commands_ok ex_device"
  by code_simp

lemma ex_service_device:
  "find_device ex_service 1 = Ret (Some ex_device)" "call_authz decode ex_service [] = Ret kAuthzDisabled"
  "subscriptions ex_device"
  by (simp_all add: find_device_def call_authz_def ex_service_def device_at_def) code_simp

lemma ex_device_call_simps:
  "cl_req ex_device_call = \<lparr>dr_slot = 1, dr_detail_level = FULL, dr_subscribed_oids = []\<rparr>" "cl_meta ex_device_call = []"
  "ready ex_service ex_device_call"
  by (simp_all add: ex_device_call_def ex_call_def call.defs ready_def ex_service_def)

theorem device_request_streams_all_witness:
  "\<exists>comps sv' c'. run (\<lambda>sv c. DeviceRequest_proceed (\<lambda>_. None) 0 sv c True) (Suc (length comps)) ex_service ex_device_call = Ret (sv', c')
     \<and> cl_out c' = map Write comps @ [FinishStatus OK]"
  using device_request_streams_all [OF ex_service_ok(1) ex_device_call_simps(3), of ex_device "\<lambda>_. None" kAuthzDisabled FULL 0]
    ex_service_device ex_device_names ex_device_commands
  unfolding ex_device_call_simps by auto

lemma subscription_message_readable:
  assumes "device_ok dm" "subscription_message dm a oid = Some m"
  shows "\<exists>p v. live dm p v \<and> readable (p_ctype p) v (p_desc p) a \<and> fst m = pd_oid (node (p_desc p))"
  using assms(1)
proof (cases rule: getParam_fqoid_cases [of dm oid kAuthzDisabled])
  case (found p v)
  with assms(2) live_deref [OF found(2)] obtain x where
    x: "param_toProto p v pparam_default a = Ret (OK, x)" "fst m = pd_oid (node (p_desc p))"
    by (auto simp: subscription_message_def split: res.splits prod.splits if_splits)
  then obtain y where "toProto (p_ctype p) KindNotSet v (p_desc p) a = Ret (OK, y)"
    by (auto simp: param_toProto_def param_toProto_value_def pparam_default_def res_simps split: if_splits)
  with found(2) have "readable (p_ctype p) v (p_desc p) a"
    by (intro toProto_OK_readable) (auto simp: live_def handle_ok_def)
  with found(2) x(2) show ?thesis by blast
next
  case (missing rc)
  with assms(2) show ?thesis by (simp add: subscription_message_def)
qed

text \<open>
  an \<^verbatim>\<open>UpdateSubscriptions\<close> call subscribes and unsubscribes what it is asked to, then streams
  exactly one message for every subscribed parameter of the device that the client may read in
  all its parts, in ascending order of the oids, and ends with OK; it changes no device.
\<close>

theorem update_subscriptions_streams_readable:
  assumes "service_ok sv" "ready sv c" "find_device sv (us_slot (cl_req c)) = Ret (Some dm)" "names_ok dm"
    and "subscriptions dm" "call_authz decode sv (cl_meta c) = Ret a"
  shows "\<exists>sm msgs sv' c'. add_subscriptions (subscriptionManager sv) (added_oids (cl_req c)) dm a = (sm, Ret ())
     \<and> subscriptionManager sv' = remove_subscriptions sm (removed_oids (cl_req c)) dm \<and> dms sv' = dms sv
     \<and> msgs = subscription_messages dm a (sorted_list_of_set (subscriptionManager sv' (slot dm)))
     \<and> run (\<lambda>sv c. UpdateSubscriptions_proceed decode now sv c True) (Suc (length msgs)) sv c = Ret (sv', c')
     \<and> cl_out c' = map Write msgs @ [FinishStatus OK] \<and> cl_status c' = kFinish
     \<and> (\<forall>m \<in> set msgs. \<exists>p v. live dm p v \<and> readable (p_ctype p) v (p_desc p) a \<and> fst m = pd_oid (node (p_desc p)))"
proof -
  let ?sv = "new_call RUpdateSubscriptions True sv" and ?c = "processTimestamps now c"
  from find_device_Some [OF assms(3,1)] have dm: "device_ok dm" "device_at (dms sv) (slot dm) = Some dm" by auto
  obtain sm where sm: "add_subscriptions (subscriptionManager sv) (added_oids (cl_req c)) dm a = (sm, Ret ())"
    using add_subscriptions_ok [OF dm(1) assms(4)] by blast
  define sm' where "sm' = remove_subscriptions sm (removed_oids (cl_req c)) dm"
  define msgs where "msgs = subscription_messages dm a (sorted_list_of_set (sm' (slot dm)))"
  let ?sv1 = "?sv\<lparr>subscriptionManager := sm'\<rparr>"
  let ?c1 = "?c\<lparr>us_dm := Some (slot dm), us_authz := a, subbedOids := sorted_list_of_set (sm' (slot dm)), cl_status := kWrite\<rparr>"
  have "UpdateSubscriptions_process decode ?sv ?c = Ret (?sv1, ?c1, OK)"
    using assms(3,5,6) sm by (simp add: UpdateSubscriptions_process_def getAllSubscribedOids_def sm'_def Let_def)
  then have eq: "UpdateSubscriptions_proceed decode now sv c True = UpdateSubscriptions_proceed decode now ?sv1 ?c1 True"
    using assms(2) by (simp add: UpdateSubscriptions_proceed_def ready_def)
  have "update_device ?sv1 ?c1 = Some dm" using dm(2) by (simp add: update_device_def)
  with dm(1) have "update_good ?sv1 ?c1" "update_pending ?sv1 ?c1 = msgs"
    by (simp_all add: update_good_def update_pending_def msgs_def)
  with us.streams_all [of ?sv1 ?c1 decode now] assms(2) obtain c' where
    r: "run (\<lambda>sv c. UpdateSubscriptions_proceed decode now sv c True) (Suc (length msgs)) ?sv1 ?c1 = Ret (?sv1, c')"
    "cl_out c' = map Write msgs @ [FinishStatus OK]" "cl_status c' = kFinish" by (auto simp: ready_def)
  have rd: "\<forall>m \<in> set msgs. \<exists>p v. live dm p v \<and> readable (p_ctype p) v (p_desc p) a \<and> fst m = pd_oid (node (p_desc p))"
    using subscription_message_readable [OF dm(1)]
    by (auto simp: msgs_def subscription_messages_def List.map_filter_def)
  show ?thesis
    by (rule exI [of _ sm], rule exI [of _ msgs], rule exI [of _ ?sv1], rule exI [of _ c'])
      (use sm r rd run_first [of "\<lambda>sv c. UpdateSubscriptions_proceed decode now sv c True", OF eq] in
        \<open>simp add: sm'_def msgs_def del: run.simps\<close>)
qed

definition ex_update_call :: update_call where
  "ex_update_call = call.extend (ex_call \<lparr>us_slot = 1, added_oids = [''/*''], removed_oids = []\<rparr>)
     \<lparr>us_dm = None, us_authz = kAuthzDisabled, subbedOids = []\<rparr>"

lemma ex_update_call_simps:
  "cl_req ex_update_call = \<lparr>us_slot = 1, added_oids = [''/*''], removed_oids = []\<rparr>" "cl_meta ex_update_call = []"
  "ready ex_service ex_update_call"
  by (simp_all add: ex_update_call_def ex_call_def call.defs ready_def ex_service_def)

theorem update_subscriptions_streams_readable_witness:
  "\<exists>msgs sv' c'. run (\<lambda>sv c. UpdateSubscriptions_proceed (\<lambda>_. None) 0 sv c True) (Suc (length msgs)) ex_service ex_update_call = Ret (sv', c')
     \<and> cl_out c' = map Write msgs @ [FinishStatus OK]"
  using update_subscriptions_streams_readable [OF ex_service_ok(1) ex_update_call_simps(3), of ex_device "\<lambda>_. None" kAuthzDisabled 0]
    ex_service_device ex_device_names
  unfolding ex_update_call_simps by (auto simp del: run.simps)

text \<open>Every response describes a stored parameter the client may read.\<close>

definition infos_ok :: "device \<Rightarrow> authorizer \<Rightarrow> param_info_response list \<Rightarrow> bool" where
  "infos_ok dm a rs \<longleftrightarrow>
     (\<forall>i \<in> pir_info ` set rs. \<exists>p v. live dm p v \<and> readAuthz a (p_desc p) \<and> i = pd_toProto_info (p_desc p) pparaminfo_default)"

lemma updateArrayLengths_simps [simp]:
  "infos_ok dm a (updateArrayLengths n len rs) = infos_ok dm a rs" "length (updateArrayLengths n len rs) = length rs"
proof -
  have "map pir_info (updateArrayLengths n len rs) = map pir_info rs" by (simp add: updateArrayLengths_def)
  then have "pir_info ` set (updateArrayLengths n len rs) = pir_info ` set rs" by (metis set_map)
  then show "infos_ok dm a (updateArrayLengths n len rs) = infos_ok dm a rs" by (simp add: infos_ok_def)
qed (simp add: updateArrayLengths_def)

lemma add_info_ok:
  "live dm p v \<Longrightarrow> readAuthz a (p_desc p) \<Longrightarrow> infos_ok dm a (addParamToResponses p a rs) = infos_ok dm a rs"
  by (auto simp: infos_ok_def addParamToResponses_def param_toProto_info_def)

lemma add_info_length [simp]: "length (addParamToResponses p a rs) = Suc (length rs)"
  by (simp add: addParamToResponses_def)

lemma note_array_ok:
  "live dm p v \<Longrightarrow> \<exists>rs'. note_array dm p rs = Ret rs' \<and> infos_ok dm a rs' = infos_ok dm a rs \<and> length rs' = length rs"
  by (simp add: note_array_def live_deref)

lemma info_visit_ok:
  assumes "live dm (visit_param w) v" "readAuthz a (p_desc (visit_param w))"
  shows "infos_ok dm a (info_visit pre a w rs) = infos_ok dm a rs \<and> length rs \<le> length (info_visit pre a w rs)"
  using assms by (cases w) (auto simp: Let_def add_info_ok)

lemma info_visits_ok:
  assumes "device_ok dm"
  shows "\<forall>w \<in> set ws. resolves dm a (visit_path w) (visit_param w) \<Longrightarrow>
     infos_ok dm a (fold (info_visit pre a) ws rs) = infos_ok dm a rs \<and> length rs \<le> length (fold (info_visit pre a) ws rs)"
proof (induction ws arbitrary: rs)
  case (Cons w ws)
  then have "resolves dm a (visit_path w) (visit_param w)" by simp
  from resolves_facts [OF assms this] obtain v where "live dm (visit_param w) v" "readAuthz a (p_desc (visit_param w))" by blast
  note w = info_visit_ok [OF this, of pre rs]
  from Cons.prems have "\<forall>w \<in> set ws. resolves dm a (visit_path w) (visit_param w)" by simp
  from Cons.IH [OF this, of "info_visit pre a w rs"] w show ?case by (auto simp del: info_visit.simps)
qed simp

lemma info_traverse_ok:
  assumes "device_ok dm" "resolves dm a path p"
  shows "\<exists>rs'. info_traverse dm a pre p path rs = Ret rs' \<and> infos_ok dm a rs' = infos_ok dm a rs \<and> length rs \<le> length rs'"
proof -
  from traverse_enough [OF assms] obtain ws where
    "traverseParams (traverse_fuel dm) dm a p path = Some (Ret ws)" "\<forall>w \<in> set ws. resolves dm a (visit_path w) (visit_param w)"
    by (auto simp: visits_ok_def)
  with info_visits_ok [OF assms(1)] show ?thesis by (simp add: info_traverse_def)
qed

text \<open>One parameter with, on request, everything below it.\<close>

lemma info_one_ok:
  assumes "device_ok dm" "resolves dm a path p"
  shows "\<exists>rs'. res_bind (note_array dm p (addParamToResponses p a rs)) (\<lambda>rs1.
            if rec then info_traverse dm a pre p path rs1 else Ret rs1) = Ret rs'
         \<and> infos_ok dm a rs' = infos_ok dm a rs \<and> length rs < length rs'"
proof -
  from resolves_facts [OF assms] obtain v where v: "live dm p v" "readAuthz a (p_desc p)" by blast
  from note_array_ok [OF v(1), of "addParamToResponses p a rs" a] obtain rs1 where
    1: "note_array dm p (addParamToResponses p a rs) = Ret rs1" "infos_ok dm a rs1 = infos_ok dm a rs" "length rs1 = Suc (length rs)"
    using add_info_ok [OF v] by auto
  with info_traverse_ok [OF assms, of pre rs1] show ?thesis by (cases rec) auto
qed

lemma info_top_level_ok:
  assumes "device_ok dm"
  shows "\<forall>p \<in> set ps. resolves dm a (CHR ''/'' # pd_oid (node (p_desc p))) p \<Longrightarrow>
     \<exists>rs'. info_top_level dm a rec ps rs = Ret rs' \<and> infos_ok dm a rs' = infos_ok dm a rs \<and> length rs + length ps \<le> length rs'"
proof (induction ps arbitrary: rs)
  case (Cons p ps)
  then have p: "resolves dm a (CHR ''/'' # pd_oid (node (p_desc p))) p" by simp
  from info_one_ok [OF assms p, of rs rec "[]"] obtain rs1 where
    1: "res_bind (note_array dm p (addParamToResponses p a rs)) (\<lambda>rs1.
          if rec then info_traverse dm a [] p (CHR ''/'' # pd_oid (node (p_desc p))) rs1 else Ret rs1) = Ret rs1"
    "infos_ok dm a rs1 = infos_ok dm a rs" "length rs < length rs1" by blast
  from Cons.IH [of rs1] Cons.prems obtain rs2 where
    "info_top_level dm a rec ps rs1 = Ret rs2" "infos_ok dm a rs2 = infos_ok dm a rs1" "length rs1 + length ps \<le> length rs2" by auto
  with 1 show ?case by (fastforce simp: res_simps)
qed simp

lemma ParamInfo_collect_ok:
  assumes "device_ok dm" "names_ok dm"
  shows "\<exists>rs rc. ParamInfo_collect dm req a = Ret (rs, rc) \<and> (rc = OK \<longrightarrow> rs \<noteq> [] \<and> infos_ok dm a rs)"
proof (cases "oid_prefix req = []")
  case True
  from getTopLevelParams_ok [OF assms, of OK a] obtain ps rc where
    ps: "getTopLevelParams dm OK a = Ret (ps, rc)" "\<forall>p \<in> set ps. resolves dm a (CHR ''/'' # pd_oid (node (p_desc p))) p" by blast
  from info_top_level_ok [OF assms(1) ps(2), of "recursive req" "[]"] obtain rs where
    "info_top_level dm a (recursive req) ps [] = Ret rs" "infos_ok dm a rs" "length ps \<le> length rs"
    by (auto simp: infos_ok_def)
  with True ps(1) show ?thesis by (auto simp: ParamInfo_collect_def)
next
  case False
  from assms(1) show ?thesis
  proof (cases rule: getParam_fqoid_cases [of dm "oid_prefix req" a])
    case (found p v)
    then have "resolves dm a (oid_prefix req) p" by (simp add: resolves_def)
    from info_one_ok [OF assms(1) this, of "[]" "recursive req" "oid_prefix req"] obtain rs where
      "res_bind (note_array dm p (addParamToResponses p a [])) (\<lambda>rs1.
         if recursive req then info_traverse dm a (oid_prefix req) p (oid_prefix req) rs1 else Ret rs1) = Ret rs"
      "infos_ok dm a rs" "rs \<noteq> []" by (auto simp: infos_ok_def)
    with False found show ?thesis by (fastforce simp: ParamInfo_collect_def res_simps)
  qed (use False in \<open>simp add: ParamInfo_collect_def\<close>)
qed

text \<open>
  C27: a \<^verbatim>\<open>ParamInfoRequest\<close> to a populated slot always comes to an end: the collection of the
  responses terminates, also when it recurses; it fails with a single error status, or streams
  every response, at least one and all of them about parameters the client may read, and then
  finishes with OK. The write index never runs past the responses.
\<close>

theorem param_info_streams_all:
  assumes "service_ok sv" "ready sv c" "current_response c = 0"
    and "find_device sv (pi_slot (cl_req c)) = Ret (Some dm)" "names_ok dm" "call_authz decode sv (cl_meta c) = Ret a"
  shows "\<exists>rs rc. ParamInfo_collect dm (cl_req c) a = Ret (rs, rc) \<and>
     (if rc = OK
      then rs \<noteq> [] \<and> infos_ok dm a rs
         \<and> (length rs < 2 ^ 32 \<longrightarrow>
              (\<exists>sv' c'. run (\<lambda>sv c. ParamInfoRequest_proceed decode now sv c True) (Suc (length rs)) sv c = Ret (sv', c')
                  \<and> cl_out c' = map Write rs @ [FinishStatus OK] \<and> cl_status c' = kFinish \<and> dms sv' = dms sv))
      else \<exists>sv' c'. ParamInfoRequest_proceed decode now sv c True = Ret (sv', c')
                  \<and> cl_out c' = [FinishStatus rc] \<and> cl_status c' = kFinish \<and> dms sv' = dms sv)"
proof -
  let ?sv = "new_call RParamInfoRequest True sv" and ?c = "processTimestamps now c"
  from find_device_Some [OF assms(4,1)] have dm: "device_ok dm" by simp
  from ParamInfo_collect_ok [OF dm assms(5), of "cl_req c" a] obtain rs rc where
    col: "ParamInfo_collect dm (cl_req c) a = Ret (rs, rc)" "rc = OK \<longrightarrow> rs \<noteq> [] \<and> infos_ok dm a rs" by blast
  let ?c1 = "?c\<lparr>pi_dm := Some (slot dm), responses := rs, cl_status := kWrite\<rparr>"
  have proc: "ParamInfo_process decode ?sv ?c = Ret (?sv, ?c\<lparr>pi_dm := Some (slot dm), responses := rs\<rparr>, rc)"
    using assms(4,6) col(1) by (simp add: ParamInfo_process_def Let_def)
  show ?thesis
  proof (cases "rc = OK")
    case False
    with proc assms(2) col show ?thesis by (simp add: ParamInfoRequest_proceed_def ready_def)
  next
    case True
    have eq: "ParamInfoRequest_proceed decode now sv c True = ParamInfoRequest_proceed decode now ?sv ?c1 True"
      using proc True assms(2) by (simp add: ParamInfoRequest_proceed_def ready_def)
    have "\<exists>sv' c'. run (\<lambda>sv c. ParamInfoRequest_proceed decode now sv c True) (Suc (length rs)) sv c = Ret (sv', c')
                  \<and> cl_out c' = map Write rs @ [FinishStatus OK] \<and> cl_status c' = kFinish \<and> dms sv' = dms sv"
      if len: "length rs < 2 ^ 32"
    proof -
      have cur: "current_response ?c1 = 0" using assms(3) by (simp add: processTimestamps_def Let_def split: option.split)
      have "info_good ?c1" "info_pending ?c1 = rs" "cl_out ?c1 = []"
        using len cur col(2) True assms(2) by (simp_all add: info_good_def info_pending_def ready_def)
      with pir.streams_all [of ?c1 decode now ?sv] run_first [of "\<lambda>sv c. ParamInfoRequest_proceed decode now sv c True", OF eq]
      show ?thesis by (auto simp del: run.simps)
    qed
    with col True show ?thesis by auto
  qed
qed

definition ex_info_call :: param_info_call where
  "ex_info_call = call.extend (ex_call \<lparr>pi_slot = 1, oid_prefix = [], recursive = True\<rparr>)
     \<lparr>pi_dm = None, responses = [], current_response = 0\<rparr>"

lemma ex_info_call_simps:
  "cl_req ex_info_call = \<lparr>pi_slot = 1, oid_prefix = [], recursive = True\<rparr>" "cl_meta ex_info_call = []"
  "ready ex_service ex_info_call" "current_response ex_info_call = 0"
  by (simp_all add: ex_info_call_def ex_call_def call.defs ready_def ex_service_def)

theorem param_info_streams_all_witness:
  "\<exists>rs rc. ParamInfo_collect ex_device \<lparr>pi_slot = 1, oid_prefix = [], recursive = True\<rparr> kAuthzDisabled = Ret (rs, rc)
     \<and> (rc = OK \<longrightarrow> rs \<noteq> [])"
  using param_info_streams_all [OF ex_service_ok(1) ex_info_call_simps(3,4), of ex_device "\<lambda>_. None" kAuthzDisabled 0]
    ex_service_device ex_device_names
  unfolding ex_info_call_simps by (auto simp del: run.simps split: if_splits)

text \<open>
  The length of an array is stored in every response with the same last segment, so an array of
  the same name elsewhere in the device loses its own length.
\<close>

lemma array_length_by_last_segment:
  "updateArrayLengths ''tags'' 5
     [\<lparr>pir_info = pparaminfo_default\<lparr>pi_oid := ''tags''\<rparr>, pir_array_length = 2\<rparr>,
      \<lparr>pir_info = pparaminfo_default\<lparr>pi_oid := ''tags''\<rparr>, pir_array_length = 0\<rparr>]
   = [\<lparr>pir_info = pparaminfo_default\<lparr>pi_oid := ''tags''\<rparr>, pir_array_length = 5\<rparr>,
      \<lparr>pir_info = pparaminfo_default\<lparr>pi_oid := ''tags''\<rparr>, pir_array_length = 5\<rparr>]"
  by code_simp

end
