(* ===== verification/Rpc_Connect.thy ===== *)
theory Rpc_Connect
  imports Rpc_Stream
begin

text \<open>
  The gRPC controller \<^verbatim>\<open>Connect\<close>: a client stays connected and is pushed the changes of the
  devices. In \<^verbatim>\<open>kWrite\<close> the thread waits on a condition variable for an update; the call is then
  \<open>waiting\<close>, and \<open>Connect_wake\<close> is what it does when it is woken with an update. Whether the client has
  gone does not change while one event is handled.
\<close>

section \<open>The controller\<close>

record connect_call = "(DetailLevel, push_updates) call" +
  waiting :: bool

definition populated_slots :: "service \<Rightarrow> u32 list" where
  "populated_slots sv = map fst (filter (\<lambda>(s, dm). dm \<noteq> None) (dms sv))"

text \<open>\<^verbatim>\<open>shutdownSignal_.emit()\<close>.\<close>

definition emit_shutdown :: "service \<Rightarrow> service" where
  "emit_shutdown sv =
     sv\<lparr>connects_of := (\<lambda>p. if p \<in> set (shutdownSignal sv) then shutdown (connects_of sv p) else connects_of sv p)\<rparr>"

text \<open>
  The work of \<^verbatim>\<open>kProcess\<close>. Only an \<^verbatim>\<open>exception_with_status\<close> is caught, and it comes from the token,
  before the connection is registered.
\<close>

definition Connect_process :: "jwt \<Rightarrow> int \<Rightarrow> service \<Rightarrow> connect_call \<Rightarrow> (service \<times> connect_call) res" where
  "Connect_process decode now sv c =
     (let p = cl_ptr c;
          con = (connects_of sv p)\<lparr>detailLevel := cl_req c\<rparr>;
          sv1 = sv\<lparr>connects_of := (connects_of sv)(p := con)\<rparr>;
          finish = (\<lambda>sv rc. Ret (sv, reply (FinishStatus rc) (c\<lparr>cl_status := kFinish\<rparr>))) in
      case res_bind (jwsToken sv1 (cl_meta c)) (\<lambda>token. initAuthz decode token (authorizationEnabled sv1) con) of
        Throw (ExceptionWithStatus st) \<Rightarrow> finish sv1 st
      | Throw e \<Rightarrow> Throw e
      | Undef \<Rightarrow> Undef
      | Ret con' \<Rightarrow>
          res_bind (registerConnection now (connectionQueue_of sv1) ((connects_of sv1)(p := con')) (Some p)) (\<lambda>(added, q, cs).
          let sv2 = sv1\<lparr>connectionQueue_of := q, connects_of := cs\<rparr> in
          if added then
            Ret (sv2\<lparr>listeners := listeners sv2 @ map (\<lambda>s. (s, p)) (populated_slots sv2)\<rparr>,
                 reply (Write \<lparr>pu_slot = 0, pu_kind = PushSlotsAdded (populated_slots sv2)\<rparr>) (c\<lparr>cl_status := kWrite\<rparr>))
          else finish sv2 RESOURCE_EXHAUSTED))"

definition Connect_finish :: "service \<Rightarrow> connect_call \<Rightarrow> service" where
  "Connect_finish sv c =
     (let p = cl_ptr c;
          sv1 = sv\<lparr>shutdownSignal := removeAll p (shutdownSignal sv),
                   listeners := filter (\<lambda>(s, q). \<not> (q = p \<and> s \<in> set (populated_slots sv))) (listeners sv)\<rparr>;
          sv2 = sv1\<lparr>connectionQueue_of := deregisterConnection (connectionQueue_of sv1) p\<rparr> in
      deregisterItem p sv2)"

definition Connect_proceed :: "jwt \<Rightarrow> int \<Rightarrow> service \<Rightarrow> connect_call \<Rightarrow> bool \<Rightarrow> (service \<times> connect_call) res" where
  "Connect_proceed decode now sv c ok =
     (let stopped = (\<not> ok \<and> cl_status c = kProcess);
          sv0 = (if stopped then emit_shutdown sv else sv);
          c0 = (if stopped then c\<lparr>cl_status := kFinish\<rparr> else c) in
      case cl_status c0 of
        kCreate \<Rightarrow> Ret (sv0\<lparr>listening := listening sv0 @ [(RConnect, cl_ptr c0)]\<rparr>, c0\<lparr>cl_status := kProcess\<rparr>)
      | kProcess \<Rightarrow>
          (let c1 = processTimestamps now c0;
               sv1 = sv0\<lparr>shutdownSignal := shutdownSignal sv0 @ [cl_ptr c0]\<rparr>;
               sv2 = new_call RConnect ok sv1 in
           Connect_process decode now sv2 c1)
      | kWrite \<Rightarrow> Ret (sv0, c0\<lparr>waiting := True\<rparr>)
      | kFinish \<Rightarrow> Ret (Connect_finish sv0 c0, c0)
      | _ \<Rightarrow> Ret (sv0, reply (FinishStatus INTERNAL) (c0\<lparr>cl_status := kFinish\<rparr>)))"

text \<open>The rest of \<^verbatim>\<open>kWrite\<close>, once \<^verbatim>\<open>hasUpdate_\<close> holds. A call whose client has gone ends itself.\<close>

definition Connect_wake :: "int \<Rightarrow> service \<Rightarrow> connect_call \<Rightarrow> (service \<times> connect_call) res" where
  "Connect_wake now sv c =
     (let p = cl_ptr c;
          con = connects_of sv p;
          sv1 = sv\<lparr>connects_of := (connects_of sv)(p := con\<lparr>hasUpdate := False\<rparr>)\<rparr>;
          c1 = c\<lparr>waiting := False, cl_status := (if is_shutdown con \<or> peerGone con then kFinish else kWrite)\<rparr> in
      if peerGone con then Ret (Connect_finish sv1 c1, c1)
      else if is_shutdown con then Ret (sv1, reply (FinishStatus CANCELLED) c1)
      else case cn_authz con of
        None \<Rightarrow> Undef
      | Some a \<Rightarrow>
          if isExpired a now then Ret (sv1, reply (FinishStatus UNAUTHENTICATED) (c1\<lparr>cl_status := kFinish\<rparr>))
          else Ret (sv1, reply (Write (cn_res con)) c1))"

section \<open>The connections of a service\<close>

text \<open>
  The pointers to connections that the service and the devices keep besides the registry, which
  owns them.
\<close>

definition connection_refs :: "service \<Rightarrow> callptr set" where
  "connection_refs sv =
     set (connectionQueue (connectionQueue_of sv)) \<union> snd ` set (listeners sv) \<union> set (shutdownSignal sv)"

type_synonym pool = "callptr \<Rightarrow> connect_call option"

text \<open>What other controllers and the devices do in between leaves the bookkeeping alone.\<close>

definition elsewhere :: "pool \<Rightarrow> service \<Rightarrow> service \<Rightarrow> bool" where
  "elsewhere pl sv sv' \<longleftrightarrow>
     service_ok sv' \<and> connectionQueue_of sv' = connectionQueue_of sv \<and> listeners sv' = listeners sv
     \<and> shutdownSignal sv' = shutdownSignal sv \<and> map fst (dms sv') = map fst (dms sv)
     \<and> populated_slots sv' = populated_slots sv
     \<and> (\<forall>p c. pl p = Some c \<longrightarrow> p \<in> set (registry sv') \<and> p \<notin> snd ` set (listening sv'))
     \<and> (\<forall>p. (RConnect, p) \<in> set (listening sv') \<longrightarrow> pl p = None)"

definition fresh_connect :: "callptr \<Rightarrow> DetailLevel \<Rightarrow> (string \<times> string) list \<Rightarrow> connect_call" where
  "fresh_connect p dl meta =
     \<lparr>cl_ptr = p, cl_status = kProcess, cl_req = dl, cl_meta = meta, requestStart = 0, requestReceived = 0, cl_out = [],
      waiting = False\<rparr>"

text \<open>A call that has left the registry is gone.\<close>

definition keep_call :: "service \<Rightarrow> connect_call \<Rightarrow> pool \<Rightarrow> pool" where
  "keep_call sv c pl = pl(cl_ptr c := (if cl_ptr c \<in> set (registry sv) then Some c else None))"

inductive connect_step :: "service \<times> pool \<Rightarrow> service \<times> pool \<Rightarrow> bool" where
  accept: "(RConnect, p) \<in> set (listening sv) \<Longrightarrow>
     connect_step (sv, pl) (sv\<lparr>listening := filter (\<lambda>l. snd l \<noteq> p) (listening sv)\<rparr>, pl(p := Some (fresh_connect p dl meta)))"
| event: "pl p = Some c \<Longrightarrow> \<not> waiting c \<Longrightarrow> Connect_proceed decode now sv c ok = Ret (sv', c') \<Longrightarrow>
     connect_step (sv, pl) (sv', keep_call sv' c' pl)"
| woken: "pl p = Some c \<Longrightarrow> waiting c \<Longrightarrow> hasUpdate (connects_of sv p) \<Longrightarrow> Connect_wake now sv c = Ret (sv', c') \<Longrightarrow>
     connect_step (sv, pl) (sv', keep_call sv' c' pl)"
| other: "elsewhere pl sv sv' \<Longrightarrow> connect_step (sv, pl) (sv', pl)"

inductive_cases connect_stepE: "connect_step s t"

definition call_ok :: "service \<Rightarrow> callptr \<Rightarrow> connect_call \<Rightarrow> bool" where
  "call_ok sv p c \<longleftrightarrow>
     cl_ptr c = p \<and> p \<in> set (registry sv) \<and> p \<notin> snd ` set (listening sv)
     \<and> cl_status c \<in> {kProcess, kWrite, kFinish} \<and> (cl_status c = kProcess \<longrightarrow> p \<notin> connection_refs sv)"

definition pool_ok :: "service \<Rightarrow> pool \<Rightarrow> bool" where
  "pool_ok sv pl \<longleftrightarrow>
     service_ok sv \<and> distinct (map fst (dms sv)) \<and> fst ` set (listeners sv) \<subseteq> set (populated_slots sv)
     \<and> (\<forall>p \<in> connection_refs sv. pl p \<noteq> None)
     \<and> (\<forall>p c. pl p = Some c \<longrightarrow> call_ok sv p c)
     \<and> (\<forall>p. (RConnect, p) \<in> set (listening sv) \<longrightarrow> pl p = None)"

lemma pool_okI:
  assumes "service_ok sv" "distinct (map fst (dms sv))" "fst ` set (listeners sv) \<subseteq> set (populated_slots sv)"
    and "\<And>p. p \<in> connection_refs sv \<Longrightarrow> pl p \<noteq> None" "\<And>p c. pl p = Some c \<Longrightarrow> call_ok sv p c"
    and "\<And>p. (RConnect, p) \<in> set (listening sv) \<Longrightarrow> pl p = None"
  shows "pool_ok sv pl"
  using assms unfolding pool_ok_def by blast

lemma call_ok_mono:
  "call_ok sv p c \<Longrightarrow> set (registry sv) \<subseteq> set (registry sv') \<Longrightarrow> p \<notin> snd ` set (listening sv') \<Longrightarrow>
     (p \<in> connection_refs sv' \<Longrightarrow> p \<in> connection_refs sv) \<Longrightarrow> call_ok sv' p c"
  by (auto simp: call_ok_def)

lemma refs_in_registry: "pool_ok sv pl \<Longrightarrow> connection_refs sv \<subseteq> set (registry sv)"
  unfolding pool_ok_def call_ok_def by (auto; fastforce)

text \<open>An event that changes neither the registry nor the references, and moves one call on.\<close>

lemma pool_ok_move:
  assumes "pool_ok sv pl" "pl p = Some c" "service_ok sv'" "map fst (dms sv') = map fst (dms sv)"
    and "populated_slots sv' = populated_slots sv" "listeners sv' = listeners sv" "connection_refs sv' = connection_refs sv"
    and "registry sv' = registry sv" "listening sv' = listening sv"
    and "cl_ptr c' = p" "cl_status c' \<in> {kWrite, kFinish}"
  shows "pool_ok sv' (keep_call sv' c' pl)"
proof -
  from assms(1,2) have "p \<in> set (registry sv)" "p \<notin> snd ` set (listening sv)" by (auto simp: pool_ok_def call_ok_def)
  with assms show ?thesis by (auto simp: pool_ok_def call_ok_def keep_call_def image_iff)
qed

lemma populated_slots_simps [simp]:
  "populated_slots (sv\<lparr>connects_of := cs\<rparr>) = populated_slots sv" "populated_slots (sv\<lparr>listening := l\<rparr>) = populated_slots sv"
  "populated_slots (sv\<lparr>registry := rg\<rparr>) = populated_slots sv" "populated_slots (new_call r True sv) = populated_slots sv"
  "populated_slots (sv\<lparr>connectionQueue_of := q\<rparr>) = populated_slots sv" "populated_slots (sv\<lparr>listeners := ls\<rparr>) = populated_slots sv"
  "populated_slots (sv\<lparr>shutdownSignal := ps\<rparr>) = populated_slots sv"
  by (simp_all add: populated_slots_def)

lemma Connect_finish_simps:
  "registry (Connect_finish sv c) = remove1 (cl_ptr c) (registry sv)" "dms (Connect_finish sv c) = dms sv"
  "listening (Connect_finish sv c) = listening sv" "next_ptr (Connect_finish sv c) = next_ptr sv"
  "connects_of (Connect_finish sv c) = connects_of sv"
  "connectionQueue_of (Connect_finish sv c) = deregisterConnection (connectionQueue_of sv) (cl_ptr c)"
  "listeners (Connect_finish sv c) = filter (\<lambda>(s, q). \<not> (q = cl_ptr c \<and> s \<in> set (populated_slots sv))) (listeners sv)"
  "shutdownSignal (Connect_finish sv c) = removeAll (cl_ptr c) (shutdownSignal sv)"
  by (simp_all add: Connect_finish_def deregisterItem_def Let_def)

lemma Connect_finish_ok:
  assumes "service_ok sv" "cl_ptr c \<notin> snd ` set (listening sv)"
  shows "service_ok (Connect_finish sv c)"
proof -
  have "set (connectionQueue (deregisterConnection q p)) \<subseteq> set (connectionQueue q)" for q p
    by (simp add: deregisterConnection_def set_remove1_subset)
  then show ?thesis
    using assms deregister_ok [of "connectionQueue_of sv" "connects_of sv" "cl_ptr c"]
    by (auto simp: service_ok_def connections_ok_def registry_ok_def Connect_finish_simps image_iff) blast+
qed

lemma Connect_finish_refs:
  assumes "pool_ok sv pl"
  shows "connection_refs (Connect_finish sv c) = connection_refs sv - {cl_ptr c}"
proof -
  have "distinct (connectionQueue (connectionQueue_of sv))" "fst ` set (listeners sv) \<subseteq> set (populated_slots sv)"
    using assms by (auto simp: pool_ok_def service_ok_def connections_ok_def queue_ok_def)
  then show ?thesis
    by (force simp: connection_refs_def Connect_finish_simps deregisterConnection_def)
qed

lemma pool_ok_finish:
  assumes "pool_ok sv pl" "pl p = Some c" "cl_ptr c' = p"
  shows "pool_ok (Connect_finish sv c') (keep_call (Connect_finish sv c') c' pl)"
proof -
  let ?sv = "Connect_finish sv c'"
  from assms have p: "p \<in> set (registry sv)" "p \<notin> snd ` set (listening sv)" and reg: "distinct (registry sv)"
    by (auto simp: pool_ok_def call_ok_def service_ok_def registry_ok_def)
  have ok: "service_ok ?sv" using assms(1,3) p(2) by (intro Connect_finish_ok) (auto simp: pool_ok_def)
  have refs: "connection_refs ?sv = connection_refs sv - {p}" using Connect_finish_refs [OF assms(1), of c'] assms(3) by simp
  have "fst ` set (listeners ?sv) \<subseteq> fst ` set (listeners sv)" "populated_slots ?sv = populated_slots sv" "dms ?sv = dms sv"
    by (auto simp: Connect_finish_simps populated_slots_def)
  moreover have "registry ?sv = remove1 p (registry sv)" "listening ?sv = listening sv"
    using assms(3) by (simp_all add: Connect_finish_simps)
  ultimately show ?thesis
    using assms ok refs reg by (auto simp: pool_ok_def call_ok_def keep_call_def)
qed

lemma initAuthz_keeps: "initAuthz decode token authz c = Ret c' \<Longrightarrow> cn_authz c' \<noteq> None"
  by (auto simp: initAuthz_def res_simps split: if_splits)

text \<open>Changing a connection nobody refers to.\<close>

lemma queue_ok_upd: "p \<notin> set (connectionQueue q) \<Longrightarrow> queue_ok q (cs(p := con)) = queue_ok q cs"
  by (rule queue_ok_cong) auto

lemma set_unreferenced:
  assumes "service_ok sv" "p \<notin> set (connectionQueue (connectionQueue_of sv))" "p \<notin> snd ` set (listeners sv)"
  shows "service_ok (sv\<lparr>connects_of := (connects_of sv)(p := con)\<rparr>)"
  using assms queue_ok_upd [OF assms(2)]
  by (fastforce simp: service_ok_def connections_ok_def registry_ok_def image_iff)

lemma register_service_ok:
  assumes "service_ok sv" "p \<notin> set (connectionQueue (connectionQueue_of sv))" "p < next_ptr sv"
    and "registerConnection now (connectionQueue_of sv) (connects_of sv) (Some p) = Ret (added, q, cs)"
  shows "service_ok (sv\<lparr>connectionQueue_of := q, connects_of := cs\<rparr>)" "cn_authz (cs x) = cn_authz (connects_of sv x)"
    "set (connectionQueue q) \<subseteq> insert p (set (connectionQueue (connectionQueue_of sv)))" "added \<longleftrightarrow> p \<in> set (connectionQueue q)"
    "maxConnections q = maxConnections (connectionQueue_of sv)"
proof -
  from assms(1) have ok: "queue_ok (connectionQueue_of sv) (connects_of sv)" by (simp add: service_ok_def connections_ok_def)
  note r = register_ok [OF ok assms(2,4)]
  show authz: "cn_authz (cs x) = cn_authz (connects_of sv x)" for x by (simp add: r(5) shutdown_def)
  show sub: "set (connectionQueue q) \<subseteq> insert p (set (connectionQueue (connectionQueue_of sv)))"
    using admitted_ok(4) [OF ok assms(2)] r(3) by simp
  show "added \<longleftrightarrow> p \<in> set (connectionQueue q)" "maxConnections q = maxConnections (connectionQueue_of sv)" by (rule r(4), rule r(2))
  show "service_ok (sv\<lparr>connectionQueue_of := q, connects_of := cs\<rparr>)"
    using assms(1,3) r(1) sub authz by (fastforce simp: service_ok_def connections_ok_def registry_ok_def)
qed

lemma attach_ok:
  assumes "service_ok sv" "distinct (map fst (dms sv))" "p \<notin> snd ` set (listeners sv)" "p < next_ptr sv"
    and "cn_authz (connects_of sv p) \<noteq> None"
  shows "service_ok (sv\<lparr>listeners := listeners sv @ map (\<lambda>s. (s, p)) (populated_slots sv)\<rparr>)"
proof -
  have "distinct (populated_slots sv)" using assms(2) by (simp add: populated_slots_def distinct_map_filter)
  then have "distinct (map (\<lambda>s. (s, p)) (populated_slots sv))" by (simp add: distinct_map inj_on_def)
  with assms show ?thesis
    by (auto simp: service_ok_def connections_ok_def registry_ok_def image_iff)
qed

lemma Connect_process_ok:
  assumes "service_ok sv" "distinct (map fst (dms sv))" "p = cl_ptr c" "p < next_ptr sv"
    and new: "p \<notin> set (connectionQueue (connectionQueue_of sv))" "p \<notin> snd ` set (listeners sv)"
    and run: "Connect_process decode now sv c = Ret (sv', c')"
  shows "service_ok sv' \<and> cl_ptr c' = p \<and> dms sv' = dms sv \<and> registry sv' = registry sv \<and> listening sv' = listening sv
     \<and> shutdownSignal sv' = shutdownSignal sv
     \<and> (if p \<in> set (connectionQueue (connectionQueue_of sv'))
        then cl_status c' = kWrite \<and> listeners sv' = listeners sv @ map (\<lambda>s. (s, p)) (populated_slots sv)
           \<and> cl_out c' = cl_out c @ [Write \<lparr>pu_slot = 0, pu_kind = PushSlotsAdded (populated_slots sv)\<rparr>]
        else cl_status c' = kFinish \<and> listeners sv' = listeners sv \<and> (\<exists>rc. cl_out c' = cl_out c @ [FinishStatus rc]))
     \<and> set (connectionQueue (connectionQueue_of sv')) \<subseteq> insert p (set (connectionQueue (connectionQueue_of sv)))
     \<and> maxConnections (connectionQueue_of sv') = maxConnections (connectionQueue_of sv)"
proof -
  let ?con = "(connects_of sv p)\<lparr>detailLevel := cl_req c\<rparr>"
  let ?sv1 = "sv\<lparr>connects_of := (connects_of sv)(p := ?con)\<rparr>"
  let ?init = "res_bind (jwsToken ?sv1 (cl_meta c)) (\<lambda>token. initAuthz decode token (authorizationEnabled ?sv1) ?con)"
  have ok1: "service_ok ?sv1" by (rule set_unreferenced [OF assms(1) new])
  show ?thesis
  proof (cases ?init)
    case (Throw e)
    with run assms(3) obtain st where
      "sv' = ?sv1" "c' = reply (FinishStatus st) (c\<lparr>cl_status := kFinish\<rparr>)"
      by (cases e) (auto simp: Connect_process_def Let_def)
    with ok1 assms(3) new(1) show ?thesis by auto
  next
    case (Ret con')
    then have authz: "cn_authz con' \<noteq> None" using initAuthz_keeps by (auto simp: res_simps)
    let ?sv2 = "sv\<lparr>connects_of := (connects_of sv)(p := con')\<rparr>"
    have ok2: "service_ok ?sv2" by (rule set_unreferenced [OF assms(1) new])
    from run Ret assms(3) obtain added q cs where
      r: "registerConnection now (connectionQueue_of sv) ((connects_of sv)(p := con')) (Some p) = Ret (added, q, cs)"
      and res: "(if added then
            Ret (sv\<lparr>connectionQueue_of := q, connects_of := cs, listeners := listeners sv @ map (\<lambda>s. (s, p)) (populated_slots sv)\<rparr>,
                 reply (Write \<lparr>pu_slot = 0, pu_kind = PushSlotsAdded (populated_slots sv)\<rparr>) (c\<lparr>cl_status := kWrite\<rparr>))
          else Ret (sv\<lparr>connectionQueue_of := q, connects_of := cs\<rparr>, reply (FinishStatus RESOURCE_EXHAUSTED) (c\<lparr>cl_status := kFinish\<rparr>)))
          = Ret (sv', c')"
      by (auto simp: Connect_process_def Let_def res_simps cong: if_cong)
    have r2: "registerConnection now (connectionQueue_of ?sv2) (connects_of ?sv2) (Some p) = Ret (added, q, cs)" using r by simp
    note reg = register_service_ok [OF ok2 _ _ r2]
    have ok3: "service_ok (sv\<lparr>connectionQueue_of := q, connects_of := cs\<rparr>)" using reg(1) new assms(4) by simp
    have "service_ok (sv\<lparr>connectionQueue_of := q, connects_of := cs, listeners := listeners sv @ map (\<lambda>s. (s, p)) (populated_slots sv)\<rparr>)"
      using attach_ok [OF ok3, of p] assms(2,4) new(2) authz reg(2) [of p] new(1) by (simp add: populated_slots_def)
    with res ok3 assms(3) reg(3,4,5) new assms(4) show ?thesis by (auto split: if_splits)
  qed (use run in \<open>simp add: Connect_process_def Let_def assms(3)\<close>)
qed

lemma pool_ok_process:
  assumes "pool_ok sv pl" "pl p = Some c" "cl_status c = kProcess"
    and run: "Connect_proceed decode now sv c True = Ret (sv', c')"
  shows "pool_ok sv' (keep_call sv' c' pl)"
proof -
  let ?sv1 = "sv\<lparr>shutdownSignal := shutdownSignal sv @ [p]\<rparr>"
  let ?sv2 = "new_call RConnect True ?sv1"
  from assms(1,2) have c: "cl_ptr c = p" "p \<in> set (registry sv)" "p \<notin> snd ` set (listening sv)" "p \<notin> connection_refs sv"
    and ok: "service_ok sv" "distinct (map fst (dms sv))" "fst ` set (listeners sv) \<subseteq> set (populated_slots sv)"
    using assms(3) by (auto simp: pool_ok_def call_ok_def)
  have slots: "populated_slots ?sv2 = populated_slots sv" by (simp add: populated_slots_def)
  from ok(1) c(2) have lt: "p < next_ptr sv" "next_ptr sv \<notin> set (registry sv)" by (auto simp: service_ok_def registry_ok_def)
  have unref: "p \<notin> set (connectionQueue (connectionQueue_of sv))" "p \<notin> snd ` set (listeners sv)"
    using c(4) by (simp_all add: connection_refs_def)
  have ok2: "service_ok ?sv2"
    using ok(1) by (intro new_call_ok) (simp add: service_ok_def connections_ok_def registry_ok_def)
  have "distinct (map fst (dms ?sv2))" "p = cl_ptr (processTimestamps now c)" "p < next_ptr ?sv2"
    "p \<notin> set (connectionQueue (connectionQueue_of ?sv2))" "p \<notin> snd ` set (listeners ?sv2)"
    "Connect_process decode now ?sv2 (processTimestamps now c) = Ret (sv', c')"
    using ok(2) c(1) lt unref run assms(3) by (simp_all add: Connect_proceed_def new_call_def registerItem_def Let_def)
  note pr = Connect_process_ok [OF ok2 this]
  from pr have r: "service_ok sv'" "cl_ptr c' = p" "dms sv' = dms sv" "registry sv' = registry sv @ [next_ptr sv]"
      "listening sv' = listening sv @ [(RConnect, next_ptr sv)]" "shutdownSignal sv' = shutdownSignal sv @ [p]"
      "set (connectionQueue (connectionQueue_of sv')) \<subseteq> insert p (set (connectionQueue (connectionQueue_of sv)))"
    by simp_all
  from pr slots have s: "cl_status c' \<in> {kWrite, kFinish}"
      "set (listeners sv') \<subseteq> set (listeners sv) \<union> (\<lambda>s. (s, p)) ` set (populated_slots sv)"
    by (cases "p \<in> set (connectionQueue (connectionQueue_of sv'))"; simp)+
  have refs: "connection_refs sv' \<subseteq> insert p (connection_refs sv)"
  proof -
    have "snd ` set (listeners sv') \<subseteq> insert p (snd ` set (listeners sv))" using s(2) by auto
    with r(6,7) show ?thesis by (auto simp: connection_refs_def)
  qed
  have "pl q = None" if "q \<notin> set (registry sv)" for q
    using assms(1) that by (cases "pl q") (auto simp: pool_ok_def call_ok_def)
  with lt(2) have fresh: "pl (next_ptr sv) = None" by blast
  then have "next_ptr sv \<notin> connection_refs sv" using assms(1) by (auto simp: pool_ok_def)
  have slots': "populated_slots sv' = populated_slots sv" using r(3) by (simp add: populated_slots_def)
  have in': "p \<in> set (registry sv')" "p \<notin> snd ` set (listening sv')" using r(4,5) c(2,3) lt by auto
  show ?thesis
  proof (rule pool_okI)
    show "fst ` set (listeners sv') \<subseteq> set (populated_slots sv')" using s(2) ok(3) slots' by fastforce
    show "keep_call sv' c' pl q \<noteq> None" if "q \<in> connection_refs sv'" for q
      using that refs assms(1) r(2) in'(1) by (auto simp: keep_call_def pool_ok_def)
    show "keep_call sv' c' pl q = None" if "(RConnect, q) \<in> set (listening sv')" for q
      using that in'(2) r(2,5) fresh assms(1) by (auto simp: keep_call_def pool_ok_def image_iff)
    show "call_ok sv' q d" if d: "keep_call sv' c' pl q = Some d" for q d
    proof (cases "q = p")
      case True
      with d r(2) s(1) in' show ?thesis by (auto simp: keep_call_def call_ok_def)
    next
      case False
      with d r(2) assms(1) have q: "call_ok sv q d" by (auto simp: keep_call_def pool_ok_def)
      moreover from q r(5) lt(2) have "q \<notin> snd ` set (listening sv')" by (auto simp: call_ok_def)
      ultimately show ?thesis using r(4) refs False by (intro call_ok_mono [OF q]) auto
    qed
  qed (use r ok in simp_all)
qed

lemma service_ok_flags:
  assumes "service_ok sv" "\<And>q. rank (cs q) = rank (connects_of sv q)" "\<And>q. cn_authz (cs q) = cn_authz (connects_of sv q)"
  shows "service_ok (sv\<lparr>connects_of := cs\<rparr>)"
proof -
  have "only_connects sv (sv\<lparr>connects_of := cs\<rparr>)" using assms(2,3) unfolding only_connects_def by blast
  from only_connects_ok [OF this] assms(1) show ?thesis by simp
qed

lemma connection_refs_connects [simp]: "connection_refs (sv\<lparr>connects_of := cs\<rparr>) = connection_refs sv"
  by (simp add: connection_refs_def)

lemma pool_ok_connects:
  "pool_ok sv pl \<Longrightarrow> service_ok (sv\<lparr>connects_of := cs\<rparr>) \<Longrightarrow> pool_ok (sv\<lparr>connects_of := cs\<rparr>) pl"
  by (auto simp: pool_ok_def call_ok_def)

lemma emit_shutdown_ok: "pool_ok sv pl \<Longrightarrow> pool_ok (emit_shutdown sv) pl"
  unfolding emit_shutdown_def
  by (intro pool_ok_connects service_ok_flags) (auto simp: pool_ok_def shutdown_def rank_def)

lemma pool_ok_event:
  assumes "pool_ok sv pl" "pl p = Some c" "Connect_proceed decode now sv c ok = Ret (sv', c')"
  shows "pool_ok sv' (keep_call sv' c' pl)"
proof -
  from assms(1,2) have c: "cl_ptr c = p" "cl_status c \<in> {kProcess, kWrite, kFinish}" by (auto simp: pool_ok_def call_ok_def)
  consider "cl_status c = kProcess" "ok" | "cl_status c = kProcess" "\<not> ok" | "cl_status c = kWrite" | "cl_status c = kFinish"
    using c(2) by auto
  then show ?thesis
  proof cases
    case 1
    with pool_ok_process [OF assms(1,2)] assms(3) show ?thesis by simp
  next
    case 2
    with assms(3) have "sv' = Connect_finish (emit_shutdown sv) (c\<lparr>cl_status := kFinish\<rparr>)" "c' = c\<lparr>cl_status := kFinish\<rparr>"
      by (auto simp: Connect_proceed_def Let_def)
    with pool_ok_finish [OF emit_shutdown_ok [OF assms(1)] assms(2)] c(1) show ?thesis by simp
  next
    case 3
    with assms(3) have "sv' = sv" "c' = c\<lparr>waiting := True\<rparr>" by (auto simp: Connect_proceed_def)
    with pool_ok_move [OF assms(1,2), of sv c'] assms(1) c(1) 3 show ?thesis by (auto simp: pool_ok_def)
  next
    case 4
    with assms(3) have "sv' = Connect_finish sv c" "c' = c" by (auto simp: Connect_proceed_def)
    with pool_ok_finish [OF assms(1,2) c(1)] show ?thesis by simp
  qed
qed

lemma pool_ok_woken:
  assumes "pool_ok sv pl" "pl p = Some c" "Connect_wake now sv c = Ret (sv', c')"
  shows "pool_ok sv' (keep_call sv' c' pl)"
proof -
  from assms(1,2) have c: "cl_ptr c = p" and ok: "service_ok sv" by (auto simp: pool_ok_def call_ok_def)
  let ?sv1 = "sv\<lparr>connects_of := (connects_of sv)(p := (connects_of sv p)\<lparr>hasUpdate := False\<rparr>)\<rparr>"
  have ok1: "service_ok ?sv1" by (rule service_ok_flags [OF ok]) (auto simp: rank_def)
  then have pool1: "pool_ok ?sv1 pl" by (rule pool_ok_connects [OF assms(1)])
  show ?thesis
  proof (cases "peerGone (connects_of sv p)")
    case True
    with assms(3) c have "sv' = Connect_finish ?sv1 c'" "cl_ptr c' = p" by (auto simp: Connect_wake_def Let_def)
    with pool_ok_finish [OF pool1 assms(2), of c'] show ?thesis by simp
  next
    case False
    with assms(3) c have "sv' = ?sv1" "cl_ptr c' = p" "cl_status c' \<in> {kWrite, kFinish}"
      by (auto simp: Connect_wake_def Let_def split: if_splits option.splits)
    with pool_ok_move [OF pool1 assms(2) ok1, of c'] show ?thesis by simp
  qed
qed

lemma pool_ok_accept:
  assumes "pool_ok sv pl" "(RConnect, p) \<in> set (listening sv)"
  shows "pool_ok (sv\<lparr>listening := filter (\<lambda>l. snd l \<noteq> p) (listening sv)\<rparr>) (pl(p := Some (fresh_connect p dl meta)))"
proof -
  let ?sv = "sv\<lparr>listening := filter (\<lambda>l. snd l \<noteq> p) (listening sv)\<rparr>"
  from assms have p: "pl p = None" "p \<in> set (registry sv)" "p \<notin> connection_refs sv"
    by (auto simp: pool_ok_def service_ok_def registry_ok_def)
  have "service_ok ?sv" using assms(1)
    by (auto simp: pool_ok_def service_ok_def connections_ok_def registry_ok_def distinct_map_filter)
  moreover have "connection_refs ?sv = connection_refs sv" by (simp add: connection_refs_def)
  moreover have "call_ok ?sv q c" if "(pl(p := Some (fresh_connect p dl meta))) q = Some c" for q c
  proof (cases "q = p")
    case True
    with that p \<open>connection_refs ?sv = connection_refs sv\<close> show ?thesis by (auto simp: call_ok_def fresh_connect_def)
  next
    case False
    with that assms(1) have "call_ok sv q c" by (auto simp: pool_ok_def)
    with \<open>connection_refs ?sv = connection_refs sv\<close> show ?thesis by (auto simp: call_ok_def)
  qed
  ultimately show ?thesis
    using assms p by (intro pool_okI) (auto simp: pool_ok_def)
qed

lemma connect_step_ok: "connect_step s t \<Longrightarrow> pool_ok (fst s) (snd s) \<Longrightarrow> pool_ok (fst t) (snd t)"
proof (induction rule: connect_step.induct)
  case (accept p sv pl dl meta)
  then show ?case using pool_ok_accept [of sv pl p dl meta] by (simp del: fun_upd_apply)
next
  case (event pl p c decode now sv ok sv' c')
  then show ?case using pool_ok_event by simp
next
  case (woken pl p c sv now sv' c')
  then show ?case using pool_ok_woken by simp
next
  case (other pl sv sv')
  then have "connection_refs sv' = connection_refs sv" by (simp add: elsewhere_def connection_refs_def)
  with other show ?case by (simp add: elsewhere_def pool_ok_def call_ok_def)
qed

lemma connect_steps_ok: "connect_step\<^sup>*\<^sup>* s t \<Longrightarrow> pool_ok (fst s) (snd s) \<Longrightarrow> pool_ok (fst t) (snd t)"
  by (induction rule: rtranclp_induct) (auto dest: connect_step_ok)

lemma connect_process_limit:
  assumes "pool_ok sv pl" "pl p = Some c" "cl_status c = kProcess" "Connect_proceed decode now sv c True = Ret (sv', c')"
  shows "maxConnections (connectionQueue_of sv') = maxConnections (connectionQueue_of sv)"
proof -
  let ?sv2 = "new_call RConnect True (sv\<lparr>shutdownSignal := shutdownSignal sv @ [p]\<rparr>)"
  from assms(1-3) have c: "cl_ptr c = p" "p \<in> set (registry sv)" "p \<notin> connection_refs sv" "service_ok sv" "distinct (map fst (dms sv))"
    by (auto simp: pool_ok_def call_ok_def)
  then have lt: "p < next_ptr sv" by (auto simp: service_ok_def registry_ok_def)
  have ok2: "service_ok ?sv2"
    using c(4) by (intro new_call_ok) (simp add: service_ok_def connections_ok_def registry_ok_def)
  from lt c assms(3,4) have "distinct (map fst (dms ?sv2))" "p = cl_ptr (processTimestamps now c)" "p < next_ptr ?sv2"
    "p \<notin> set (connectionQueue (connectionQueue_of ?sv2))" "p \<notin> snd ` set (listeners ?sv2)"
    "Connect_process decode now ?sv2 (processTimestamps now c) = Ret (sv', c')"
    by (simp_all add: Connect_proceed_def new_call_def registerItem_def connection_refs_def Let_def)
  from Connect_process_ok [OF ok2 this] show ?thesis by simp
qed

lemma connect_step_limit:
  "connect_step s t \<Longrightarrow> pool_ok (fst s) (snd s) \<Longrightarrow>
     maxConnections (connectionQueue_of (fst t)) = maxConnections (connectionQueue_of (fst s))"
proof (induction rule: connect_step.induct)
  case (event pl p c decode now sv ok sv' c')
  from event(1,4) have "cl_status c \<in> {kProcess, kWrite, kFinish}" by (auto simp: pool_ok_def call_ok_def)
  then consider "cl_status c = kProcess" "ok" | "cl_status c = kProcess" "\<not> ok" | "cl_status c = kWrite" | "cl_status c = kFinish"
    by auto
  then show ?case
  proof cases
    case 1
    with event connect_process_limit [of sv pl p c decode now sv' c'] show ?thesis by simp
  next
    case 2
    with event(3) have "sv' = Connect_finish (emit_shutdown sv) (c\<lparr>cl_status := kFinish\<rparr>)"
      by (auto simp: Connect_proceed_def Let_def)
    then show ?thesis by (simp add: Connect_finish_simps emit_shutdown_def deregisterConnection_def)
  next
    case 3
    with event(3) show ?thesis by (auto simp: Connect_proceed_def)
  next
    case 4
    with event(3) have "sv' = Connect_finish sv c" by (auto simp: Connect_proceed_def)
    then show ?thesis by (simp add: Connect_finish_simps deregisterConnection_def)
  qed
next
  case (woken pl p c sv now sv' c')
  then show ?case
    by (auto simp: Connect_wake_def Let_def Connect_finish_simps deregisterConnection_def split: if_splits option.splits)
qed (simp_all add: elsewhere_def)

lemma connect_steps_limit:
  "connect_step\<^sup>*\<^sup>* s t \<Longrightarrow> pool_ok (fst s) (snd s) \<Longrightarrow>
     maxConnections (connectionQueue_of (fst t)) = maxConnections (connectionQueue_of (fst s))"
  by (induction rule: rtranclp_induct) (auto dest: connect_step_limit connect_steps_ok)

section \<open>The service at the start\<close>

lemma add_devices_ok:
  "add_devices ds m = Ret m' \<Longrightarrow> list_all device_ok ds \<Longrightarrow> distinct (map fst m) \<Longrightarrow>
     (\<forall>(s, d) \<in> set m. \<exists>dm. d = Some dm \<and> slot dm = s \<and> device_ok dm) \<Longrightarrow>
     distinct (map fst m') \<and> (\<forall>(s, d) \<in> set m'. \<exists>dm. d = Some dm \<and> slot dm = s \<and> device_ok dm)"
proof (induction ds arbitrary: m)
  case (Cons dm ds)
  from Cons.prems(1) have "slot dm \<notin> set (map fst m)" "add_devices ds (m @ [(slot dm, Some dm)]) = Ret m'"
    by (auto simp: map_of_eq_None_iff split: if_splits)
  with Cons.IH [of "m @ [(slot dm, Some dm)]"] Cons.prems show ?case by auto
qed simp

lemma new_call_fresh:
  assumes "pool_ok sv Map.empty"
  shows "pool_ok (new_call r True sv) Map.empty"
proof -
  have "connection_refs (new_call r True sv) = connection_refs sv" by (simp add: connection_refs_def)
  with assms new_call_ok show ?thesis by (auto simp: pool_ok_def)
qed

lemma init_pool_ok:
  assumes "ServiceImpl True ds eo authz n = Ret sv" "list_all device_ok ds"
  shows "pool_ok (init_service sv) Map.empty" "maxConnections (connectionQueue_of (init_service sv)) = n"
proof -
  from assms(1) obtain m where m: "add_devices ds [] = Ret m" and
    sv: "dms sv = m" "connectionQueue_of sv = ConnectionQueue n" "registry sv = []" "listening sv = []" "listeners sv = []"
      "shutdownSignal sv = []"
    by (auto simp: ServiceImpl_def res_simps)
  from add_devices_ok [OF m assms(2)] have d: "distinct (map fst m)"
    "\<And>s d. (s, d) \<in> set m \<Longrightarrow> \<exists>dm. d = Some dm \<and> slot dm = s \<and> device_ok dm" by auto
  have "slots_ok m"
    using d(2) by (fastforce simp: slots_ok_def device_at_def split: option.splits dest!: map_of_SomeD)
  with sv d(1) have "pool_ok sv Map.empty"
    by (simp add: pool_ok_def service_ok_def connections_ok_def registry_ok_def queue_ok_def ConnectionQueue_def connection_refs_def)
  moreover have "pool_ok s Map.empty \<Longrightarrow> pool_ok (fold (\<lambda>r. new_call r True) rs s) Map.empty" for rs s
    by (induction rs arbitrary: s) (auto intro: new_call_fresh)
  ultimately show "pool_ok (init_service sv) Map.empty" unfolding init_service_def by blast
  show "maxConnections (connectionQueue_of (init_service sv)) = n"
    using sv(2) by (simp add: init_service_def ConnectionQueue_def)
qed

section \<open>Properties\<close>

text \<open>
  C7: from the start of the service on, however clients connect, leave, are evicted or expire and
  whatever happens to the devices meanwhile, every pointer to a connection that the queue, the
  signals of a device or the shutdown signal hold belongs to a registered call, so none dangles;
  at most the configured number of connections is in the queue, and every connection attached to
  a device has an authorizer.
\<close>

theorem connections_never_dangle:
  assumes "ServiceImpl True ds eo authz n = Ret s0" "list_all device_ok ds"
    and "connect_step\<^sup>*\<^sup>* (init_service s0, Map.empty) (sv, pl)"
  shows "connection_refs sv \<subseteq> set (registry sv)
     \<and> length (connectionQueue (connectionQueue_of sv)) \<le> unat n
     \<and> (\<forall>(s, p) \<in> set (listeners sv). cn_authz (connects_of sv p) \<noteq> None \<and> s \<in> set (populated_slots sv))"
proof -
  have ok: "pool_ok sv pl" using connect_steps_ok [OF assms(3)] init_pool_ok(1) [OF assms(1,2)] by simp
  moreover have "maxConnections (connectionQueue_of sv) = n"
    using connect_steps_limit [OF assms(3)] init_pool_ok [OF assms(1,2)] by simp
  ultimately show ?thesis
    using refs_in_registry [OF ok]
    by (auto simp: pool_ok_def service_ok_def connections_ok_def queue_ok_def)
qed

definition ex_started :: service where
  "ex_started = (case ServiceImpl True [ex_device] [] False 2 of Ret sv \<Rightarrow> init_service sv)"

definition ex_connect_call :: connect_call where
  "ex_connect_call = fresh_connect 4 FULL []"

definition ex_accepted :: service where
  "ex_accepted = ex_started\<lparr>listening := filter (\<lambda>l. snd l \<noteq> 4) (listening ex_started)\<rparr>"

lemma ex_accept: "connect_step (ex_started, Map.empty) (ex_accepted, [4 \<mapsto> ex_connect_call])"
proof -
  have "(RConnect, 4) \<in> set (listening ex_started)" by code_simp
  from connect_step.accept [OF this] show ?thesis unfolding ex_accepted_def ex_connect_call_def .
qed

theorem connections_never_dangle_witness:
  "\<exists>s0 sv pl. ServiceImpl True [ex_device] [] False 2 = Ret s0 \<and> connect_step\<^sup>*\<^sup>* (init_service s0, Map.empty) (sv, pl)
     \<and> connectionQueue (connectionQueue_of sv) = [4] \<and> listeners sv = [(1, 4)] \<and> connection_refs sv \<subseteq> set (registry sv)"
proof -
  let ?run = "Connect_proceed (\<lambda>_. None) 0 ex_accepted ex_connect_call True"
  have "case ServiceImpl True [ex_device] [] False 2 of Ret sv \<Rightarrow> True | _ \<Rightarrow> False" by code_simp
  then obtain s0 where s0: "ServiceImpl True [ex_device] [] False 2 = Ret s0" by (auto split: res.splits)
  then have started: "init_service s0 = ex_started" by (simp add: ex_started_def)
  have "case ?run of Ret (sv, c) \<Rightarrow> connectionQueue (connectionQueue_of sv) = [4] \<and> listeners sv = [(1, 4)] | _ \<Rightarrow> False"
    by code_simp
  then obtain sv c where run: "?run = Ret (sv, c)" "connectionQueue (connectionQueue_of sv) = [4]" "listeners sv = [(1, 4)]"
    by (auto split: res.splits)
  from run(1) have "connect_step (ex_accepted, [4 \<mapsto> ex_connect_call]) (sv, keep_call sv c [4 \<mapsto> ex_connect_call])"
    by (intro connect_step.event) (auto simp: ex_connect_call_def fresh_connect_def)
  with ex_accept have steps: "connect_step\<^sup>*\<^sup>* (init_service s0, Map.empty) (sv, keep_call sv c [4 \<mapsto> ex_connect_call])"
    unfolding started by (blast intro: rtranclp.intros)
  from connections_never_dangle [OF s0 _ this] ex_device_ok(1) s0 steps run show ?thesis by auto
qed

lemma Connect_process_evicts:
  assumes "queue_ok (connectionQueue_of sv) (connects_of sv)" "p \<notin> set (connectionQueue (connectionQueue_of sv))" "p = cl_ptr c"
    and run: "Connect_process decode now sv c = Ret (sv', c')"
    and v: "v \<in> set (connectionQueue (connectionQueue_of sv))" "v \<notin> set (connectionQueue (connectionQueue_of sv'))"
  shows "connects_of sv' v = shutdown (connects_of sv v)"
proof -
  let ?con = "(connects_of sv p)\<lparr>detailLevel := cl_req c\<rparr>"
  let ?sv1 = "sv\<lparr>connects_of := (connects_of sv)(p := ?con)\<rparr>"
  let ?init = "res_bind (jwsToken ?sv1 (cl_meta c)) (\<lambda>token. initAuthz decode token (authorizationEnabled ?sv1) ?con)"
  show ?thesis
  proof (cases ?init)
    case (Throw e)
    with run assms(3) have "connectionQueue_of sv' = connectionQueue_of sv"
      by (cases e) (auto simp: Connect_process_def Let_def)
    with v show ?thesis by simp
  next
    case (Ret con')
    with run assms(3) obtain added q where
      r: "registerConnection now (connectionQueue_of sv) ((connects_of sv)(p := con')) (Some p) = Ret (added, q, connects_of sv')"
      and "connectionQueue_of sv' = q"
      by (auto simp: Connect_process_def Let_def res_simps split: if_splits)
    moreover have "queue_ok (connectionQueue_of sv) ((connects_of sv)(p := con'))"
      using assms(1,2) queue_ok_upd by blast
    ultimately show ?thesis using register_ok(5) [OF _ assms(2), of _ now _ _ _ v] v assms(2) by fastforce
  qed (use run in \<open>simp add: Connect_process_def Let_def assms(3)\<close>)
qed

text \<open>The newcomer's event leaves every connection it pushes out of the queue told to shut down.\<close>

lemma Connect_proceed_evicts:
  assumes "pool_ok sv pl" "pl p = Some c" "cl_status c = kProcess" "Connect_proceed decode now sv c True = Ret (sv', c')"
    and v: "v \<in> set (connectionQueue (connectionQueue_of sv))" "v \<notin> set (connectionQueue (connectionQueue_of sv'))"
  shows "connects_of sv' v = shutdown (connects_of sv v)"
proof -
  let ?sv2 = "new_call RConnect True (sv\<lparr>shutdownSignal := shutdownSignal sv @ [p]\<rparr>)"
  from assms(1-3) have c: "cl_ptr c = p" "p \<notin> connection_refs sv" "service_ok sv" by (auto simp: pool_ok_def call_ok_def)
  then have q: "queue_ok (connectionQueue_of sv) (connects_of sv)" "next_ptr sv \<notin> set (connectionQueue (connectionQueue_of sv))"
    by (auto simp: service_ok_def connections_ok_def registry_ok_def)
  have "queue_ok (connectionQueue_of ?sv2) (connects_of ?sv2)" "connects_of ?sv2 v = connects_of sv v"
    using q v(1) queue_ok_upd [OF q(2)] by (auto simp: new_call_def registerItem_def Let_def)
  moreover have "p \<notin> set (connectionQueue (connectionQueue_of ?sv2))" "p = cl_ptr (processTimestamps now c)"
    "Connect_process decode now ?sv2 (processTimestamps now c) = Ret (sv', c')" "v \<in> set (connectionQueue (connectionQueue_of ?sv2))"
    using assms(3,4) c(1,2) v(1) by (simp_all add: Connect_proceed_def connection_refs_def Let_def)
  ultimately show ?thesis using Connect_process_evicts v(2) by metis
qed

text \<open>
  C23: a connection that a newcomer pushes out of the queue ends. Its waiting call is woken; when
  the client is still there it is answered CANCELLED, once, and the next event of the call removes
  it; when the client has gone the call removes itself at once. Afterwards neither the registry
  nor the queue, a device or the shutdown signal know the connection any more.
\<close>

theorem evicted_connection_ends:
  assumes "pool_ok sv pl" "pl p = Some c" "cl_status c = kProcess" "Connect_proceed decode now sv c True = Ret (sv', c')"
    and "pl v = Some d" "waiting d" "v \<in> set (connectionQueue (connectionQueue_of sv))"
    and "v \<notin> set (connectionQueue (connectionQueue_of sv'))"
  shows "\<exists>sv1 d1. hasUpdate (connects_of sv' v) \<and> Connect_wake now1 sv' d = Ret (sv1, d1) \<and> cl_status d1 = kFinish
     \<and> (if peerGone (connects_of sv v) then cl_out d1 = cl_out d \<and> v \<notin> set (registry sv1) \<union> connection_refs sv1
        else cl_out d1 = cl_out d @ [FinishStatus CANCELLED]
           \<and> (\<exists>sv2. Connect_proceed decode now2 sv1 d1 ok = Ret (sv2, d1) \<and> v \<notin> set (registry sv2) \<union> connection_refs sv2))"
proof -
  let ?sv1 = "sv'\<lparr>connects_of := (connects_of sv')(v := (connects_of sv' v)\<lparr>hasUpdate := False\<rparr>)\<rparr>"
  let ?d = "d\<lparr>waiting := False, cl_status := kFinish\<rparr>"
  have con: "connects_of sv' v = shutdown (connects_of sv v)" by (rule Connect_proceed_evicts [OF assms(1-4,7,8)])
  have ok': "pool_ok sv' (keep_call sv' c' pl)" by (rule pool_ok_process [OF assms(1-4)])
  then have "service_ok ?sv1" by (intro service_ok_flags) (auto simp: pool_ok_def rank_def)
  then have ok1: "pool_ok ?sv1 (keep_call sv' c' pl)" by (rule pool_ok_connects [OF ok'])
  have d: "cl_ptr d = v" using assms(1,5) by (auto simp: pool_ok_def call_ok_def)
  have gone: "v \<notin> set (registry (Connect_finish ?sv1 ?d)) \<union> connection_refs (Connect_finish ?sv1 ?d)"
    using Connect_finish_refs [OF ok1, of ?d] ok1 d
    by (simp add: Connect_finish_simps pool_ok_def service_ok_def registry_ok_def)
  have step: "Connect_proceed decode now2 ?sv1 (reply (FinishStatus CANCELLED) ?d) ok
      = Ret (Connect_finish ?sv1 ?d, reply (FinishStatus CANCELLED) ?d)"
    by (simp add: Connect_proceed_def Connect_finish_def reply_def Let_def)
  show ?thesis
  proof (cases "peerGone (connects_of sv v)")
    case True
    then have "Connect_wake now1 sv' d = Ret (Connect_finish ?sv1 ?d, ?d)"
      by (simp add: Connect_wake_def con d shutdown_def Let_def)
    with True con gone show ?thesis by (simp add: shutdown_def)
  next
    case False
    then have "Connect_wake now1 sv' d = Ret (?sv1, reply (FinishStatus CANCELLED) ?d)"
      by (simp add: Connect_wake_def con d shutdown_def Let_def)
    with False con gone step show ?thesis by (simp add: shutdown_def)
  qed
qed

text \<open>A service for one connection, which a monitoring client holds when an administrator connects.\<close>

definition ex_decode :: jwt where
  "ex_decode t = Some [(''scope'', ClaimString t)]"

definition ex_proceed :: "callptr \<Rightarrow> service \<times> pool \<Rightarrow> service \<times> pool" where
  "ex_proceed p s = (case Connect_proceed ex_decode 0 (fst s) (the (snd s p)) True of Ret (sv, c) \<Rightarrow> (sv, keep_call sv c (snd s)))"

definition ex_join :: "callptr \<Rightarrow> string \<Rightarrow> service \<times> pool \<Rightarrow> service \<times> pool" where
  "ex_join p tok s =
     ((fst s)\<lparr>listening := filter (\<lambda>l. snd l \<noteq> p) (listening (fst s))\<rparr>,
      (snd s)(p := Some (fresh_connect p FULL [(''authorization'', ''Bearer '' @ tok)])))"

definition ex_full :: "service \<times> pool" where
  "ex_full =
     (case ServiceImpl True [ex_device] [] True 1 of
        Ret sv \<Rightarrow> ex_join 14 ''st2138:adm'' (ex_proceed 4 (ex_proceed 4 (ex_join 4 ''st2138:mon'' (init_service sv, Map.empty)))))"

lemma ex_proceed_ok:
  assumes "pool_ok (fst s) (snd s)" "snd s p \<noteq> None" "case Connect_proceed ex_decode 0 (fst s) (the (snd s p)) True of Ret _ \<Rightarrow> True | _ \<Rightarrow> False"
  shows "pool_ok (fst (ex_proceed p s)) (snd (ex_proceed p s))"
  using assms pool_ok_event [of "fst s" "snd s" p _ ex_decode 0 True] by (auto simp: ex_proceed_def split: res.splits)

lemma ex_join_ok:
  "pool_ok (fst s) (snd s) \<Longrightarrow> (RConnect, p) \<in> set (listening (fst s)) \<Longrightarrow> pool_ok (fst (ex_join p tok s)) (snd (ex_join p tok s))"
  unfolding ex_join_def fst_conv snd_conv by (rule pool_ok_accept)

lemma ex_full_ok: "pool_ok (fst ex_full) (snd ex_full)"
proof -
  have "case ServiceImpl True [ex_device] [] True 1 of Ret sv \<Rightarrow> True | _ \<Rightarrow> False" by code_simp
  then obtain sv where sv: "ServiceImpl True [ex_device] [] True 1 = Ret sv" by (auto split: res.splits)
  let ?s0 = "case ServiceImpl True [ex_device] [] True 1 of Ret sv \<Rightarrow> (init_service sv, Map.empty :: pool)"
  let ?s1 = "ex_join 4 ''st2138:mon'' ?s0"
  let ?s2 = "ex_proceed 4 ?s1"
  let ?s3 = "ex_proceed 4 ?s2"
  have "pool_ok (fst ?s0) (snd ?s0)" using init_pool_ok(1) [OF sv] ex_device_ok(1) by (simp add: sv)
  moreover have "(RConnect, 4) \<in> set (listening (fst ?s0))" by code_simp
  ultimately have "pool_ok (fst ?s1) (snd ?s1)" by (rule ex_join_ok)
  moreover have "snd ?s1 4 \<noteq> None" by (simp add: ex_join_def)
  moreover have "case Connect_proceed ex_decode 0 (fst ?s1) (the (snd ?s1 4)) True of Ret _ \<Rightarrow> True | _ \<Rightarrow> False" by code_simp
  ultimately have "pool_ok (fst ?s2) (snd ?s2)" by (rule ex_proceed_ok)
  moreover have "case snd ?s2 4 of None \<Rightarrow> False | Some _ \<Rightarrow> True" by code_simp
  then have "snd ?s2 4 \<noteq> None" by (simp split: option.splits)
  moreover have "case Connect_proceed ex_decode 0 (fst ?s2) (the (snd ?s2 4)) True of Ret _ \<Rightarrow> True | _ \<Rightarrow> False" by code_simp
  ultimately have "pool_ok (fst ?s3) (snd ?s3)" by (rule ex_proceed_ok)
  moreover have "(RConnect, 14) \<in> set (listening (fst ?s3))" by code_simp
  ultimately have "pool_ok (fst (ex_join 14 ''st2138:adm'' ?s3)) (snd (ex_join 14 ''st2138:adm'' ?s3))" by (rule ex_join_ok)
  then show ?thesis by (simp add: ex_full_def sv)
qed

theorem evicted_connection_ends_witness:
  "\<exists>sv' c' d sv1 d1 sv2. Connect_proceed ex_decode 0 (fst ex_full) (the (snd ex_full 14)) True = Ret (sv', c')
     \<and> snd ex_full 4 = Some d \<and> Connect_wake 0 sv' d = Ret (sv1, d1) \<and> cl_out d1 = cl_out d @ [FinishStatus CANCELLED]
     \<and> Connect_proceed ex_decode 0 sv1 d1 True = Ret (sv2, d1) \<and> 4 \<notin> set (registry sv2)"
proof -
  let ?run = "Connect_proceed ex_decode 0 (fst ex_full) (the (snd ex_full 14)) True"
  have "case (snd ex_full 14, snd ex_full 4) of
      (Some c, Some d) \<Rightarrow> cl_status c = kProcess \<and> waiting d \<and> 4 \<in> set (connectionQueue (connectionQueue_of (fst ex_full)))
         \<and> \<not> peerGone (connects_of (fst ex_full) 4)
         \<and> (case Connect_proceed ex_decode 0 (fst ex_full) c True of
              Ret (sv', c') \<Rightarrow> 4 \<notin> set (connectionQueue (connectionQueue_of sv')) | _ \<Rightarrow> False)
    | _ \<Rightarrow> False" by code_simp
  then obtain c d sv' c' where
    e: "snd ex_full 14 = Some c" "snd ex_full 4 = Some d" "cl_status c = kProcess" "waiting d"
      "4 \<in> set (connectionQueue (connectionQueue_of (fst ex_full)))" "\<not> peerGone (connects_of (fst ex_full) 4)"
      "Connect_proceed ex_decode 0 (fst ex_full) c True = Ret (sv', c')" "4 \<notin> set (connectionQueue (connectionQueue_of sv'))"
    by (auto split: option.splits res.splits)
  from evicted_connection_ends [OF ex_full_ok e(1,3,7,2,4,5,8), of 0 0 True] e show ?thesis by auto
qed

text \<open>
  A failed write brings the call back with \<open>ok = False\<close> in \<^verbatim>\<open>kWrite\<close>, where it waits like after a
  successful one: a client that has gone keeps its place until the next update or until the queue
  is full.
\<close>

lemma failed_write_waits:
  "cl_status c = kWrite \<Longrightarrow> Connect_proceed decode now sv c ok = Ret (sv, c\<lparr>waiting := True\<rparr>)"
  by (simp add: Connect_proceed_def)

end
