(* ===== verification/Rpc_Command.thy ===== *)
theory Rpc_Command
  imports Rpc_Stream
begin

text \<open>
  Commands: \<^verbatim>\<open>executeCommand\<close> and \<^verbatim>\<open>CommandResponder\<close> of \<^verbatim>\<open>ParamDescriptor.h\<close> and the gRPC controllers
  \<^verbatim>\<open>ExecuteCommand\<close> and \<^verbatim>\<open>ExternalObjectRequest\<close>. What a command does belongs to the application: an
  implementation is a function that gives a coroutine, and a coroutine is the list of what it does
  at each resumption, up to its next \<^verbatim>\<open>co_yield\<close> or its \<^verbatim>\<open>co_return\<close>; a resumption may change the
  service, and yields a response or throws. The file system and the digest are arguments too.
\<close>

section \<open>Command implementations\<close>

datatype command_response =
    CrNone
  | CrResponse pvalue
  | CrException string

type_synonym resumption = "service \<Rightarrow> service \<times> command_response res"
type_synonym command_impl = "pvalue \<Rightarrow> bool \<Rightarrow> resumption list option res"
type_synonym command_table = "u32 \<Rightarrow> string \<Rightarrow> command_impl option"

definition default_impl :: command_impl where
  "default_impl value respond = Ret (Some [\<lambda>sv. (sv, Ret (CrException ''UNIMPLEMENTED''))])"

definition commandImpl :: "command_table \<Rightarrow> u32 \<Rightarrow> string \<Rightarrow> command_impl" where
  "commandImpl tbl s name = (case tbl s name of None \<Rightarrow> default_impl | Some impl \<Rightarrow> impl)"

definition defineCommand :: "command_table \<Rightarrow> u32 \<Rightarrow> string \<Rightarrow> dinfo \<Rightarrow> command_impl \<Rightarrow> command_table res" where
  "defineCommand tbl s name d impl =
     (if \<not> pd_isCommand d then Throw RuntimeError else Ret (tbl(s := (tbl s)(name \<mapsto> impl))))"

definition command_name :: "param \<Rightarrow> string" where
  "command_name p = (case p_root p of RCommand name \<Rightarrow> name | RParam name \<Rightarrow> name)"

definition executeCommand :: "command_table \<Rightarrow> u32 \<Rightarrow> param \<Rightarrow> pvalue \<Rightarrow> bool \<Rightarrow> StatusCode \<Rightarrow> authorizer
    \<Rightarrow> (resumption list option \<times> StatusCode) res" where
  "executeCommand tbl s p value respond rc authz =
     (if \<not> writeAuthz authz (p_desc p) then Ret (None, PERMISSION_DENIED)
      else res_bind (commandImpl tbl s (command_name p) value respond) (\<lambda>r. Ret (r, rc)))"

definition responder_hasMore :: "resumption list \<Rightarrow> bool" where
  "responder_hasMore rs \<longleftrightarrow> rs \<noteq> []"

text \<open>A coroutine that throws is finished. The message of a finished one has been moved out.\<close>

definition responder_getNext :: "resumption list \<Rightarrow> service \<Rightarrow> service \<times> command_response res \<times> resumption list" where
  "responder_getNext rs sv =
     (case rs of
        [] \<Rightarrow> (sv, Ret CrNone, [])
      | r # rest \<Rightarrow>
          (let (sv', m) = r sv in
           (sv', m, case m of Ret _ \<Rightarrow> rest | _ \<Rightarrow> [])))"

lemma responder_getNext_shorter:
  "responder_getNext rs sv = (sv', m, rs') \<Longrightarrow> rs' \<noteq> [] \<Longrightarrow> length rs' < length rs"
  by (auto simp: responder_getNext_def Let_def split: list.splits prod.splits res.splits)

section \<open>ExecuteCommand\<close>

record command_request =
  ec_slot :: int
  ec_oid :: string
  ec_value :: pvalue
  ec_respond :: bool

text \<open>The authorizer and the responder are not set until the request is processed.\<close>

record command_call = "(command_request, command_response) call" +
  ec_authz :: "authorizer option"
  responder :: "resumption list option"

definition ExecuteCommand_process :: "command_table \<Rightarrow> jwt \<Rightarrow> service \<Rightarrow> command_call
    \<Rightarrow> (service \<times> (authorizer option \<times> resumption list option) \<times> StatusCode) res" where
  "ExecuteCommand_process tbl decode sv c =
     try_catch sv (ec_authz c, responder c)
       (res_bind (find_device sv (ec_slot (cl_req c))) (\<lambda>d. case d of
          None \<Rightarrow> Ret (sv, (ec_authz c, responder c), NOT_FOUND)
        | Some dm \<Rightarrow>
            res_bind (call_authz decode sv (cl_meta c)) (\<lambda>authz.
            try_catch sv (Some authz, responder c)
              (res_bind (getCommand dm (ec_oid (cl_req c)) OK authz) (\<lambda>(command, rc). case command of
                 None \<Rightarrow> Ret (sv, (Some authz, responder c), rc)
               | Some p \<Rightarrow>
                   res_bind (executeCommand tbl (slot dm) p (ec_value (cl_req c)) (ec_respond (cl_req c)) rc authz) (\<lambda>(r, rc').
                   Ret (sv, (Some authz, r), rc')))))))"

text \<open>
  The loop of \<^verbatim>\<open>kWrite\<close>: it takes one response, or all of them when the client wants none. \<open>clock n\<close>
  is the time when \<open>n\<close> resumptions are left.
\<close>

function command_loop :: "(nat \<Rightarrow> int) \<Rightarrow> bool \<Rightarrow> authorizer \<Rightarrow> resumption list \<Rightarrow> service
    \<Rightarrow> (service \<times> resumption list \<times> command_response \<times> StatusCode) res" where
  "command_loop clock respond authz rs sv =
     (if isExpired authz (clock (length rs)) then Ret (sv, rs, CrNone, UNAUTHENTICATED)
      else case responder_getNext rs sv of
        (sv', Ret m, rs') \<Rightarrow>
          if \<not> respond \<and> responder_hasMore rs' then command_loop clock respond authz rs' sv'
          else Ret (sv', rs', m, OK)
      | (sv', Throw e, rs') \<Rightarrow> Ret (sv', rs', CrNone, catch_status e)
      | (sv', Undef, rs') \<Rightarrow> Undef)"
  by pat_completeness auto
termination
  by (relation "measure (\<lambda>(clock, respond, authz, rs, sv). length rs)")
    (auto simp: responder_hasMore_def dest!: responder_getNext_shorter [OF sym])

declare command_loop.simps [simp del]

definition ExecuteCommand_write :: "(nat \<Rightarrow> int) \<Rightarrow> service \<Rightarrow> command_call \<Rightarrow> (service \<times> command_call) res" where
  "ExecuteCommand_write clock sv c =
     (case responder c of
        None \<Rightarrow> Ret (sv, reply (FinishStatus INTERNAL) (c\<lparr>cl_status := kFinish\<rparr>))
      | Some rs \<Rightarrow>
          (case ec_authz c of
             None \<Rightarrow> Undef
           | Some authz \<Rightarrow>
               res_bind (command_loop clock (ec_respond (cl_req c)) authz rs sv) (\<lambda>(sv', rs', res, rc).
               let c1 = c\<lparr>responder := Some rs', cl_status := (if responder_hasMore rs' then kWrite else kPostWrite)\<rparr> in
               if rc \<noteq> OK then Ret (sv', reply (FinishStatus rc) (c1\<lparr>cl_status := kFinish\<rparr>))
               else if ec_respond (cl_req c) then Ret (sv', reply (Write res) c1)
               else Ret (sv', reply (FinishStatus OK) (c1\<lparr>cl_status := kFinish\<rparr>)))))"

definition ExecuteCommand_proceed :: "command_table \<Rightarrow> jwt \<Rightarrow> int \<Rightarrow> (nat \<Rightarrow> int) \<Rightarrow> service \<Rightarrow> command_call \<Rightarrow> bool
    \<Rightarrow> (service \<times> command_call) res" where
  "ExecuteCommand_proceed tbl decode now clock sv c ok =
     (let c0 = (if ok then c else c\<lparr>cl_status := kFinish\<rparr>) in
      case cl_status c0 of
        kCreate \<Rightarrow> Ret (sv\<lparr>listening := listening sv @ [(RExecuteCommand, cl_ptr c0)]\<rparr>, c0\<lparr>cl_status := kProcess\<rparr>)
      | kProcess \<Rightarrow>
          (let c1 = processTimestamps now c0; sv1 = new_call RExecuteCommand ok sv in
           res_bind (ExecuteCommand_process tbl decode sv1 c1) (\<lambda>(sv2, (authz, r), rc).
           let c2 = c1\<lparr>ec_authz := authz, responder := r\<rparr> in
           if rc \<noteq> OK then Ret (sv2, reply (FinishStatus rc) (c2\<lparr>cl_status := kFinish\<rparr>))
           else ExecuteCommand_write clock sv2 c2))
      | kWrite \<Rightarrow> ExecuteCommand_write clock sv c0
      | kPostWrite \<Rightarrow> Ret (sv, reply (FinishStatus OK) (c0\<lparr>cl_status := kFinish\<rparr>))
      | kFinish \<Rightarrow> Ret (deregisterItem (cl_ptr c0) sv, c0)
      | kRead \<Rightarrow> Ret (sv, reply (FinishStatus INTERNAL) (c0\<lparr>cl_status := kFinish\<rparr>)))"

section \<open>ExternalObjectRequest\<close>

record object_payload =
  ob_payload :: string
  ob_digest :: string

text \<open>
  \<open>fs\<close> gives the bytes of a file, None where nothing exists, and throws where the file system does;
  \<open>sha256\<close> is the digest.
\<close>

definition ExternalObject_write :: "(string \<Rightarrow> string option res) \<Rightarrow> (string \<Rightarrow> string) \<Rightarrow> service
    \<Rightarrow> (slot_oid, object_payload) call \<Rightarrow> (service \<times> (slot_oid, object_payload) call) res" where
  "ExternalObject_write fs sha256 sv c =
     (case res_bind (find_device sv (rq_slot (cl_req c))) (\<lambda>d. case d of
             None \<Rightarrow> Throw (ExceptionWithStatus NOT_FOUND)
           | Some dm \<Rightarrow>
               res_bind (fs (EOPath sv @ rq_oid (cl_req c))) (\<lambda>file. case file of
                 None \<Rightarrow> Throw (ExceptionWithStatus NOT_FOUND)
               | Some file_data \<Rightarrow> Ret \<lparr>ob_payload = file_data, ob_digest = sha256 file_data\<rparr>)) of
        Ret obj \<Rightarrow> Ret (sv, reply (Write obj) (c\<lparr>cl_status := kPostWrite\<rparr>))
      | Throw (ExceptionWithStatus st) \<Rightarrow> Ret (sv, reply (FinishStatus st) (c\<lparr>cl_status := kFinish\<rparr>))
      | Throw _ \<Rightarrow> Ret (sv, reply (FinishStatus CANCELLED) (c\<lparr>cl_status := kFinish\<rparr>))
      | Undef \<Rightarrow> Undef)"

definition ExternalObjectRequest_proceed :: "(string \<Rightarrow> string option res) \<Rightarrow> (string \<Rightarrow> string) \<Rightarrow> int \<Rightarrow> service
    \<Rightarrow> (slot_oid, object_payload) call \<Rightarrow> bool \<Rightarrow> (service \<times> (slot_oid, object_payload) call) res" where
  "ExternalObjectRequest_proceed fs sha256 now sv c ok =
     (let c0 = (if ok then c else c\<lparr>cl_status := kFinish\<rparr>) in
      case cl_status c0 of
        kCreate \<Rightarrow> Ret (sv\<lparr>listening := listening sv @ [(RExternalObjectRequest, cl_ptr c0)]\<rparr>, c0\<lparr>cl_status := kProcess\<rparr>)
      | kProcess \<Rightarrow>
          (let c1 = processTimestamps now c0; sv1 = new_call RExternalObjectRequest ok sv in
           ExternalObject_write fs sha256 sv1 (c1\<lparr>cl_status := kWrite\<rparr>))
      | kWrite \<Rightarrow> ExternalObject_write fs sha256 sv c0
      | kPostWrite \<Rightarrow> Ret (sv, reply (FinishStatus OK) (c0\<lparr>cl_status := kFinish\<rparr>))
      | kFinish \<Rightarrow> Ret (deregisterItem (cl_ptr c0) sv, c0)
      | kRead \<Rightarrow> Ret (sv, reply (FinishStatus INTERNAL) (c0\<lparr>cl_status := kFinish\<rparr>)))"

section \<open>Running a command\<close>

fun resume_all :: "resumption list \<Rightarrow> service \<Rightarrow> service \<times> command_response res list" where
  "resume_all [] sv = (sv, [])"
| "resume_all (r # rs) sv = (let (sv1, m) = r sv; (sv2, ms) = resume_all rs sv1 in (sv2, m # ms))"

lemma resume_all_Cons:
  "resume_all (r # rs) sv = (sv', map Ret ms) \<longleftrightarrow>
     (\<exists>sv1 m ms'. r sv = (sv1, Ret m) \<and> resume_all rs sv1 = (sv', map Ret ms') \<and> ms = m # ms')"
  by (auto simp: Let_def Cons_eq_map_conv split: prod.splits)

lemma resume_all_length: "resume_all rs sv = (sv', ms) \<Longrightarrow> length ms = length rs"
  by (induction rs arbitrary: sv ms) (auto simp: Let_def split: prod.splits)

lemma command_loop_one:
  assumes "\<not> isExpired a (clock (Suc (length rs)))" "r sv = (sv1, Ret m)" "respond \<or> rs = []"
  shows "command_loop clock respond a (r # rs) sv = Ret (sv1, rs, m, OK)"
  using assms by (subst command_loop.simps) (auto simp: responder_getNext_def responder_hasMore_def)

lemma command_loop_all:
  assumes "\<forall>n. \<not> isExpired a (clock n)" "resume_all rs sv = (sv', map Ret ms)" "rs \<noteq> []"
  shows "\<exists>m. command_loop clock False a rs sv = Ret (sv', [], m, OK)"
  using assms(2,3)
proof (induction rs arbitrary: sv ms)
  case (Cons r rs)
  from Cons.prems(1) obtain sv1 m ms' where r: "r sv = (sv1, Ret m)" "resume_all rs sv1 = (sv', map Ret ms')"
    unfolding resume_all_Cons by blast
  show ?case
  proof (cases "rs = []")
    case True
    with r command_loop_one [of a clock rs r sv sv1 m False] assms(1) show ?thesis by auto
  next
    case False
    with assms(1) r(1) have "command_loop clock False a (r # rs) sv = command_loop clock False a rs sv1"
      by (subst command_loop.simps) (simp add: responder_getNext_def responder_hasMore_def)
    with Cons.IH [OF r(2) False] show ?thesis by simp
  qed
qed simp

lemma stream_responses:
  assumes "\<forall>n. \<not> isExpired a (clock n)" "resume_all rs sv = (sv', map Ret ms)" "rs \<noteq> []"
    and "responder c = Some rs" "ec_authz c = Some a" "ec_respond (cl_req c)" "cl_status c = kWrite"
  shows "\<exists>c'. run (\<lambda>sv c. ExecuteCommand_proceed tbl decode now clock sv c True) (Suc (length ms)) sv c = Ret (sv', c')
     \<and> cl_out c' = cl_out c @ map Write ms @ [FinishStatus OK] \<and> cl_status c' = kFinish"
  using assms(2-)
proof (induction rs arbitrary: sv c ms)
  case (Cons r rs)
  from Cons.prems(1) obtain sv1 m ms' where
    r: "r sv = (sv1, Ret m)" "resume_all rs sv1 = (sv', map Ret ms')" "ms = m # ms'"
    unfolding resume_all_Cons by blast
  let ?c = "reply (Write m) (c\<lparr>responder := Some rs, cl_status := (if responder_hasMore rs then kWrite else kPostWrite)\<rparr>)"
  have step: "ExecuteCommand_proceed tbl decode now clock sv c True = Ret (sv1, ?c)"
    using Cons.prems(3-6) command_loop_one [of a clock rs r sv sv1 m True] assms(1) r(1)
    by (simp add: ExecuteCommand_proceed_def ExecuteCommand_write_def)
  show ?case
  proof (cases "rs = []")
    case True
    with r step show ?thesis
      by (auto simp: ExecuteCommand_proceed_def responder_hasMore_def reply_def)
  next
    case False
    with Cons.prems have "\<exists>c'. run (\<lambda>sv c. ExecuteCommand_proceed tbl decode now clock sv c True) (Suc (length ms')) sv1 ?c = Ret (sv', c')
        \<and> cl_out c' = cl_out ?c @ map Write ms' @ [FinishStatus OK] \<and> cl_status c' = kFinish"
      by (intro Cons.IH [OF r(2) False]) (simp_all add: responder_hasMore_def reply_def)
    with step r(3) show ?thesis by (auto simp: reply_def)
  qed
qed simp

lemma ExecuteCommand_write_status [simp]:
  "ExecuteCommand_write clock sv (c\<lparr>cl_status := s\<rparr>) = ExecuteCommand_write clock sv c"
  by (cases c) (auto simp: ExecuteCommand_write_def Let_def split: option.split intro!: res_bind_cong)

lemma ExecuteCommand_starts:
  assumes "ready sv c" "find_device sv (ec_slot (cl_req c)) = Ret (Some dm)" "call_authz decode sv (cl_meta c) = Ret a"
    and "getCommand dm (ec_oid (cl_req c)) OK a = Ret (Some p, OK)"
    and "executeCommand tbl (slot dm) p (ec_value (cl_req c)) (ec_respond (cl_req c)) OK a = Ret (r, rc)"
  shows "ExecuteCommand_proceed tbl decode now clock sv c True =
     (let sv1 = new_call RExecuteCommand True sv; c1 = (processTimestamps now c)\<lparr>ec_authz := Some a, responder := r\<rparr> in
      if rc = OK then ExecuteCommand_write clock sv1 c1
      else Ret (sv1, reply (FinishStatus rc) (c1\<lparr>cl_status := kFinish\<rparr>)))"
  using assms by (simp add: ExecuteCommand_proceed_def ExecuteCommand_process_def ready_def Let_def)

text \<open>
  C26: executing a command the client may write runs its implementation to the end, once, in the
  order of its resumptions: a client that wants responses is sent every one of them and then OK,
  after one event per response and one more; a client that wants none is answered OK by the first
  event. Without write access the implementation is not run and the answer is PERMISSION_DENIED.
\<close>

theorem execute_command_runs:
  assumes "ready sv c" "find_device sv (ec_slot (cl_req c)) = Ret (Some dm)" "call_authz decode sv (cl_meta c) = Ret a"
    and live: "\<forall>n. \<not> isExpired a (clock n)"
    and "getCommand dm (ec_oid (cl_req c)) OK a = Ret (Some p, OK)" "respond = ec_respond (cl_req c)"
    and impl: "commandImpl tbl (slot dm) (command_name p) (ec_value (cl_req c)) respond = Ret (Some rs)" "rs \<noteq> []"
    and resume: "resume_all rs (new_call RExecuteCommand True sv) = (sv', map Ret ms)"
  shows "if writeAuthz a (p_desc p)
     then \<exists>c'. run (\<lambda>sv c. ExecuteCommand_proceed tbl decode now clock sv c True) (if respond then Suc (length ms) else 1) sv c
                 = Ret (sv', c')
               \<and> cl_out c' = (if respond then map Write ms else []) @ [FinishStatus OK] \<and> cl_status c' = kFinish
     else \<exists>c'. ExecuteCommand_proceed tbl decode now clock sv c True = Ret (new_call RExecuteCommand True sv, c')
               \<and> cl_out c' = [FinishStatus PERMISSION_DENIED] \<and> cl_status c' = kFinish"
proof -
  let ?sv = "new_call RExecuteCommand True sv"
  let ?c = "(processTimestamps now c)\<lparr>ec_authz := Some a, responder := Some rs\<rparr>"
  let ?run = "run (\<lambda>sv c. ExecuteCommand_proceed tbl decode now clock sv c True)"
  note starts = ExecuteCommand_starts [OF assms(1-3,5), of tbl _ _ now clock]
  have out: "cl_out c = []" "cl_out ?c = []" using assms(1) by (simp_all add: ready_def)
  show ?thesis
  proof (cases "writeAuthz a (p_desc p)")
    case False
    with starts [of None PERMISSION_DENIED] out show ?thesis by (simp add: executeCommand_def reply_def)
  next
    case True
    with impl assms(6) have first: "ExecuteCommand_proceed tbl decode now clock sv c True = ExecuteCommand_write clock ?sv ?c"
      using starts [of "Some rs" OK] by (simp add: executeCommand_def)
    show ?thesis
    proof (cases respond)
      case True
      have "ExecuteCommand_write clock ?sv ?c = ExecuteCommand_proceed tbl decode now clock ?sv (?c\<lparr>cl_status := kWrite\<rparr>) True"
        by (simp add: ExecuteCommand_proceed_def)
      with first have "?run (Suc (length ms)) sv c = ?run (Suc (length ms)) ?sv (?c\<lparr>cl_status := kWrite\<rparr>)" by simp
      with stream_responses [OF live resume impl(2), of "?c\<lparr>cl_status := kWrite\<rparr>" tbl decode now] True assms(6) out
        \<open>writeAuthz a (p_desc p)\<close>
      show ?thesis by simp
    next
      case False
      from command_loop_all [OF live resume impl(2)] obtain m where "command_loop clock False a rs ?sv = Ret (sv', [], m, OK)" by blast
      with False assms(6) first out \<open>writeAuthz a (p_desc p)\<close> show ?thesis
        by (simp add: ExecuteCommand_write_def responder_hasMore_def reply_def)
    qed
  qed
qed

text \<open>A device with a command that answers twice.\<close>

definition ex_command_device :: device where
  "ex_command_device = addItem_param ''fade''
     \<lparr>dp_ctype = TInt, dp_value = VInt 0, dp_desc = PDesc ((example_info ''fade'' INT32)\<lparr>pd_isCommand := True\<rparr>) []\<rparr> ex_device"

definition ex_impl :: command_impl where
  "ex_impl value respond =
     Ret (Some [\<lambda>sv. (sv, Ret (CrResponse value)), \<lambda>sv. (sv\<lparr>subscriptionManager := (\<lambda>_. {})\<rparr>, Ret CrNone)])"

definition ex_command_call :: command_call where
  "ex_command_call = call.extend (ex_call \<lparr>ec_slot = 1, ec_oid = ''/fade'', ec_value = Int32Value 3, ec_respond = True\<rparr>)
     \<lparr>ec_authz = None, responder = None\<rparr>"

theorem execute_command_runs_witness:
  "\<exists>sv' c'. run (\<lambda>sv c. ExecuteCommand_proceed (\<lambda>_ _. Some ex_impl) (\<lambda>_. None) 0 (\<lambda>_. 0) sv c True) 3
       (ex_service\<lparr>dms := [(1, Some ex_command_device)]\<rparr>) ex_command_call = Ret (sv', c')
     \<and> cl_out c' = [Write (CrResponse (Int32Value 3)), Write CrNone, FinishStatus OK]"
proof -
  let ?sv = "ex_service\<lparr>dms := [(1, Some ex_command_device)]\<rparr>"
  have req: "cl_req ex_command_call = \<lparr>ec_slot = 1, ec_oid = ''/fade'', ec_value = Int32Value 3, ec_respond = True\<rparr>"
    "cl_meta ex_command_call = []" "ready ?sv ex_command_call"
    by (simp_all add: ex_command_call_def ex_call_def call.defs ready_def ex_service_def)
  have dm: "find_device ?sv 1 = Ret (Some ex_command_device)" "call_authz (\<lambda>_. None) ?sv [] = Ret kAuthzDisabled"
    "\<forall>n :: nat. \<not> isExpired kAuthzDisabled 0"
    by (simp_all add: find_device_def device_at_def call_authz_def ex_service_def isExpired_def kAuthzDisabled_def)
  have "case getCommand ex_command_device ''/fade'' OK kAuthzDisabled of
      Ret (Some p, rc) \<Rightarrow> rc = OK \<and> writeAuthz kAuthzDisabled (p_desc p) | _ \<Rightarrow> False" by code_simp
  then obtain p where p: "getCommand ex_command_device ''/fade'' OK kAuthzDisabled = Ret (Some p, OK)"
    "writeAuthz kAuthzDisabled (p_desc p)" by (auto split: res.splits option.splits)
  note run = execute_command_runs [OF req(3), of ex_command_device "\<lambda>_. None" kAuthzDisabled "\<lambda>_. 0" p True "\<lambda>_ _. Some ex_impl"
      _ _ "[CrResponse (Int32Value 3), CrNone]" 0]
  show ?thesis
    using run [unfolded req, simplified] dm p by (fastforce simp: commandImpl_def ex_impl_def numeral_3_eq_3)
qed

text \<open>
  The controller for external objects asks for no token: with authorization enabled, and whatever
  the meta data hold, it sends any file whose path is the configured directory followed by the oid,
  also an oid that climbs out of the directory.
\<close>

lemma external_object_unprotected:
  assumes "ready sv c" "find_device sv (rq_slot (cl_req c)) = Ret (Some dm)" "fs (EOPath sv @ rq_oid (cl_req c)) = Ret (Some bytes)"
  shows "\<exists>sv' c'. run (\<lambda>sv c. ExternalObjectRequest_proceed fs sha256 now sv c True) 2 sv c = Ret (sv', c')
     \<and> cl_out c' = [Write \<lparr>ob_payload = bytes, ob_digest = sha256 bytes\<rparr>, FinishStatus OK]"
proof -
  have "EOPath (new_call RExternalObjectRequest True sv) = EOPath sv" by (simp add: new_call_def registerItem_def Let_def)
  with assms show ?thesis
    by (simp add: ExternalObjectRequest_proceed_def ExternalObject_write_def ready_def reply_def numeral_2_eq_2)
qed

end
