(* ===== verification/Catena_Config.thy ===== *)
theory Catena_Config
  imports Float32
begin

text \<open>
  \<^verbatim>\<open>Config.h\<close> and \<^verbatim>\<open>Config.cpp\<close>: the settings of a service, taken from the command line, then from the
  environment, then from defaults. The library that parses options is a parameter; what the code
  does with the parsed values, double precision arithmetic included, is modelled.
\<close>

section \<open>Double precision\<close>

text \<open>As single precision in \<open>Float32\<close>: finite magnitudes are counted in units of \<open>2 ^ -1074\<close>.\<close>

datatype f64 = DNaN | DInf bool | DFin bool nat

fun f64_exp :: "nat \<Rightarrow> nat" where
  "f64_exp q = (if q < 2 ^ 53 then 0 else Suc (f64_exp (q div 2)))"

declare f64_exp.simps [simp del]

definition f64_round :: "bool \<Rightarrow> nat \<Rightarrow> nat \<Rightarrow> f64" where
  "f64_round neg n d =
     (let e = f64_exp (n div d); m = round_half_even n (d * 2 ^ e) * 2 ^ e in
      if m \<ge> 2 ^ 2098 then DInf neg else DFin neg m)"

definition f64_of_int :: "int \<Rightarrow> f64" where
  "f64_of_int i = DFin (i < 0) (nat \<bar>i\<bar> * 2 ^ 1074)"

fun f64_lt :: "f64 \<Rightarrow> f64 \<Rightarrow> bool" where
  "f64_lt DNaN _ = False"
| "f64_lt _ DNaN = False"
| "f64_lt (DInf s) b = (s \<and> b \<noteq> DInf True)"
| "f64_lt (DFin _ _) (DInf s) = (\<not> s)"
| "f64_lt (DFin s m) (DFin s' m') = (f32_int s m < f32_int s' m')"

fun f64_le :: "f64 \<Rightarrow> f64 \<Rightarrow> bool" where
  "f64_le (DInf s) (DInf s') = (s \<or> \<not> s')"
| "f64_le (DFin s m) (DFin s' m') = (f32_int s m \<le> f32_int s' m')"
| "f64_le a b = f64_lt a b"

fun f64_div :: "f64 \<Rightarrow> f64 \<Rightarrow> f64" where
  "f64_div DNaN _ = DNaN"
| "f64_div _ DNaN = DNaN"
| "f64_div (DInf s) (DInf s') = DNaN"
| "f64_div (DInf s) (DFin s' m) = DInf (s \<noteq> s')"
| "f64_div (DFin s m) (DInf s') = DFin (s \<noteq> s') 0"
| "f64_div (DFin s m) (DFin s' m') =
     (if m' = 0 then (if m = 0 then DNaN else DInf (s \<noteq> s'))
      else f64_round (s \<noteq> s') (m * 2 ^ 1074) m')"

text \<open>The conversion to \<^verbatim>\<open>int\<close> truncates; a value that does not fit is undefined behaviour.\<close>

fun f64_to_int :: "f64 \<Rightarrow> int res" where
  "f64_to_int (DFin s m) =
     (let v = f32_int s (m div 2 ^ 1074) in if - (2 ^ 31) \<le> v \<and> v < 2 ^ 31 then Ret v else Undef)"
| "f64_to_int _ = Undef"

section \<open>The settings\<close>

record config =
  secure_comms :: string
  certs :: string
  cert_file :: string
  key_file :: string
  ca_file :: string
  static_root :: string
  log_dir :: string
  default_max_array_size :: u32
  default_total_array_size :: u32
  max_connections :: u32
  hostname :: string
  port :: "16 word"
  dashboard_port :: "16 word"
  dashboard_tls_enabled :: bool
  private_ca :: bool
  mutual_authc :: bool
  config_authz :: bool
  silent :: bool
  log_level :: string
  log_console :: bool
  log_file :: bool
  log_size :: f64
  log_max_size :: f64
  log_count :: int
  log_final_rotation :: bool
  log_append :: bool

definition log_levels :: "string list" where
  "log_levels = [''trace'', ''debug'', ''info'', ''warning'', ''error'', ''fatal'']"

text \<open>
  The default values of the options. The directories, the limits and the level that depend on the
  build and on \<^verbatim>\<open>HOME\<close> are arguments.
\<close>

definition config_defaults :: "string option \<Rightarrow> string \<Rightarrow> u32 \<Rightarrow> u32 \<Rightarrow> string \<Rightarrow> config" where
  "config_defaults home logdir maxlen maxconn level =
     \<lparr>secure_comms = ''off'', certs = ''${HOME}/test_certs'', cert_file = ''server.crt'', key_file = ''server.key'',
      ca_file = ''ca.crt'', static_root = (case home of None \<Rightarrow> ''/'' | Some h \<Rightarrow> h), log_dir = logdir,
      default_max_array_size = maxlen, default_total_array_size = maxlen, max_connections = maxconn,
      hostname = ''0.0.0.0'', port = 6254, dashboard_port = 8080, dashboard_tls_enabled = False,
      private_ca = False, mutual_authc = False, config_authz = False, silent = False, log_level = level,
      log_console = True, log_file = True, log_size = f64_of_int 10, log_max_size = f64_of_int 50, log_count = 5,
      log_final_rotation = False, log_append = True\<rparr>"

section \<open>Reading the settings\<close>

text \<open>What the library parsed: whether help was asked for, the values, and whether three of them are defaults.\<close>

record parsed =
  pa_help :: bool
  pa_values :: config
  pa_size_defaulted :: bool
  pa_count_defaulted :: bool
  pa_max_defaulted :: bool

definition to_lower :: "char \<Rightarrow> char" where
  "to_lower c = (let n = of_char c :: nat in if 65 \<le> n \<and> n \<le> 90 then char_of (n + 32) else c)"

text \<open>The option that an environment variable sets; the empty name means none.\<close>

definition env_option :: "string \<Rightarrow> string list \<Rightarrow> string \<Rightarrow> string" where
  "env_option pre allowed env_name =
     (if \<not> starts_with pre env_name then []
      else (let option_name = map to_lower (drop (length pre) env_name) in
            if option_name \<in> set allowed then option_name else []))"

definition option_names :: "string list" where
  "option_names =
     [''help'', ''secure_comms'', ''certs'', ''cert_file'', ''key_file'', ''ca_file'', ''static_root'', ''log_dir'', ''hostname'',
      ''port'', ''dashboard_port'', ''dashboard_tls_enabled'', ''default_max_array_size'', ''default_total_array_size'',
      ''max_connections'', ''private_ca'', ''mutual_authc'', ''authz'', ''silent'', ''log_level'', ''log_console'', ''log_file'',
      ''log_size'', ''log_count'', ''log_max_size'', ''log_final_rotation'', ''log_append'']"

definition check_log_size :: "f64 \<Rightarrow> f64" where
  "check_log_size v = (if f64_le v (f64_of_int 0) then f64_of_int 10 else v)"

definition check_log_count :: "int \<Rightarrow> int" where
  "check_log_count v = (if v < 1 then 1 else v)"

definition check_log_level :: "string \<Rightarrow> string \<Rightarrow> string" where
  "check_log_level default_level v =
     (let l = map to_lower v in if l \<in> set log_levels then l else default_level)"

text \<open>The size and the number of log files that follow from their total size.\<close>

definition derive_rotation :: "parsed \<Rightarrow> config \<Rightarrow> config res" where
  "derive_rotation pa c =
     (if f64_lt (log_max_size c) (f64_of_int 10) then Ret c
      else if \<not> pa_max_defaulted pa \<and> pa_size_defaulted pa \<and> pa_count_defaulted pa then
        res_bind (f64_to_int (f64_div (log_max_size c) (f64_of_int 10))) (\<lambda>n.
        Ret (c\<lparr>log_count := n, log_size := f64_div (log_max_size c) (f64_of_int n)\<rparr>))
      else Ret c)"

definition store_values :: "string \<Rightarrow> parsed \<Rightarrow> config res" where
  "store_values default_level pa =
     (let v = pa_values pa in
      derive_rotation pa
        (v\<lparr>log_size := check_log_size (log_size v), log_count := check_log_count (log_count v),
           log_level := check_log_level default_level (log_level v)\<rparr>))"

text \<open>
  \<open>parse\<close> is the library: from the defaults and the naming of environment variables it gives the
  parsed values or throws. The result says whether the program has to exit, and with which code.
\<close>

definition initConfigVariables ::
  "(config \<Rightarrow> (string \<Rightarrow> string) \<Rightarrow> parsed res) \<Rightarrow> string option \<Rightarrow> string \<Rightarrow> u32 \<Rightarrow> u32 \<Rightarrow> string \<Rightarrow> string \<Rightarrow> config
     \<Rightarrow> (config \<times> bool \<times> int) res" where
  "initConfigVariables parse home logdir maxlen maxconn level pre c =
     (case parse (config_defaults home logdir maxlen maxconn level) (env_option pre option_names) of
        Throw e \<Rightarrow> Ret (c, True, 1)
      | Undef \<Rightarrow> Undef
      | Ret pa \<Rightarrow>
          if pa_help pa then Ret (c, True, 0)
          else res_bind (store_values level pa) (\<lambda>c'. Ret (c', False, 0)))"

section \<open>The settings are usable\<close>

lemma f64_exp_big: "2 ^ k \<le> q \<Longrightarrow> 2 ^ k \<le> q div 2 ^ f64_exp q * 2 ^ f64_exp q"
proof (induction q arbitrary: k rule: f64_exp.induct)
  case (1 q)
  show ?case
  proof (cases "q < 2 ^ 53")
    case True
    then have "f64_exp q = 0" by (subst f64_exp.simps) (simp only: if_True)
    with "1.prems" show ?thesis by simp
  next
    case False
    let ?r = "q div 2 div 2 ^ f64_exp (q div 2) * 2 ^ f64_exp (q div 2)"
    have "f64_exp q = Suc (f64_exp (q div 2))" using False by (subst f64_exp.simps) (simp only: if_False)
    then have "q div 2 ^ f64_exp q * 2 ^ f64_exp q = q div 2 div 2 ^ f64_exp (q div 2) * (2 * 2 ^ f64_exp (q div 2))"
      by (simp only: power_Suc div_mult2_eq)
    then have e: "q div 2 ^ f64_exp q * 2 ^ f64_exp q = 2 * ?r" by (simp only: mult.left_commute)
    have "2 ^ k \<le> 2 * ?r"
    proof (cases k)
      case 0
      from False have "2 ^ 0 \<le> q div 2" by simp
      from "1.IH" [OF False this] 0 show ?thesis by simp
    next
      case (Suc l)
      with "1.prems" have "2 ^ l \<le> q div 2" by simp
      from "1.IH" [OF False this] Suc show ?thesis by simp
    qed
    with e show ?thesis by simp
  qed
qed

lemma f64_round_ge:
  assumes "2 ^ k \<le> n div d" "f64_round s n d = DFin s' m"
  shows "2 ^ k \<le> m" "s' = s"
proof -
  let ?e = "f64_exp (n div d)"
  have "2 ^ k \<le> n div d div 2 ^ ?e * 2 ^ ?e" by (rule f64_exp_big [OF assms(1)])
  also have "\<dots> \<le> round_half_even n (d * 2 ^ ?e) * 2 ^ ?e"
    by (intro mult_right_mono) (simp_all add: round_half_even_def div_mult2_eq Let_def)
  also have "\<dots> = m" using assms(2) by (simp add: f64_round_def Let_def split: if_splits)
  finally show "2 ^ k \<le> m" .
  show "s' = s" using assms(2) by (simp add: f64_round_def Let_def split: if_splits)
qed

definition config_ok :: "config \<Rightarrow> bool" where
  "config_ok c \<longleftrightarrow> 1 \<le> log_count c \<and> \<not> f64_le (log_size c) (f64_of_int 0) \<and> log_level c \<in> set log_levels"

lemma derived_count:
  assumes "\<not> f64_lt v (f64_of_int 10)" "f64_to_int (f64_div v (f64_of_int 10)) = Ret n"
  shows "1 \<le> n \<and> n < 2 ^ 31 \<and> (\<exists>m. v = DFin False m \<and> 10 * 2 ^ 1074 \<le> m)"
proof -
  obtain s m where v: "v = DFin s m" using assms(2) by (cases v) (simp_all add: f64_of_int_def)
  with assms(1) have m: "\<not> s" "10 * 2 ^ 1074 \<le> m" by (auto simp: f64_of_int_def split: if_splits)
  obtain s' m' where r: "f64_round False (m * 2 ^ 1074) (10 * 2 ^ 1074) = DFin s' m'"
    using assms(2) v m by (cases "f64_round False (m * 2 ^ 1074) (10 * 2 ^ 1074)") (simp_all add: f64_of_int_def)
  have "2 ^ 1074 \<le> m * 2 ^ 1074 div (10 * 2 ^ 1074)" using m(2) by simp
  from f64_round_ge [OF this r] have "1 \<le> m' div 2 ^ 1074" "\<not> s'" by simp_all
  with assms(2) v m r show ?thesis by (auto simp: f64_of_int_def Let_def split: if_splits)
qed

lemma derived_size:
  assumes "10 * 2 ^ 1074 \<le> m" "1 \<le> n" "n < 2 ^ 31"
  shows "\<not> f64_le (f64_div (DFin False m) (f64_of_int n)) (f64_of_int 0)"
proof -
  let ?k = "nat n"
  have n: "f64_of_int n = DFin False (?k * 2 ^ 1074)" "0 < ?k" using assms(2) by (simp_all add: f64_of_int_def)
  have "?k * 1 \<le> m"
  proof -
    have "?k \<le> 2 ^ 31" using assms(3) by simp
    also have "(2 :: nat) ^ 31 \<le> 10 * 2 ^ 1074" by simp
    finally show ?thesis using assms(1) by simp
  qed
  then have "2 ^ 0 \<le> m * 2 ^ 1074 div (?k * 2 ^ 1074)" using n(2) by (simp add: Suc_le_eq div_greater_zero_iff)
  note big = f64_round_ge [OF this]
  show ?thesis
  proof (cases "f64_round False (m * 2 ^ 1074) (?k * 2 ^ 1074)")
    case DNaN
    then show ?thesis by (simp add: f64_round_def Let_def split: if_splits)
  next
    case (DInf s)
    then have "\<not> s" by (simp add: f64_round_def Let_def split: if_splits)
    with DInf n show ?thesis by (simp add: f64_of_int_def)
  next
    case (DFin s r)
    with big [OF DFin] n show ?thesis by (simp add: f64_of_int_def)
  qed
qed

lemma derive_rotation_ok:
  assumes "derive_rotation pa c = Ret c'" "config_ok c"
  shows "config_ok c'"
proof (cases "\<not> f64_lt (log_max_size c) (f64_of_int 10) \<and> \<not> pa_max_defaulted pa \<and> pa_size_defaulted pa \<and> pa_count_defaulted pa")
  case True
  with assms(1) obtain n where n: "f64_to_int (f64_div (log_max_size c) (f64_of_int 10)) = Ret n"
    "c' = c\<lparr>log_count := n, log_size := f64_div (log_max_size c) (f64_of_int n)\<rparr>"
    by (auto simp: derive_rotation_def res_bind_Ret_iff split: if_splits)
  from derived_count [OF _ n(1)] True obtain m where m: "1 \<le> n" "n < 2 ^ 31" "log_max_size c = DFin False m" "10 * 2 ^ 1074 \<le> m" by blast
  from derived_size [OF m(4,1,2)] n(2) m assms(2) show ?thesis by (simp add: config_ok_def)
qed (use assms in \<open>auto simp: derive_rotation_def split: if_splits\<close>)


text \<open>An example: no file and an upper case level on the command line.\<close>

definition ex_parse :: "config \<Rightarrow> (string \<Rightarrow> string) \<Rightarrow> parsed res" where
  "ex_parse d names = Ret \<lparr>pa_help = False, pa_values = d\<lparr>log_count := 0, log_level := ''INFO''\<rparr>,
     pa_size_defaulted = True, pa_count_defaulted = False, pa_max_defaulted = True\<rparr>"


text \<open>
  The total size is not checked from above: one that is not a number, infinite or too large makes the
  conversion to \<^verbatim>\<open>int\<close> undefined.
\<close>

lemma huge_log_size_undefined:
  assumes "log_max_size c \<in> {DNaN, DInf False}" "\<not> pa_max_defaulted pa" "pa_size_defaulted pa" "pa_count_defaulted pa"
  shows "derive_rotation pa c = Undef"
  using assms by (auto simp: derive_rotation_def f64_of_int_def)

end
