(* ===== verification/Rpc_Credentials.thy ===== *)
theory Rpc_Credentials
  imports Catena_Config Rpc_Core
begin

text \<open>
  \<^verbatim>\<open>ServiceCredentials.cpp\<close>: the credentials of the gRPC server, from the settings, the environment and
  the key files, and the check of the tokens that come with a call. The environment, the file system
  and the token library are arguments.
\<close>

section \<open>Files\<close>

text \<open>What the system says about a path; \<open>Unreadable\<close> exists with a size but cannot be read.\<close>

datatype file_state = Missing | StatFails | NoSize | Unreadable nat | File string

definition readFile :: "(string \<Rightarrow> file_state) \<Rightarrow> string \<Rightarrow> string res" where
  "readFile fs path =
     (case fs path of
        Missing \<Rightarrow> Ret []
      | StatFails \<Rightarrow> Ret []
      | NoSize \<Rightarrow> Throw RuntimeError
      | Unreadable n \<Rightarrow> Ret (replicate n CHR 0x00)
      | File s \<Rightarrow> Ret s)"

section \<open>Variables\<close>

text \<open>
  The first match of the regular expression: a dollar and an opening brace, at least one character
  other than a closing brace, and a closing brace. The result is the text before it, the name and the
  text after it.
\<close>

definition var_name :: "string \<Rightarrow> string option" where
  "var_name s =
     (case s of
        d # b # rest \<Rightarrow>
          (let name = takeWhile (\<lambda>c. c \<noteq> CHR ''}'') rest in
           if d = CHR ''$'' \<and> b = CHR ''{'' \<and> name \<noteq> [] \<and> length name < length rest then Some name else None)
      | _ \<Rightarrow> None)"

fun find_var :: "string \<Rightarrow> (string \<times> string \<times> string) option" where
  "find_var [] = None"
| "find_var (c # s) =
     (case var_name (c # s) of
        Some name \<Rightarrow> Some ([], name, drop (length name + 3) (c # s))
      | None \<Rightarrow> map_option (\<lambda>(before, name, after). (c # before, name, after)) (find_var s))"

definition env_value :: "(string \<Rightarrow> string option) \<Rightarrow> string \<Rightarrow> string" where
  "env_value env name = (case env name of None \<Rightarrow> [] | Some v \<Rightarrow> v)"

text \<open>The search starts again from the beginning after each replacement; None is a loop that does not end.\<close>

partial_function (option) expandEnvVariables :: "(string \<Rightarrow> string option) \<Rightarrow> string \<Rightarrow> string option" where
  "expandEnvVariables env s =
     (case find_var s of
        None \<Rightarrow> Some s
      | Some (before, name, after) \<Rightarrow> expandEnvVariables env (before @ env_value env name @ after))"

section \<open>Credentials\<close>

record tls_options =
  require_client_certificate :: bool
  pem_root_certs :: string
  private_key :: string
  cert_chain :: string
  token_processor :: bool

datatype server_credentials = Insecure | Tls tls_options

definition getServerCredentials :: "(string \<Rightarrow> string option) \<Rightarrow> (string \<Rightarrow> file_state) \<Rightarrow> config \<Rightarrow> server_credentials res option" where
  "getServerCredentials env fs conf =
     (if secure_comms conf = ''off'' then Some (Ret Insecure)
      else if secure_comms conf = ''tls'' then
        map_option (\<lambda>path_to_certs.
          res_bind (if private_ca conf then readFile fs (path_to_certs @ ''/'' @ ca_file conf) else Ret []) (\<lambda>ca_cert.
          res_bind (readFile fs (path_to_certs @ ''/'' @ key_file conf)) (\<lambda>server_key.
          res_bind (readFile fs (path_to_certs @ ''/'' @ cert_file conf)) (\<lambda>server_cert.
          Ret (Tls \<lparr>require_client_certificate = mutual_authc conf, pem_root_certs = ca_cert, private_key = server_key,
                    cert_chain = server_cert, token_processor = config_authz conf\<rparr>)))))
          (expandEnvVariables env (certs conf))
      else Some (Throw StdInvalidArgument))"

text \<open>The token processor: the status, and the claims that are added to the context of the call.\<close>

definition Process :: "jwt \<Rightarrow> (string \<times> string) list \<Rightarrow> StatusCode \<times> (string \<times> claim) list option" where
  "Process decode auth_metadata =
     (case map_of auth_metadata ''authorization'' of
        None \<Rightarrow> (PERMISSION_DENIED, None)
      | Some v \<Rightarrow>
          (case decode (drop (length ''Bearer '') v) of
             None \<Rightarrow> (PERMISSION_DENIED, None)
           | Some claims \<Rightarrow> (OK, Some claims)))"

section \<open>The expansion of variables\<close>

lemma var_name_Some:
  assumes "var_name s = Some name"
  shows "s = ''${'' @ name @ ''}'' @ drop (length name + 3) s \<and> name \<noteq> [] \<and> CHR ''}'' \<notin> set name"
proof -
  from assms obtain rest where s: "s = ''${'' @ rest" "name = takeWhile (\<lambda>c. c \<noteq> CHR ''}'') rest" "name \<noteq> []" "length name < length rest"
    by (auto simp: var_name_def Let_def split: list.splits if_splits)
  from s(2,4) obtain c t where t: "dropWhile (\<lambda>c. c \<noteq> CHR ''}'') rest = c # t"
    by (metis append_self_conv less_irrefl list.exhaust takeWhile_dropWhile_id)
  then have c: "c = CHR ''}''" using hd_dropWhile [of "\<lambda>c. c \<noteq> CHR ''}''" rest] by simp
  have rest: "rest = name @ ''}'' @ t" using takeWhile_dropWhile_id [of "\<lambda>c. c \<noteq> CHR ''}''" rest] s(2) t c by simp
  have "CHR ''}'' \<notin> set name" using s(2) set_takeWhileD by fastforce
  moreover have "drop (length name + 3) s = t" unfolding s(1) rest by (simp add: numeral_3_eq_3)
  ultimately show ?thesis using s(1,3) rest by simp
qed

lemma find_var_split:
  "find_var s = Some (before, name, after) \<Longrightarrow> s = before @ ''${'' @ name @ ''}'' @ after \<and> name \<noteq> [] \<and> CHR ''}'' \<notin> set name"
proof (induction s arbitrary: before)
  case (Cons c s)
  show ?case
  proof (cases "var_name (c # s)")
    case None
    with Cons.prems obtain b where b: "before = c # b" "find_var s = Some (b, name, after)" by (auto split: prod.splits)
    with Cons.IH [OF b(2)] show ?thesis by simp
  next
    case (Some n)
    with Cons.prems var_name_Some [OF Some] show ?thesis by auto
  qed
qed simp

text \<open>
  The expansion ends for every text when no variable of the environment has a dollar in its value,
  and leaves no variable in the text; a text without variables is not changed.
\<close>

theorem expand_terminates:
  assumes "\<forall>name v. env name = Some v \<longrightarrow> CHR ''$'' \<notin> set v"
  shows "\<exists>r. expandEnvVariables env s = Some r \<and> find_var r = None \<and> (find_var s = None \<longrightarrow> r = s)"
proof (induction "length (filter ((=) CHR ''$'') s)" arbitrary: s rule: less_induct)
  case less
  show ?case
  proof (cases "find_var s")
    case None
    then show ?thesis by (subst expandEnvVariables.simps) simp
  next
    case (Some x)
    obtain b n a where x: "x = (b, n, a)" by (cases x)
    let ?s = "b @ env_value env n @ a"
    from find_var_split [of s b n a] Some x have s: "s = b @ ''${'' @ n @ ''}'' @ a" by simp
    have "CHR ''$'' \<notin> set (env_value env n)" using assms by (auto simp: env_value_def split: option.splits)
    then have "filter ((=) CHR ''$'') (env_value env n) = []" by (auto simp: filter_empty_conv)
    then have "length (filter ((=) CHR ''$'') ?s) < length (filter ((=) CHR ''$'') s)" unfolding s by simp
    from less.hyps [OF this] Some x show ?thesis by (subst expandEnvVariables.simps) auto
  qed
qed

text \<open>The default directory of the certificates below the home directory.\<close>

theorem expand_terminates_witness:
  "\<exists>r. expandEnvVariables (\<lambda>name. if name = ''HOME'' then Some ''/root'' else None) ''${HOME}/test_certs'' = Some r \<and> find_var r = None"
proof -
  let ?env = "\<lambda>name. if name = ''HOME'' then Some ''/root'' else None"
  have "\<forall>name v. ?env name = Some v \<longrightarrow> CHR ''$'' \<notin> set v" by simp
  from expand_terminates [OF this, of "''${HOME}/test_certs''"] show ?thesis by blast
qed

text \<open>A variable whose value names itself keeps the server from starting: the loop does not end.\<close>

lemma self_reference_diverges:
  "expandEnvVariables (\<lambda>_. Some ''${A}'') ''${A}'' = None"
proof -
  have "expandEnvVariables env s = Some r \<Longrightarrow> env = (\<lambda>_. Some ''${A}'') \<longrightarrow> s = ''${A}'' \<longrightarrow> False" for env s r
    by (rule expandEnvVariables.raw_induct [of "\<lambda>env s r. env = (\<lambda>_. Some ''${A}'') \<longrightarrow> s = ''${A}'' \<longrightarrow> False"])
      (auto simp: var_name_def env_value_def Let_def split: option.splits, blast)
  then show ?thesis by (cases "expandEnvVariables (\<lambda>_. Some ''${A}'') ''${A}''") auto
qed

text \<open>
  The server is only insecure when the settings say so; otherwise it uses the keys, the authority, the
  verification of clients and the check of tokens that are configured, or does not start. The keys
  are those in the files of the expanded directory.
\<close>

theorem credentials_as_configured:
  assumes "getServerCredentials env fs conf = Some (Ret cr)"
  shows "(cr = Insecure \<longleftrightarrow> secure_comms conf = ''off'')
     \<and> (\<forall>opts. cr = Tls opts \<longrightarrow> secure_comms conf = ''tls''
          \<and> require_client_certificate opts = mutual_authc conf \<and> token_processor opts = config_authz conf
          \<and> (\<exists>dir. expandEnvVariables env (certs conf) = Some dir \<and> readFile fs (dir @ ''/'' @ key_file conf) = Ret (private_key opts)
               \<and> readFile fs (dir @ ''/'' @ cert_file conf) = Ret (cert_chain opts)
               \<and> (private_ca conf \<longrightarrow> readFile fs (dir @ ''/'' @ ca_file conf) = Ret (pem_root_certs opts))))"
  using assms
  by (cases "expandEnvVariables env (certs conf)")
    (auto simp: getServerCredentials_def res_bind_Ret_iff split: if_splits)

text \<open>A key file that does not exist is read as an empty key, and the server starts with it.\<close>

lemma missing_key_accepted:
  "expandEnvVariables env (certs conf) = Some dir \<Longrightarrow> secure_comms conf = ''tls'' \<Longrightarrow> \<not> private_ca conf
     \<Longrightarrow> getServerCredentials env (\<lambda>_. Missing) conf
       = Some (Ret (Tls \<lparr>require_client_certificate = mutual_authc conf, pem_root_certs = [], private_key = [], cert_chain = [],
                         token_processor = config_authz conf\<rparr>))"
  by (simp add: getServerCredentials_def readFile_def)

text \<open>
  A call passes the processor only with a token that decodes. The first seven characters are dropped
  without a look at them, so any scheme of that length passes for a bearer token.
\<close>

lemma Process_decodes:
  "fst (Process decode md) = OK \<Longrightarrow> \<exists>v claims. map_of md ''authorization'' = Some v \<and> decode (drop 7 v) = Some claims"
  by (auto simp: Process_def eval_nat_numeral split: option.splits)

end
