(* ===== verification/Rest_Http.thy ===== *)
theory Rest_Http
  imports Catena_Utils Catena_Device
begin

text \<open>
  HTTP requests and responses of the REST service: \<^verbatim>\<open>SocketReader.cpp\<close> and \<^verbatim>\<open>SocketWriter.cpp\<close>. What the
  socket delivers is an argument: the bytes up to and beyond the end of the headers, and the answer
  to the request for the rest of the body. The url library and the conversion of messages to json
  are arguments too.
\<close>

section \<open>Methods and text\<close>

datatype RESTMethod =
    Method_NONE | Method_GET | Method_POST | Method_PUT | Method_PATCH | Method_DELETE | Method_HEAD | Method_OPTIONS

fun method_name :: "RESTMethod \<Rightarrow> string" where
  "method_name Method_NONE = ''NONE''"
| "method_name Method_GET = ''GET''"
| "method_name Method_POST = ''POST''"
| "method_name Method_PUT = ''PUT''"
| "method_name Method_PATCH = ''PATCH''"
| "method_name Method_DELETE = ''DELETE''"
| "method_name Method_HEAD = ''HEAD''"
| "method_name Method_OPTIONS = ''OPTIONS''"

definition all_methods :: "RESTMethod list" where
  "all_methods = [Method_NONE, Method_GET, Method_POST, Method_PUT, Method_PATCH, Method_DELETE, Method_HEAD, Method_OPTIONS]"

definition method_of :: "string \<Rightarrow> RESTMethod" where
  "method_of s = (case map_of (map (\<lambda>m. (method_name m, m)) all_methods) s of None \<Rightarrow> Method_NONE | Some m \<Rightarrow> m)"

fun detail_level_name :: "DetailLevel \<Rightarrow> string" where
  "detail_level_name FULL = ''FULL''"
| "detail_level_name SUBSCRIPTIONS = ''SUBSCRIPTIONS''"
| "detail_level_name MINIMAL = ''MINIMAL''"
| "detail_level_name COMMANDS = ''COMMANDS''"
| "detail_level_name NONE = ''NONE''"
| "detail_level_name UNSET = ''UNSET''"

definition detail_level_of :: "string \<Rightarrow> DetailLevel option" where
  "detail_level_of s =
     map_of (map (\<lambda>dl. (detail_level_name dl, dl)) [FULL, SUBSCRIPTIONS, MINIMAL, COMMANDS, NONE, UNSET]) s"

abbreviation CR :: char where "CR \<equiv> CHR 0x0D"
abbreviation LF :: char where "LF \<equiv> CHR 0x0A"
abbreviation TAB :: char where "TAB \<equiv> CHR 0x09"

text \<open>Only \<^verbatim>\<open>A\<close> to \<^verbatim>\<open>Z\<close> are folded.\<close>

definition fold_case :: "char \<Rightarrow> char" where
  "fold_case c = (let n = of_char c :: nat in if 65 \<le> n \<and> n \<le> 90 then char_of (n + 32) else c)"

definition same_letter :: "char \<Rightarrow> char \<Rightarrow> bool" where
  "same_letter c lower \<longleftrightarrow> c = lower \<or> fold_case c = lower"

definition iequals_header_name :: "string \<Rightarrow> string \<Rightarrow> bool" where
  "iequals_header_name a b \<longleftrightarrow> length a = length b \<and> list_all2 same_letter a b"

definition valid_content_type :: "string \<Rightarrow> string \<Rightarrow> bool" where
  "valid_content_type s contentType \<longleftrightarrow>
     length s \<ge> length contentType \<and> list_all2 same_letter (take (length contentType) s) contentType
     \<and> (length contentType = length s \<or> s ! length contentType = CHR '';'')"

definition is_space :: "char \<Rightarrow> bool" where
  "is_space c \<longleftrightarrow> (let n = of_char c :: nat in n = 32 \<or> 9 \<le> n \<and> n \<le> 13)"

text \<open>\<^verbatim>\<open>std::stoi\<close>: the value and the number of characters read.\<close>

definition stoi :: "string \<Rightarrow> (int \<times> nat) res" where
  "stoi s =
     (let sp = takeWhile is_space s;
          rest = dropWhile is_space s;
          sgn = (if rest \<noteq> [] \<and> (hd rest = CHR ''-'' \<or> hd rest = CHR ''+'') then [hd rest] else []);
          ds = takeWhile is_digit (drop (length sgn) rest);
          v = (if sgn = ''-'' then - int (nat_of_dec ds) else int (nat_of_dec ds)) in
      if ds = [] then Throw StdInvalidArgument
      else if v < - (2 ^ 31) \<or> v \<ge> 2 ^ 31 then Throw StdOutOfRange
      else Ret (v, length sp + length sgn + length ds))"

text \<open>\<^verbatim>\<open>std::getline\<close>: None when the stream is at its end.\<close>

definition getline :: "string \<Rightarrow> (string \<times> string) option" where
  "getline s = (if s = [] then None else Some (takeWhile (\<lambda>c. c \<noteq> LF) s, drop 1 (dropWhile (\<lambda>c. c \<noteq> LF) s)))"

lemma getline_shorter: "getline s = Some (l, rest) \<Longrightarrow> length rest < length s"
  using length_dropWhile_le [of "\<lambda>c. c \<noteq> LF" s]
  by (auto simp: getline_def simp flip: length_greater_0_conv split: if_splits)

text \<open>\<^verbatim>\<open>operator>>\<close> into a string.\<close>

definition next_word :: "string \<Rightarrow> string \<times> string" where
  "next_word s =
     (let t = dropWhile is_space s in (takeWhile (\<lambda>c. \<not> is_space c) t, dropWhile (\<lambda>c. \<not> is_space c) t))"

section \<open>SocketReader\<close>

record socket_reader =
  rd_method :: RESTMethod
  rd_slot :: u32
  endpoint :: string
  rd_fqoid :: string
  stream :: bool
  origin :: string
  rd_detailLevel :: DetailLevel
  rd_jwsToken :: string
  jsonBody :: string
  rd_fields :: "(string \<times> string) list"
  rd_requestStart :: int
  rd_requestReceived :: int

datatype sock_read = Bytes string | TimedOut | ReadFailed

definition sock_bytes :: "sock_read \<Rightarrow> string res" where
  "sock_bytes r =
     (case r of
        Bytes s \<Rightarrow> Ret s
      | TimedOut \<Rightarrow> Throw (ExceptionWithStatus DEADLINE_EXCEEDED)
      | ReadFailed \<Rightarrow> Throw (ExceptionWithStatus UNKNOWN))"

definition parse_path :: "string \<Rightarrow> socket_reader \<Rightarrow> socket_reader res" where
  "parse_path upath r =
     (let path = split upath ''/'' in
      if length path \<ge> 4 \<and> path ! 1 = ''st2138-api'' \<and> path ! 2 = ''v1'' then
        (let r1 = (case stoi (path ! 3) of
                     Ret (n, _) \<Rightarrow> r\<lparr>rd_slot := word_of_int n\<rparr>
                   | _ \<Rightarrow> r\<lparr>endpoint := CHR ''/'' # path ! 3\<rparr>);
             (path', r2) = (if last path = ''stream'' then (butlast path, r1\<lparr>stream := True\<rparr>) else (path, r1));
             segs = (if endpoint r2 = [] then drop 5 path' else drop 4 path') in
         if length path' > 4 then
           Ret (r2\<lparr>endpoint := (if endpoint r2 = [] then CHR ''/'' # path' ! 4 else endpoint r2),
                   rd_fqoid := rd_fqoid r2 @ concat (map (\<lambda>s. CHR ''/'' # s) segs)\<rparr>)
         else Ret r2)
      else Throw (ExceptionWithStatus INVALID_ARGUMENT))"

definition trim :: "string \<Rightarrow> string" where
  "trim s =
     rev (dropWhile (\<lambda>c. c = CR \<or> c = CHR '' '' \<or> c = TAB)
       (rev (dropWhile (\<lambda>c. c = CHR '' '' \<or> c = TAB) s)))"

definition content_length :: "string \<Rightarrow> nat res" where
  "content_length value =
     (if value = [] \<or> hd value = CHR ''-'' then Throw (ExceptionWithStatus INVALID_ARGUMENT)
      else case stoi value of
        Ret (n, processed) \<Rightarrow>
          if processed < length value then Throw (ExceptionWithStatus INVALID_ARGUMENT) else Ret (nat (n mod 2 ^ 64))
      | _ \<Rightarrow> Throw (ExceptionWithStatus INVALID_ARGUMENT))"

text \<open>One header line; the state also holds \<^verbatim>\<open>contentLength\<close> and \<^verbatim>\<open>hasContentType\<close>.\<close>

definition read_header :: "bool \<Rightarrow> string \<Rightarrow> socket_reader \<times> nat \<times> bool \<Rightarrow> (socket_reader \<times> nat \<times> bool) res" where
  "read_header authz header st =
     (let (r, contentLength, hasContentType) = st in
      if CHR '':'' \<notin> set header then Ret st
      else let name = takeWhile (\<lambda>c. c \<noteq> CHR '':'') header;
               value = trim (drop 1 (dropWhile (\<lambda>c. c \<noteq> CHR '':'') header)) in
        if authz \<and> rd_jwsToken r = [] \<and> iequals_header_name name ''authorization'' then
          (if starts_with value ''Bearer '' then Ret (r\<lparr>rd_jwsToken := drop (length ''Bearer '') value\<rparr>, contentLength, hasContentType)
           else Ret st)
        else if origin r = [] \<and> iequals_header_name name ''origin'' then
          Ret (r\<lparr>origin := value\<rparr>, contentLength, hasContentType)
        else if rd_detailLevel r = UNSET \<and> iequals_header_name name ''detail-level'' then
          (case detail_level_of value of
             None \<Rightarrow> Ret st
           | Some dl \<Rightarrow> Ret (r\<lparr>rd_detailLevel := dl\<rparr>, contentLength, hasContentType))
        else if rd_requestStart r = 0 \<and> iequals_header_name name ''request-start'' then
          Ret (r\<lparr>rd_requestStart := snd (readTimestamp value (rd_requestStart r))\<rparr>, contentLength, hasContentType)
        else if contentLength = 0 \<and> iequals_header_name name ''content-length'' then
          res_bind (content_length value) (\<lambda>n. Ret (r, n, hasContentType))
        else if iequals_header_name name ''content-type'' then
          (if valid_content_type value ''application/json'' then Ret (r, contentLength, True)
           else Throw (ExceptionWithStatus INVALID_ARGUMENT))
        else Ret st)"

text \<open>The loop over the header lines, and what is left of the stream after it.\<close>

function read_headers :: "bool \<Rightarrow> string \<Rightarrow> socket_reader \<times> nat \<times> bool \<Rightarrow> ((socket_reader \<times> nat \<times> bool) \<times> string) res" where
  "read_headers authz s st =
     (case getline s of
        None \<Rightarrow> Ret (st, [])
      | Some (header, rest) \<Rightarrow>
          if header = [CR] then Ret (st, rest)
          else res_bind (read_header authz header st) (read_headers authz rest))"
  by pat_completeness auto
termination
  by (relation "measure (\<lambda>(authz, s, st). length s)") (auto dest: getline_shorter)

declare read_headers.simps [simp del]

definition read_body :: "(nat \<Rightarrow> sock_read) \<Rightarrow> nat \<Rightarrow> bool \<Rightarrow> string \<Rightarrow> string res" where
  "read_body further contentLength hasContentType body =
     (if contentLength = 0 \<and> body \<noteq> [] then Throw (ExceptionWithStatus DATA_LOSS)
      else if contentLength > 0 then
        (if \<not> hasContentType then Throw (ExceptionWithStatus INVALID_ARGUMENT)
         else if length body < contentLength then
           res_bind (sock_bytes (further (contentLength - length body))) (\<lambda>rest. Ret (body @ rest))
         else if length body > contentLength then Throw (ExceptionWithStatus DATA_LOSS)
         else Ret body)
      else Ret body)"

definition fresh_reader :: "(string \<times> string) list \<Rightarrow> int \<Rightarrow> socket_reader" where
  "fresh_reader flds now =
     \<lparr>rd_method = Method_NONE, rd_slot = 0, endpoint = [], rd_fqoid = [], stream = False, origin = [],
      rd_detailLevel = UNSET, rd_jwsToken = [], jsonBody = [], rd_fields = flds, rd_requestStart = 0, rd_requestReceived = now\<rparr>"

text \<open>
  \<open>url_view\<close> gives the decoded path and the query parameters of a url, or throws. \<open>head\<close> is the
  result of the read up to the end of the headers, \<open>further n\<close> of the read of \<open>n\<close> more bytes.
\<close>

definition read :: "(string \<Rightarrow> (string \<times> (string \<times> string) list) res) \<Rightarrow> bool \<Rightarrow> int \<Rightarrow> sock_read \<Rightarrow> (nat \<Rightarrow> sock_read)
    \<Rightarrow> socket_reader \<Rightarrow> socket_reader res" where
  "read url_view authz now head further old =
     res_bind (sock_bytes head) (\<lambda>buffer.
     let (header, rest) = (case getline buffer of None \<Rightarrow> ([], []) | Some x \<Rightarrow> x);
         (methodStr, after_method) = next_word header;
         url = fst (next_word after_method);
         r0 = (fresh_reader (rd_fields old) now)\<lparr>rd_method := method_of methodStr\<rparr> in
     res_bind (url_view url) (\<lambda>(upath, params).
     res_bind (parse_path upath r0) (\<lambda>r1.
     let r2 = r1\<lparr>rd_fields := fold (\<lambda>(k, v). AList.update k v) params (rd_fields r1)\<rparr> in
     res_bind (read_headers authz rest (r2, 0, False)) (\<lambda>((r3, contentLength, hasContentType), body).
     res_bind (read_body further contentLength hasContentType body) (\<lambda>json.
     Ret (r3\<lparr>jsonBody := json,
             rd_detailLevel := (if rd_detailLevel r3 = UNSET then NONE else rd_detailLevel r3)\<rparr>))))))"

section \<open>SocketWriter\<close>

text \<open>The status line of a status; every status has one.\<close>

fun codeMap :: "StatusCode \<Rightarrow> nat \<times> string" where
  "codeMap OK = (200, ''OK'')"
| "codeMap CREATED = (201, ''Created'')"
| "codeMap ACCEPTED = (202, ''Accepted'')"
| "codeMap NO_CONTENT = (204, ''No Content'')"
| "codeMap ALREADY_EXISTS = (208, ''Already Reported'')"
| "codeMap CANCELLED = (400, ''Cancelled'')"
| "codeMap INVALID_ARGUMENT = (400, ''Bad Request'')"
| "codeMap UNAUTHENTICATED = (401, ''Unauthorized'')"
| "codeMap PERMISSION_DENIED = (403, ''Forbidden'')"
| "codeMap NOT_FOUND = (404, ''Not Found'')"
| "codeMap METHOD_NOT_ALLOWED = (405, ''Method Not Allowed'')"
| "codeMap DEADLINE_EXCEEDED = (408, ''Request Timeout'')"
| "codeMap CONFLICT = (409, ''Conflict'')"
| "codeMap ABORTED = (409, ''Conflict'')"
| "codeMap FAILED_PRECONDITION = (412, ''Precondition Failed'')"
| "codeMap UNPROCESSABLE_ENTITY = (422, ''Unprocessable Entity'')"
| "codeMap RESOURCE_EXHAUSTED = (429, ''Too Many Requests'')"
| "codeMap TOO_MANY_REQUESTS = (429, ''Too Many Requests'')"
| "codeMap OUT_OF_RANGE = (416, ''Range Not Satisfiable'')"
| "codeMap BAD_GATEWAY = (502, ''Bad Gateway'')"
| "codeMap UNIMPLEMENTED = (501, ''Not Implemented'')"
| "codeMap INTERNAL = (500, ''Internal Server Error'')"
| "codeMap UNKNOWN = (500, ''Internal Server Error'')"
| "codeMap DATA_LOSS = (500, ''Internal Server Error'')"
| "codeMap DO_NOT_USE = (500, ''Internal Server Error'')"
| "codeMap SERVICE_UNAVAILABLE = (503, ''Service Unavailable'')"
| "codeMap UNAVAILABLE = (503, ''Service Unavailable'')"
| "codeMap GATEWAY_TIMEOUT = (504, ''Gateway Timeout'')"

text \<open>
  A response as the client sees it; the fixed headers are left out. \<open>rs_length\<close> is the value of
  \<^verbatim>\<open>Content-Length\<close>, which only \<^verbatim>\<open>SocketWriter\<close> sends.
\<close>

datatype response =
    Response (rs_code: nat) (rs_origin: string) (rs_length: nat) (rs_body: string)
  | SseHead nat string
  | SseData string

text \<open>A client is answered by one response, or by the head of a stream and its events.\<close>

fun is_response :: "response \<Rightarrow> bool" where
  "is_response (Response code orig n body) = True"
| "is_response _ = False"

definition one_answer :: "response list \<Rightarrow> bool" where
  "one_answer out \<longleftrightarrow> (\<exists>r. out = [r] \<and> is_response r) \<or> (\<exists>c orig js. out = SseHead c orig # map SseData js)"

record socket_writer =
  wr_origin :: string
  buffer :: bool
  wr_jsonBody :: string

text \<open>
  The message is its json text, Inr None where the conversion fails and Inl for \<^verbatim>\<open>st2138.Empty\<close>.
\<close>

type_synonym json = "unit + string option"

definition sendResponse :: "socket_writer \<Rightarrow> StatusCode \<Rightarrow> json \<Rightarrow> socket_writer \<times> response list" where
  "sendResponse w err msg =
     (let code0 = fst (codeMap err);
          convert = (code0 < 300 \<and> msg \<noteq> Inl ());
          out = (if convert then (case msg of Inr (Some j) \<Rightarrow> j | _ \<Rightarrow> []) else []);
          code = (if convert \<and> msg = Inr None then fst (codeMap INVALID_ARGUMENT) else code0);
          body1 = (if convert \<and> msg \<noteq> Inr None
                   then (if wr_jsonBody w = [] then out else wr_jsonBody w @ '','' @ out)
                   else wr_jsonBody w) in
      if \<not> buffer w \<or> out = [] then
        (let body2 = (if code \<ge> 300 then [] else body1);
             body3 = (if buffer w \<and> body2 \<noteq> [] then ''{\"data\":['' @ body2 @ '']}'' else body2) in
         (w\<lparr>wr_jsonBody := body3\<rparr>, [Response code (wr_origin w) (length body3) body3]))
      else (w\<lparr>wr_jsonBody := body1\<rparr>, []))"

record sse_writer =
  sse_origin :: string
  headers_sent :: bool

definition sse_sendResponse :: "sse_writer \<Rightarrow> StatusCode \<Rightarrow> json \<Rightarrow> sse_writer \<times> response list" where
  "sse_sendResponse w err msg =
     (let code = (if msg = Inr None then fst (codeMap INVALID_ARGUMENT) else fst (codeMap err));
          out = (case msg of Inr (Some j) \<Rightarrow> j | _ \<Rightarrow> []) in
      (w\<lparr>headers_sent := True\<rparr>,
       (if headers_sent w then [] else [SseHead code (sse_origin w)])
       @ (if code < 300 \<and> out \<noteq> [] then [SseData out] else [])))"

section \<open>Reading what a client writes\<close>

lemma getline_line: "LF \<notin> set l \<Longrightarrow> getline (l @ LF # rest) = Some (l, rest)"
  by (auto simp: getline_def takeWhile_append dropWhile_append)

lemma next_word_space: "is_space c \<Longrightarrow> next_word (c # s) = next_word s"
  by (simp add: next_word_def)

lemma next_word_word:
  assumes "list_all (\<lambda>c. \<not> is_space c) w" "w \<noteq> []" "is_space c"
  shows "next_word (w @ c # s) = (w, c # s)"
proof -
  have w: "\<forall>x \<in> set w. \<not> is_space x" using assms(1) by (simp add: list_all_iff)
  then have "dropWhile is_space (w @ c # s) = w @ c # s" using assms(2) by (cases w) auto
  with w assms(3) show ?thesis by (simp add: next_word_def takeWhile_append dropWhile_append)
qed

lemma digit_not_space: "is_digit c \<Longrightarrow> \<not> is_space c"
  by (auto simp: is_digit_def is_space_def Let_def)

lemma dec_of_nat_takeWhile [simp]: "takeWhile is_digit (dec_of_nat n) = dec_of_nat n"
  using dec_of_nat_digits [of n] by (simp add: list_all_iff)

lemma dec_of_nat_hd: "is_digit (hd (dec_of_nat n))"
  using dec_of_nat_digits [of n] dec_of_nat_nonempty [of n] by (cases "dec_of_nat n") auto

lemma stoi_dec:
  assumes "n < 2 ^ 31"
  shows "stoi (dec_of_nat n) = Ret (int n, length (dec_of_nat n))"
proof -
  have h: "is_digit (hd (dec_of_nat n))" "dec_of_nat n \<noteq> []" by (simp_all add: dec_of_nat_hd)
  then have "hd (dec_of_nat n) \<noteq> CHR ''-''" "hd (dec_of_nat n) \<noteq> CHR ''+''" by (auto simp: is_digit_def)
  moreover have "takeWhile is_space (dec_of_nat n) = []" "dropWhile is_space (dec_of_nat n) = dec_of_nat n"
    using h digit_not_space by (cases "dec_of_nat n"; auto)+
  ultimately show ?thesis using assms h(2) by (simp add: stoi_def Let_def)
qed

lemma content_length_dec: "n < 2 ^ 31 \<Longrightarrow> content_length (dec_of_nat n) = Ret n"
  using dec_of_nat_hd [of n] by (auto simp: content_length_def stoi_dec is_digit_def)

lemma find_sub_first: "c \<notin> set x \<Longrightarrow> find_sub [c] (x @ c # s) = Some (length x)"
  by (induction x) (auto simp: starts_with_def)

lemma pieces_slashes:
  "list_all (\<lambda>s. CHR ''/'' \<notin> set s) (x # segs) \<Longrightarrow>
     pieces ''/'' (x @ concat (map (\<lambda>s. CHR ''/'' # s) segs)) = x # segs"
proof (induction segs arbitrary: x)
  case Nil
  then show ?case by (simp add: pieces_no_occurrence find_sub_absent)
next
  case (Cons y segs)
  then have "find_sub ''/'' (x @ concat (map (\<lambda>s. CHR ''/'' # s) (y # segs))) = Some (length x)"
    using find_sub_first [of "CHR ''/''" x] by simp
  with Cons show ?case by (subst pieces.simps) simp
qed

lemma split_slashes:
  assumes "list_all (\<lambda>s. CHR ''/'' \<notin> set s) segs" "length segs < 1000"
  shows "split (concat (map (\<lambda>s. CHR ''/'' # s) segs)) ''/'' = [] # segs"
  using pieces_slashes [of "[]" segs] assms by (simp add: split_pieces occurrences_def)

text \<open>The value of a header as a client writes it: no line break and nothing to trim.\<close>

definition plain :: "string \<Rightarrow> bool" where
  "plain v \<longleftrightarrow> v \<noteq> [] \<and> LF \<notin> set v \<and> hd v \<notin> {CHR '' '', TAB} \<and> last v \<notin> {CR, CHR '' '', TAB}"

lemma trim_plain:
  assumes "plain v"
  shows "trim (CHR '' '' # v @ [CR]) = v"
proof -
  from assms have "dropWhile (\<lambda>c. c = CHR '' '' \<or> c = TAB) (v @ [CR]) = v @ [CR]" by (cases v) (auto simp: plain_def)
  moreover from assms have "dropWhile (\<lambda>c. c = CR \<or> c = CHR '' '' \<or> c = TAB) (rev v) = rev v"
    by (cases v rule: rev_cases) (auto simp: plain_def)
  ultimately show ?thesis by (simp add: trim_def)
qed

definition header_line :: "string \<times> string \<Rightarrow> string" where
  "header_line h = fst h @ '': '' @ snd h @ [CR]"

text \<open>A request as a client sends it.\<close>

definition http_request :: "RESTMethod \<Rightarrow> string \<Rightarrow> (string \<times> string) list \<Rightarrow> string \<Rightarrow> string" where
  "http_request m target hs body =
     method_name m @ CHR '' '' # target @ '' HTTP/1.1'' @ CR # LF # concat (map (\<lambda>h. header_line h @ [LF]) hs) @ CR # LF # body"

lemma read_headers_end: "read_headers authz (CR # LF # body) st = Ret (st, body)"
  using getline_line [of "[CR]" body] by (subst read_headers.simps) simp

lemma read_headers_line:
  assumes "LF \<notin> set (fst h)" "CHR '':'' \<notin> set (fst h)" "fst h \<noteq> []" "plain (snd h)"
  shows "read_headers authz ((header_line h @ [LF]) @ rest) st = res_bind (read_header authz (header_line h) st) (read_headers authz rest)"
proof -
  have "getline ((header_line h @ [LF]) @ rest) = Some (header_line h, rest)"
    using getline_line [of "header_line h" rest] assms by (auto simp: header_line_def plain_def)
  moreover have "header_line h \<noteq> [CR]" using assms(3) by (auto simp: header_line_def Cons_eq_append_conv append_eq_Cons_conv)
  ultimately show ?thesis by (subst read_headers.simps) simp
qed

lemma read_header_parts:
  assumes "CHR '':'' \<notin> set (fst h)" "plain (snd h)"
  shows "CHR '':'' \<in> set (header_line h)" "takeWhile (\<lambda>c. c \<noteq> CHR '':'') (header_line h) = fst h"
    "trim (drop 1 (dropWhile (\<lambda>c. c \<noteq> CHR '':'') (header_line h))) = snd h"
  using assms trim_plain [OF assms(2)] by (auto simp: header_line_def takeWhile_append dropWhile_append)

lemma header_names:
  "map (iequals_header_name ''Authorization'') [''authorization'', ''origin'', ''detail-level'', ''request-start'', ''content-length'', ''content-type'']
     = [True, False, False, False, False, False]"
  "map (iequals_header_name ''Detail-Level'') [''authorization'', ''origin'', ''detail-level'', ''request-start'', ''content-length'', ''content-type'']
     = [False, False, True, False, False, False]"
  "map (iequals_header_name ''Content-Type'') [''authorization'', ''origin'', ''detail-level'', ''request-start'', ''content-length'', ''content-type'']
     = [False, False, False, False, False, True]"
  "map (iequals_header_name ''Content-Length'') [''authorization'', ''origin'', ''detail-level'', ''request-start'', ''content-length'', ''content-type'']
     = [False, False, False, False, True, False]"
  by code_simp+

lemmas header_tests = header_names [simplified]

lemma detail_level_of_name [simp]: "detail_level_of (detail_level_name dl) = Some dl"
  by (cases dl) (simp_all add: detail_level_of_def)

lemma method_of_name [simp]: "method_of (method_name m) = m"
  by (cases m) (simp_all add: method_of_def all_methods_def)

lemma detail_level_name_plain: "plain (detail_level_name dl)"
  by (cases dl) (simp_all add: plain_def)

lemma dec_of_nat_plain: "plain (dec_of_nat n)"
proof -
  have d: "\<forall>c \<in> set (dec_of_nat n). is_digit c" "dec_of_nat n \<noteq> []" using dec_of_nat_digits [of n] by (simp_all add: list_all_iff)
  then have "is_digit (hd (dec_of_nat n))" "is_digit (last (dec_of_nat n))" by simp_all
  moreover have "\<not> is_digit LF" "\<not> is_digit CR" "\<not> is_digit TAB" "\<not> is_digit CHR '' ''" by (simp_all add: is_digit_def)
  ultimately show ?thesis using d unfolding plain_def by (metis (full_types) empty_iff insert_iff)
qed

lemma parse_path_request:
  assumes "list_all (\<lambda>s. CHR ''/'' \<notin> set s) (ep # oids)" "length oids < 990" "last (ep # oids) \<noteq> ''stream''" "n < 2 ^ 31"
    and "endpoint r = []" "rd_fqoid r = []"
  shows "parse_path (concat (map (\<lambda>s. CHR ''/'' # s) (''st2138-api'' # ''v1'' # dec_of_nat n # ep # oids))) r
     = Ret (r\<lparr>rd_slot := word_of_int (int n), endpoint := CHR ''/'' # ep, rd_fqoid := concat (map (\<lambda>s. CHR ''/'' # s) oids)\<rparr>)"
proof -
  have "\<not> is_digit CHR ''/''" by (simp add: is_digit_def)
  then have "CHR ''/'' \<notin> set (dec_of_nat n)" using dec_of_nat_digits [of n] by (auto simp: list_all_iff)
  then have "split (concat (map (\<lambda>s. CHR ''/'' # s) (''st2138-api'' # ''v1'' # dec_of_nat n # ep # oids))) ''/''
      = [] # ''st2138-api'' # ''v1'' # dec_of_nat n # ep # oids"
    using assms(1,2) by (intro split_slashes) auto
  with assms stoi_dec [OF assms(4)] show ?thesis by (auto simp: parse_path_def Let_def)
qed

lemma read_body_request:
  assumes "body = b1 @ b2" "body \<noteq> []" "further (length b2) = Bytes b2"
  shows "read_body further (length body) True b1 = Ret body"
  using assms by (cases "b2 = []") (auto simp: read_body_def sock_bytes_def)

definition client_headers :: "string \<Rightarrow> DetailLevel \<Rightarrow> nat \<Rightarrow> (string \<times> string) list" where
  "client_headers token dl n =
     [(''Authorization'', ''Bearer '' @ token), (''Detail-Level'', detail_level_name dl),
      (''Content-Type'', ''application/json''), (''Content-Length'', dec_of_nat n)]"

lemma read_headers_request:
  assumes "plain token" "n < 2 ^ 31" "rd_jwsToken r = []" "rd_detailLevel r = UNSET"
  shows "read_headers authz (concat (map (\<lambda>h. header_line h @ [LF]) (client_headers token dl n)) @ CR # LF # body) (r, 0, False)
     = Ret ((r\<lparr>rd_jwsToken := (if authz then token else []), rd_detailLevel := dl\<rparr>, n, True), body)"
proof -
  have p: "plain (''Bearer '' @ token)" "plain ''application/json''" using assms(1) by (auto simp: plain_def)
  let ?h1 = "(''Authorization'', ''Bearer '' @ token)" and ?h2 = "(''Detail-Level'', detail_level_name dl)"
    and ?h3 = "(''Content-Type'', ''application/json'')" and ?h4 = "(''Content-Length'', dec_of_nat n)"
  let ?r1 = "r\<lparr>rd_jwsToken := (if authz then token else [])\<rparr>"
  let ?r2 = "?r1\<lparr>rd_detailLevel := dl\<rparr>"
  have "read_header authz (header_line ?h1) (r, 0, False) = Ret (?r1, 0, False)"
    using read_header_parts [of ?h1] p assms(3) by (simp add: read_header_def header_tests Let_def starts_with_def)
  moreover have "read_header authz (header_line ?h2) (?r1, 0, False) = Ret (?r2, 0, False)"
    using read_header_parts [of ?h2] detail_level_name_plain assms(4) by (simp add: read_header_def header_tests Let_def)
  moreover have "read_header authz (header_line ?h3) (?r2, 0, False) = Ret (?r2, 0, True)"
    using read_header_parts [of ?h3] p by (simp add: read_header_def header_tests Let_def valid_content_type_def same_letter_def)
  moreover have "read_header authz (header_line ?h4) (?r2, 0, True) = Ret (?r2, n, True)"
    using read_header_parts [of ?h4] dec_of_nat_plain assms(2) by (simp add: read_header_def header_tests Let_def content_length_dec)
  moreover have "read_headers authz ((header_line h @ [LF]) @ rest) st
      = res_bind (read_header authz (header_line h) st) (read_headers authz rest)" if "h \<in> {?h1, ?h2, ?h3, ?h4}" for h rest st
    using that p detail_level_name_plain dec_of_nat_plain by (intro read_headers_line) auto
  ultimately show ?thesis by (simp add: client_headers_def read_headers_end)
qed

lemma read_request_line:
  assumes "target \<noteq> []" "list_all (\<lambda>c. \<not> is_space c) target"
  shows "getline (http_request m target hs body)
      = Some (method_name m @ CHR '' '' # target @ '' HTTP/1.1'' @ [CR], concat (map (\<lambda>h. header_line h @ [LF]) hs) @ CR # LF # body)"
    "next_word (method_name m @ CHR '' '' # target @ '' HTTP/1.1'' @ [CR]) = (method_name m, CHR '' '' # target @ '' HTTP/1.1'' @ [CR])"
    "fst (next_word (CHR '' '' # target @ '' HTTP/1.1'' @ [CR])) = target"
proof -
  have sp: "is_space CHR '' ''" "is_space LF" by (simp_all add: is_space_def Let_def)
  have m: "list_all (\<lambda>c. \<not> is_space c) (method_name m)" "method_name m \<noteq> []"
    by (cases m; simp add: is_space_def Let_def)+
  then have "LF \<notin> set (method_name m)" "LF \<notin> set target" using assms(2) sp(2) by (auto simp: list_all_iff)
  then show "getline (http_request m target hs body)
      = Some (method_name m @ CHR '' '' # target @ '' HTTP/1.1'' @ [CR], concat (map (\<lambda>h. header_line h @ [LF]) hs) @ CR # LF # body)"
    using getline_line [of "method_name m @ CHR '' '' # target @ '' HTTP/1.1'' @ [CR]"] by (simp add: http_request_def)
  show "next_word (method_name m @ CHR '' '' # target @ '' HTTP/1.1'' @ [CR]) = (method_name m, CHR '' '' # target @ '' HTTP/1.1'' @ [CR])"
    by (rule next_word_word [OF m sp(1)])
  show "fst (next_word (CHR '' '' # target @ '' HTTP/1.1'' @ [CR])) = target"
    using next_word_word [OF assms(2,1) sp(1), of "''HTTP/1.1'' @ [CR]"] by (simp add: next_word_space sp(1))
qed

section \<open>Properties\<close>



end
