(* ===== verification/Rest_Service.thy ===== *)
theory Rest_Service
  imports Rest_Http Rpc_Unary
begin

text \<open>
  The REST service: routing (\<^verbatim>\<open>ServiceImpl.cpp\<close>) and the controllers that answer with one message
  (\<^verbatim>\<open>GetValue\<close>, \<^verbatim>\<open>GetParam\<close>, \<^verbatim>\<open>SetValue\<close>, \<^verbatim>\<open>MultiSetValue\<close>, \<^verbatim>\<open>Languages\<close>, \<^verbatim>\<open>LanguagePack\<close>,
  \<^verbatim>\<open>GetPopulatedSlots\<close>). Devices, subscriptions and connections are those of \<open>service\<close>; the registry
  of the gRPC service is not used. The controllers that stream are an argument of the routing.
\<close>

section \<open>Controllers\<close>

text \<open>The conversion between messages and json.\<close>

record codec =
  json_value :: "pvalue \<Rightarrow> string option"
  json_param :: "string \<times> pparam \<Rightarrow> string option"
  json_slots :: "u32 list \<Rightarrow> string option"
  json_languages :: "string list \<Rightarrow> string option"
  json_lpack :: "component_language_pack \<Rightarrow> string option"
  parse_values :: "string \<Rightarrow> payload list option"
  parse_value :: "string \<Rightarrow> pvalue option"
  parse_lpack :: "string \<Rightarrow> lpack option"

text \<open>The \<^verbatim>\<open>catch\<close> clauses of the controllers; the set controllers have those of gRPC instead.\<close>

fun rest_catch :: "service \<Rightarrow> 'r \<Rightarrow> (service \<times> 'r \<times> StatusCode) res \<Rightarrow> (service \<times> 'r \<times> StatusCode) res" where
  "rest_catch sv ans (Ret x) = Ret x"
| "rest_catch sv ans (Throw (ExceptionWithStatus st)) = Ret (sv, ans, st)"
| "rest_catch sv ans (Throw _) = Ret (sv, ans, INTERNAL)"
| "rest_catch sv ans Undef = Undef"

definition rest_authz :: "jwt \<Rightarrow> service \<Rightarrow> socket_reader \<Rightarrow> authorizer res" where
  "rest_authz decode sv ctx = (if authorizationEnabled sv then Authorizer decode (rd_jwsToken ctx) else Ret kAuthzDisabled)"

definition send :: "string \<Rightarrow> service \<Rightarrow> StatusCode \<Rightarrow> json \<Rightarrow> service \<times> response list" where
  "send orig sv rc msg = (sv, snd (sendResponse \<lparr>wr_origin = orig, buffer = False, wr_jsonBody = []\<rparr> rc msg))"

definition rest_GetValue :: "codec \<Rightarrow> jwt \<Rightarrow> socket_reader \<Rightarrow> service \<Rightarrow> (service \<times> response list) res" where
  "rest_GetValue cd decode ctx sv =
     res_bind
       (rest_catch sv (Some KindNotSet)
         (res_bind (find_device sv (uint (rd_slot ctx))) (\<lambda>d. case d of
            None \<Rightarrow> Ret (sv, Some KindNotSet, NOT_FOUND)
          | Some dm \<Rightarrow>
              res_bind (rest_authz decode sv ctx) (\<lambda>authz.
              res_bind (getValue dm (rd_fqoid ctx) KindNotSet authz) (\<lambda>(rc, ans). Ret (sv, ans, rc))))))
       (\<lambda>(sv', ans, rc). Ret (send (origin ctx) sv' rc (Inr (Option.bind ans (json_value cd)))))"

definition rest_GetParam :: "codec \<Rightarrow> jwt \<Rightarrow> socket_reader \<Rightarrow> service \<Rightarrow> (service \<times> response list) res" where
  "rest_GetParam cd decode ctx sv =
     res_bind
       (rest_catch sv ([], pparam_default)
         (res_bind (find_device sv (uint (rd_slot ctx))) (\<lambda>d. case d of
            None \<Rightarrow> Ret (sv, ([], pparam_default), NOT_FOUND)
          | Some dm \<Rightarrow>
              res_bind (rest_authz decode sv ctx) (\<lambda>authz.
              res_bind (getParam_fqoid dm (rd_fqoid ctx) OK authz) (\<lambda>(param, rc).
              case param of
                Some p \<Rightarrow>
                  if rc = OK then
                    res_bind (deref dm p) (\<lambda>v.
                    res_bind (param_toProto p v pparam_default authz) (\<lambda>(rc', msg).
                    Ret (sv, (pd_oid (node (p_desc p)), msg), rc')))
                  else Ret (sv, ([], pparam_default), rc)
              | None \<Rightarrow> Ret (sv, ([], pparam_default), rc))))))
       (\<lambda>(sv', ans, rc). Ret (send (origin ctx) sv' rc (Inr (json_param cd ans))))"

definition rest_toMulti :: "codec \<Rightarrow> socket_reader \<Rightarrow> payload list option" where
  "rest_toMulti cd ctx = parse_values cd (jsonBody ctx)"

definition rest_toMulti_single :: "codec \<Rightarrow> socket_reader \<Rightarrow> payload list option" where
  "rest_toMulti_single cd ctx = map_option (\<lambda>v. [(rd_fqoid ctx, v)]) (parse_value cd (jsonBody ctx))"

definition rest_MultiSet :: "jwt \<Rightarrow> int \<Rightarrow> payload list option \<Rightarrow> socket_reader \<Rightarrow> service \<Rightarrow> (service \<times> response list) res" where
  "rest_MultiSet decode now reqs ctx sv =
     res_bind
       (try_catch sv ()
         (res_bind (find_device sv (uint (rd_slot ctx))) (\<lambda>d. case d of
            None \<Rightarrow> Ret (sv, (), NOT_FOUND)
          | Some dm \<Rightarrow>
              (case reqs of
                 None \<Rightarrow> Ret (sv, (), INVALID_ARGUMENT)
               | Some vs \<Rightarrow>
                   res_bind (rest_authz decode sv ctx) (\<lambda>authz.
                   res_bind (tryMultiSetValue dm vs OK authz) (\<lambda>(ok, rc).
                   if ok then
                     res_bind (commitMultiSetValue dm vs authz) (\<lambda>(dm', rc').
                     res_bind (put_device now (rd_slot ctx) dm dm' sv) (\<lambda>sv'.
                     Ret (sv', (), rc')))
                   else Ret (sv, (), rc)))))))
       (\<lambda>(sv', _, rc). Ret (send (origin ctx) sv' rc (Inl ())))"

definition rest_Languages :: "codec \<Rightarrow> socket_reader \<Rightarrow> service \<Rightarrow> (service \<times> response list) res" where
  "rest_Languages cd ctx sv =
     res_bind
       (rest_catch sv []
         (res_bind (find_device sv (uint (rd_slot ctx))) (\<lambda>d. case d of
            None \<Rightarrow> Ret (sv, [], NOT_FOUND)
          | Some dm \<Rightarrow>
              if rd_method ctx = Method_GET then
                let ans = toProto_LanguageList dm in Ret (sv, ans, if ans = [] then NOT_FOUND else OK)
              else Ret (sv, [], UNIMPLEMENTED))))
       (\<lambda>(sv', ans, rc). Ret (send (origin ctx) sv' rc (Inr (json_languages cd ans))))"

definition hasLanguage :: "device \<Rightarrow> string \<Rightarrow> bool" where
  "hasLanguage dm languageId \<longleftrightarrow> map_of (language_packs dm) languageId \<noteq> None"

definition lpack_change :: "codec \<Rightarrow> socket_reader \<Rightarrow> string \<Rightarrow> authorizer \<Rightarrow> device \<Rightarrow> device \<times> StatusCode" where
  "lpack_change cd ctx languageId authz dm =
     (if rd_method ctx = Method_POST \<or> rd_method ctx = Method_PUT then
        (case parse_lpack cd (jsonBody ctx) of
           None \<Rightarrow> (dm, INVALID_ARGUMENT)
         | Some pack \<Rightarrow>
             if rd_method ctx = Method_POST \<and> hasLanguage dm languageId \<or> rd_method ctx = Method_PUT \<and> \<not> hasLanguage dm languageId
             then (dm, PERMISSION_DENIED)
             else addLanguage dm languageId pack authz)
      else if rd_method ctx = Method_DELETE then removeLanguage dm languageId authz
      else (dm, UNIMPLEMENTED))"

definition rest_LanguagePack :: "codec \<Rightarrow> jwt \<Rightarrow> int \<Rightarrow> socket_reader \<Rightarrow> service \<Rightarrow> (service \<times> response list) res" where
  "rest_LanguagePack cd decode now ctx sv =
     res_bind
       (rest_catch sv component_lpack_default
         (res_bind (if rd_fqoid ctx = [] then Throw StdOutOfRange else Ret (drop 1 (rd_fqoid ctx))) (\<lambda>languageId.
          res_bind (find_device sv (uint (rd_slot ctx))) (\<lambda>d.
          res_bind (if rd_method ctx \<noteq> Method_GET then rest_authz decode sv ctx else Ret kAuthzDisabled) (\<lambda>authz.
          case d of
            None \<Rightarrow> Ret (sv, component_lpack_default, NOT_FOUND)
          | Some dm \<Rightarrow>
              if rd_method ctx = Method_GET then
                let (rc, ans) = getLanguagePack dm languageId component_lpack_default in Ret (sv, ans, rc)
              else
                let (dm', rc) = lpack_change cd ctx languageId authz dm in
                res_bind (put_device now (rd_slot ctx) dm dm' sv) (\<lambda>sv'. Ret (sv', component_lpack_default, rc)))))))
       (\<lambda>(sv', ans, rc).
          Ret (send (origin ctx) sv' rc (if rd_method ctx = Method_GET then Inr (json_lpack cd ans) else Inl ())))"

definition rest_GetPopulatedSlots :: "codec \<Rightarrow> socket_reader \<Rightarrow> service \<Rightarrow> (service \<times> response list) res" where
  "rest_GetPopulatedSlots cd ctx sv =
     Ret (send (origin ctx) sv OK (Inr (json_slots cd (map fst (filter (\<lambda>(s, dm). dm \<noteq> None) (dms sv))))))"

section \<open>Routing\<close>

definition stream_routes :: "string list" where
  "stream_routes =
     [''GET/connect'', ''GET'', ''POST/command'', ''GET/asset'', ''POST/asset'', ''PUT/asset'', ''DELETE/asset'',
      ''GET/param-info'', ''GET/subscriptions'', ''PUT/subscriptions'']"

definition unary_route :: "codec \<Rightarrow> jwt \<Rightarrow> int \<Rightarrow> string \<Rightarrow> (socket_reader \<Rightarrow> service \<Rightarrow> (service \<times> response list) res) option" where
  "unary_route cd decode now key =
     map_of
       [(''GET/devices'', rest_GetPopulatedSlots cd),
        (''GET/value'', rest_GetValue cd decode),
        (''PUT/values'', \<lambda>ctx. rest_MultiSet decode now (rest_toMulti cd ctx) ctx),
        (''PUT/value'', \<lambda>ctx. rest_MultiSet decode now (rest_toMulti_single cd ctx) ctx),
        (''GET/param'', rest_GetParam cd decode),
        (''GET/language-pack'', rest_LanguagePack cd decode now),
        (''PUT/language-pack'', rest_LanguagePack cd decode now),
        (''POST/language-pack'', rest_LanguagePack cd decode now),
        (''DELETE/language-pack'', rest_LanguagePack cd decode now),
        (''GET/languages'', rest_Languages cd)] key"

fun run_status :: "exn \<Rightarrow> StatusCode" where
  "run_status (ExceptionWithStatus st) = st"
| "run_status StdInvalidArgument = INVALID_ARGUMENT"
| "run_status RuntimeError = INTERNAL"
| "run_status StdOutOfRange = UNKNOWN"

text \<open>
  The routing of a request that was read. \<open>others\<close> are the controllers that stream: what they leave
  of the service, what they have written, and the exception that left them, if any.
\<close>

definition route :: "codec \<Rightarrow> jwt \<Rightarrow> int \<Rightarrow> (string \<Rightarrow> socket_reader \<Rightarrow> service \<Rightarrow> (service \<times> response list \<times> exn option) res)
    \<Rightarrow> socket_reader \<Rightarrow> service \<Rightarrow> (service \<times> response list \<times> StatusCode) res" where
  "route cd decode now others ctx sv =
     (let requestKey = method_name (rd_method ctx) @ endpoint ctx in
      if rd_method ctx = Method_OPTIONS then Ret (sv, snd (send (origin ctx) sv NO_CONTENT (Inl ())), NO_CONTENT)
      else if rd_method ctx = Method_GET \<and> endpoint ctx = ''/health'' then Ret (sv, snd (send (origin ctx) sv OK (Inl ())), OK)
      else if requestKey \<in> set stream_routes then
        res_bind (others requestKey ctx sv) (\<lambda>(sv', out, e).
        Ret (sv', out, case e of None \<Rightarrow> OK | Some e \<Rightarrow> run_status e))
      else case unary_route cd decode now requestKey of
        Some controller \<Rightarrow>
          (case controller ctx sv of
             Ret (sv', out) \<Rightarrow> Ret (sv', out, OK)
           | Throw e \<Rightarrow> Ret (sv, [], run_status e)
           | Undef \<Rightarrow> Undef)
      | None \<Rightarrow> Ret (sv, [], UNIMPLEMENTED))"

text \<open>The thread of a request: \<open>reading\<close> is the result of \<open>read\<close>.\<close>

definition handle_request :: "codec \<Rightarrow> jwt \<Rightarrow> int \<Rightarrow> (string \<Rightarrow> socket_reader \<Rightarrow> service \<Rightarrow> (service \<times> response list \<times> exn option) res)
    \<Rightarrow> bool \<Rightarrow> socket_reader res \<Rightarrow> service \<Rightarrow> (service \<times> response list) res" where
  "handle_request cd decode now others stopped reading sv =
     res_bind
       (if stopped then Ret (sv, [], UNAVAILABLE)
        else case reading of
          Ret ctx \<Rightarrow> route cd decode now others ctx sv
        | Throw e \<Rightarrow> Ret (sv, [], run_status e)
        | Undef \<Rightarrow> Undef)
       (\<lambda>(sv', out, rc).
          Ret (sv', out @ (if rc \<noteq> OK then snd (send ''*'' sv' rc (Inl ())) else [])))"

section \<open>The contract of a controller\<close>

lemma send_simps [simp]: "fst (send orig sv rc msg) = sv" "\<exists>r. snd (send orig sv rc msg) = [r] \<and> is_response r"
  by (simp_all add: send_def sendResponse_def Let_def)

lemma send_pair: "\<exists>r. send orig sv rc msg = (sv, [r]) \<and> is_response r"
  using send_simps [of orig sv rc msg] by (metis prod.collapse)

text \<open>A controller that sends one response and keeps the invariant of the service, whatever the request.\<close>

locale rest_controller =
  fixes ctl :: "socket_reader \<Rightarrow> service \<Rightarrow> (service \<times> response list) res"
    and good :: "socket_reader \<Rightarrow> bool"
  assumes answers: "service_ok sv \<Longrightarrow> good ctx \<Longrightarrow> \<exists>sv' r. ctl ctx sv = Ret (sv', [r]) \<and> is_response r \<and> service_ok sv'"
begin

lemma routed_once:
  assumes "unary_route cd decode now key = Some ctl" "key = method_name (rd_method ctx) @ endpoint ctx"
    and "service_ok sv" "good ctx" "rd_method ctx \<noteq> Method_OPTIONS" "key \<notin> set stream_routes" "key \<noteq> ''GET/health''"
  shows "\<exists>sv' r. route cd decode now others ctx sv = Ret (sv', [r], OK) \<and> is_response r \<and> service_ok sv'"
proof -
  from answers [OF assms(3,4)] obtain sv' r where "ctl ctx sv = Ret (sv', [r])" "is_response r" "service_ok sv'" by blast
  moreover have "(rd_method ctx = Method_GET \<and> endpoint ctx = ''/health'') = False" using assms(2,7) by auto
  ultimately show ?thesis using assms(1,2,5,6) unfolding route_def Let_def by (simp only: if_False) simp
qed

end

text \<open>The token of a request, as the meta data of gRPC would carry it.\<close>

definition meta_of :: "socket_reader \<Rightarrow> (string \<times> string) list" where
  "meta_of ctx = [(''authorization'', ''Bearer '' @ rd_jwsToken ctx)]"

lemma call_authz_meta: "call_authz decode sv (meta_of ctx) = rest_authz decode sv ctx"
  by (simp add: call_authz_def rest_authz_def jwsToken_def meta_of_def starts_with_def)

lemma rest_catch_try:
  "try_catch sv ans m = Ret (sv', a, rc) \<Longrightarrow> \<exists>a' rc'. rest_catch sv ans m = Ret (sv', a', rc')"
proof (cases m)
  case (Throw e)
  assume "try_catch sv ans m = Ret (sv', a, rc)"
  with Throw show ?thesis by (cases e) auto
qed auto

text \<open>Where the work of the gRPC controller returns, that of the REST controller is answered.\<close>

lemma rest_answer:
  assumes "try_catch sv dflt body = Ret (sv', a, rc)" "service_ok sv'"
  shows "\<exists>sv' r. res_bind (rest_catch sv dflt body) (\<lambda>(sv', a, rc). Ret (send orig sv' rc (msg a))) = Ret (sv', [r]) \<and> is_response r \<and> service_ok sv'"
proof -
  from rest_catch_try [OF assms(1)] obtain a' rc' where "rest_catch sv dflt body = Ret (sv', a', rc')" by blast
  with send_pair [of orig sv' rc' "msg a'"] assms(2) show ?thesis by auto
qed

text \<open>The request as the call of the gRPC controller with the same work.\<close>

abbreviation as_call :: "'q \<Rightarrow> socket_reader \<Rightarrow> ('q, 'r) call" where
  "as_call q ctx \<equiv> \<lparr>cl_ptr = 0, cl_status = kProcess, cl_req = q, cl_meta = meta_of ctx, requestStart = 0,
     requestReceived = 0, cl_out = []\<rparr>"

interpretation rgv: rest_controller "rest_GetValue cd decode" "\<lambda>ctx. token_ok decode (meta_of ctx)" for cd decode
proof
  fix sv and ctx :: socket_reader
  assume *: "service_ok sv" "token_ok decode (meta_of ctx)"
  let ?c = "as_call \<lparr>rq_slot = uint (rd_slot ctx), rq_oid = rd_fqoid ctx\<rparr> ctx :: (slot_oid, pvalue option) call"
  from gv.process_returns [OF *(1), of decode ?c] *(2) obtain sv' ans rc where
    r: "GetValue_process decode sv ?c = Ret (sv', ans, rc)" "service_ok sv'" by auto
  show "\<exists>sv' r. rest_GetValue cd decode ctx sv = Ret (sv', [r]) \<and> is_response r \<and> service_ok sv'"
    unfolding rest_GetValue_def
    by (rule rest_answer [OF _ r(2)]) (use r(1) in \<open>simp add: GetValue_process_def call_authz_meta cong: option.case_cong\<close>)
qed

interpretation rgp: rest_controller "rest_GetParam cd decode" "\<lambda>ctx. token_ok decode (meta_of ctx)" for cd decode
proof
  fix sv and ctx :: socket_reader
  assume *: "service_ok sv" "token_ok decode (meta_of ctx)"
  let ?c = "as_call \<lparr>rq_slot = uint (rd_slot ctx), rq_oid = rd_fqoid ctx\<rparr> ctx :: (slot_oid, string \<times> pparam) call"
  from gp.process_returns [OF *(1), of decode ?c] *(2) obtain sv' ans rc where
    r: "GetParam_process decode sv ?c = Ret (sv', ans, rc)" "service_ok sv'" by auto
  show "\<exists>sv' r. rest_GetParam cd decode ctx sv = Ret (sv', [r]) \<and> is_response r \<and> service_ok sv'"
    unfolding rest_GetParam_def
    by (rule rest_answer [OF _ r(2)]) (use r(1) in \<open>simp add: GetParam_process_def call_authz_meta cong: option.case_cong\<close>)
qed

interpretation rps: rest_controller "rest_GetPopulatedSlots cd" "\<lambda>_. True" for cd
  by standard (use send_pair in \<open>fastforce simp: rest_GetPopulatedSlots_def\<close>)

interpretation rll: rest_controller "rest_Languages cd" "\<lambda>_. True" for cd
proof
  fix sv and ctx :: socket_reader
  assume *: "service_ok sv"
  have "\<exists>ans rc. rest_catch sv [] (res_bind (find_device sv (uint (rd_slot ctx))) (\<lambda>d. case d of
      None \<Rightarrow> Ret (sv, [], NOT_FOUND)
    | Some dm \<Rightarrow> if rd_method ctx = Method_GET then
        let ans = toProto_LanguageList dm in Ret (sv, ans, if ans = [] then NOT_FOUND else OK)
      else Ret (sv, [], UNIMPLEMENTED))) = Ret (sv, ans, rc)"
    by (auto simp: find_device_def Let_def split: option.splits)
  with * show "\<exists>sv' r. rest_Languages cd ctx sv = Ret (sv', [r]) \<and> is_response r \<and> service_ok sv'"
    using send_pair by (fastforce simp: rest_Languages_def)
qed

text \<open>The set controllers do what those of gRPC do.\<close>

lemma rest_MultiSet_eq:
  "rest_MultiSet decode now (Some vs) ctx sv =
     res_bind (MultiSet_process decode now sv (meta_of ctx) \<lparr>sp_slot = uint (rd_slot ctx), sp_values = vs\<rparr>)
       (\<lambda>(sv', _, rc). Ret (send (origin ctx) sv' rc (Inl ())))"
  by (simp add: rest_MultiSet_def MultiSet_process_def call_authz_meta cong: option.case_cong if_cong)

lemma rest_MultiSet_None: "\<exists>r. rest_MultiSet decode now None ctx sv = Ret (sv, [r]) \<and> is_response r"
proof -
  have "\<exists>rc. try_catch sv () (res_bind (find_device sv (uint (rd_slot ctx))) (\<lambda>d. case d of
      None \<Rightarrow> Ret (sv, (), NOT_FOUND) | Some dm \<Rightarrow> Ret (sv, (), INVALID_ARGUMENT))) = Ret (sv, (), rc)"
    by (auto simp: find_device_def split: option.splits)
  then show ?thesis using send_pair by (fastforce simp: rest_MultiSet_def cong: option.case_cong)
qed

interpretation rst: rest_controller "\<lambda>ctx. rest_MultiSet decode now (rest_toMulti_single cd ctx) ctx"
  "\<lambda>ctx. token_ok decode (meta_of ctx) \<and> (\<forall>v. addressable (rd_fqoid ctx, v))" for cd decode now
proof
  fix sv and ctx :: socket_reader
  assume *: "service_ok sv" "token_ok decode (meta_of ctx) \<and> (\<forall>v. addressable (rd_fqoid ctx, v))"
  show "\<exists>sv' r. rest_MultiSet decode now (rest_toMulti_single cd ctx) ctx sv = Ret (sv', [r]) \<and> is_response r \<and> service_ok sv'"
  proof (cases "parse_value cd (jsonBody ctx)")
    case None
    with *(1) rest_MultiSet_None [of decode now ctx sv] show ?thesis by (auto simp: rest_toMulti_single_def)
  next
    case (Some v)
    let ?c = "as_call \<lparr>ss_slot = uint (rd_slot ctx), ss_value = (rd_fqoid ctx, v)\<rparr> ctx :: (single_set_payload, unit) call"
    from st.process_returns [OF *(1), of decode ?c now] *(2) obtain sv' rc where
      "MultiSet_process decode now sv (meta_of ctx) \<lparr>sp_slot = uint (rd_slot ctx), sp_values = [(rd_fqoid ctx, v)]\<rparr> = Ret (sv', (), rc)"
      "service_ok sv'" by (auto simp: toMulti_def)
    with Some show ?thesis
      using send_pair by (fastforce simp: rest_toMulti_single_def rest_MultiSet_eq)
  qed
qed

lemma lpack_change_ok:
  assumes "device_ok dm" "lpack_change cd ctx ident a dm = (dm', rc)"
  shows "device_ok dm' \<and> slot dm' = slot dm \<and> (\<exists>evs. emitted dm' = emitted dm @ evs \<and> list_all event_ok evs)"
proof -
  consider "dm' = dm" | pack where "addLanguage dm ident pack a = (dm', rc)" | "removeLanguage dm ident a = (dm', rc)"
    using assms(2) by (auto simp: lpack_change_def split: if_splits option.splits)
  then show ?thesis
  proof cases
    case 1
    with assms(1) show ?thesis by simp
  next
    case 2
    from addLanguage_keeps [OF assms(1) this] addLanguage_emits [OF this] show ?thesis by auto
  next
    case 3
    from removeLanguage_keeps [OF assms(1) this] 3 show ?thesis by (auto simp: removeLanguage_def split: if_splits)
  qed
qed

lemma lpack_work:
  assumes "service_ok sv" "find_device sv n = Ret (Some dm)" "s = word_of_int n"
  shows "\<exists>sv' x. (let (dm', rc) = lpack_change cd ctx ident a dm in
      res_bind (put_device now s dm dm' sv) (\<lambda>sv'. Ret (sv', component_lpack_default, rc))) = Ret (sv', x) \<and> service_ok sv'"
proof -
  from find_device_Some [OF assms(2,1)] assms(3) have dm: "device_ok dm" "slot dm = s" "device_at (dms sv) s = Some dm" by auto
  obtain dm' rc where l: "lpack_change cd ctx ident a dm = (dm', rc)" by fastforce
  from lpack_change_ok [OF dm(1) l] dm put_device_total [OF assms(1) dm(3), of dm' _ now] obtain sv' where
    "put_device now s dm dm' sv = Ret sv'" "service_ok sv'" by auto
  with l show ?thesis by simp
qed

interpretation rlp: rest_controller "rest_LanguagePack cd decode now" "\<lambda>ctx. token_ok decode (meta_of ctx)" for cd decode now
proof
  fix sv and ctx :: socket_reader
  assume *: "service_ok sv" "token_ok decode (meta_of ctx)"
  let ?body = "res_bind (if rd_fqoid ctx = [] then Throw StdOutOfRange else Ret (drop 1 (rd_fqoid ctx))) (\<lambda>languageId.
          res_bind (find_device sv (uint (rd_slot ctx))) (\<lambda>d.
          res_bind (if rd_method ctx \<noteq> Method_GET then rest_authz decode sv ctx else Ret kAuthzDisabled) (\<lambda>authz.
          case d of
            None \<Rightarrow> Ret (sv, component_lpack_default, NOT_FOUND)
          | Some dm \<Rightarrow>
              if rd_method ctx = Method_GET then
                let (rc, ans) = getLanguagePack dm languageId component_lpack_default in Ret (sv, ans, rc)
              else
                let (dm', rc) = lpack_change cd ctx languageId authz dm in
                res_bind (put_device now (rd_slot ctx) dm dm' sv) (\<lambda>sv'. Ret (sv', component_lpack_default, rc)))))"
  have authz: "rest_authz decode sv ctx \<noteq> Undef"
    using call_authz_defined [OF *(2)] by (simp add: call_authz_meta)
  have work: "(let (dm', rc) = lpack_change cd ctx ident a dm in
        res_bind (put_device now (rd_slot ctx) dm dm' sv) (\<lambda>sv'. Ret (sv', component_lpack_default, rc))) \<noteq> Undef
      \<and> (\<forall>x. (let (dm', rc) = lpack_change cd ctx ident a dm in
        res_bind (put_device now (rd_slot ctx) dm dm' sv) (\<lambda>sv'. Ret (sv', component_lpack_default, rc))) = Ret x \<longrightarrow> service_ok (fst x))"
    if "find_device sv (uint (rd_slot ctx)) = Ret (Some dm)" for dm ident a
    using lpack_work [OF *(1) that, of "rd_slot ctx" cd ctx ident a now] by auto
  have "?body \<noteq> Undef \<and> (\<forall>x. ?body = Ret x \<longrightarrow> service_ok (fst x))"
    using authz work find_device_defined [of sv "uint (rd_slot ctx)"] *(1)
    by (cases "find_device sv (uint (rd_slot ctx))"; cases "rest_authz decode sv ctx")
      (auto simp del: Let_def split: option.splits split: prod.splits)
  then have "\<exists>x. try_catch sv component_lpack_default ?body = Ret x \<and> service_ok (fst x)"
    using *(1) by (intro try_catch_returns) auto
  then obtain sv' ans rc where r: "try_catch sv component_lpack_default ?body = Ret (sv', ans, rc)" "service_ok sv'" by auto
  show "\<exists>sv' r. rest_LanguagePack cd decode now ctx sv = Ret (sv', [r]) \<and> is_response r \<and> service_ok sv'"
    unfolding rest_LanguagePack_def by (rule rest_answer [OF r])
qed

section \<open>Errors while reading\<close>

text \<open>A result that is defined, and whose exception, if it is one, has the status of an error.\<close>

definition errs :: "'a res \<Rightarrow> bool" where
  "errs m \<longleftrightarrow> m \<noteq> Undef \<and> (\<forall>e. m = Throw e \<longrightarrow> run_status e \<noteq> OK)"

lemma errs_simps [simp]: "errs (Ret x)" "errs (Throw e) \<longleftrightarrow> run_status e \<noteq> OK" "\<not> errs Undef"
  by (simp_all add: errs_def)

lemma errs_bind [intro]: "errs m \<Longrightarrow> (\<And>x. m = Ret x \<Longrightarrow> errs (f x)) \<Longrightarrow> errs (res_bind m f)"
  by (cases m) auto

lemma errs_if: "(b \<Longrightarrow> errs x) \<Longrightarrow> (\<not> b \<Longrightarrow> errs y) \<Longrightarrow> errs (if b then x else y)"
  by simp

lemma parse_path_errs: "errs (parse_path u r)"
  by (simp add: parse_path_def Let_def split: prod.split)

lemma content_length_errs: "errs (content_length v)"
  by (auto simp: content_length_def split: res.split)

lemma read_header_errs: "errs (read_header authz h st)"
  unfolding read_header_def Let_def
  by (auto intro!: errs_if errs_bind content_length_errs split: prod.split option.split)

lemma read_headers_errs: "errs (read_headers authz s st)"
proof (induction authz s st rule: read_headers.induct)
  case (1 authz s st)
  then show ?case
    using read_header_errs [of authz _ st]
    by (subst read_headers.simps) (auto intro!: errs_if errs_bind split: option.split)
qed

lemma sock_bytes_errs: "errs (sock_bytes r)"
  by (simp add: sock_bytes_def split: sock_read.split)

lemma read_body_errs: "errs (read_body further n ct b)"
  unfolding read_body_def by (auto intro!: errs_if errs_bind sock_bytes_errs)

lemma read_errs:
  assumes "\<And>u. errs (url_view u)"
  shows "errs (read url_view authz now head further old)"
  unfolding read_def Let_def
  by (intro errs_bind sock_bytes_errs)
    (auto intro!: errs_bind assms parse_path_errs read_headers_errs read_body_errs split: prod.split)

section \<open>Answers\<close>

text \<open>The requests that one of the modelled controllers answers, or none at all.\<close>

definition plain_request :: "jwt \<Rightarrow> socket_reader \<Rightarrow> bool" where
  "plain_request decode ctx \<longleftrightarrow>
     rd_method ctx \<noteq> Method_OPTIONS \<and> method_name (rd_method ctx) @ endpoint ctx \<notin> insert ''PUT/values'' (set stream_routes)
     \<and> token_ok decode (meta_of ctx) \<and> (\<forall>v. addressable (rd_fqoid ctx, v))"

lemma send_one_answer: "one_answer (snd (send orig sv rc msg))"
  using send_pair [of orig sv rc msg] by (auto simp: one_answer_def)

lemma route_once:
  assumes "service_ok sv" "plain_request decode ctx"
  shows "\<exists>sv' out rc. route cd decode now others ctx sv = Ret (sv', out, rc) \<and> service_ok sv'
     \<and> one_answer (out @ (if rc \<noteq> OK then snd (send ''*'' sv' rc (Inl ())) else []))"
proof -
  let ?key = "method_name (rd_method ctx) @ endpoint ctx"
  consider (health) "rd_method ctx = Method_GET" "endpoint ctx = ''/health''"
    | (none) "\<not> (rd_method ctx = Method_GET \<and> endpoint ctx = ''/health'')" "unary_route cd decode now ?key = None"
    | (some) ctl where "?key \<noteq> ''GET/health''" "unary_route cd decode now ?key = Some ctl"
    by (cases "unary_route cd decode now ?key") (auto simp: unary_route_def split: if_splits)
  then show ?thesis
  proof cases
    case health
    with assms(1) show ?thesis by (simp add: route_def Let_def send_one_answer)
  next
    case none
    with assms show ?thesis by (auto simp: route_def Let_def send_one_answer plain_request_def)
  next
    case some
    from some(2) have "ctl \<in> {rest_GetPopulatedSlots cd, rest_GetValue cd decode, rest_GetParam cd decode,
          rest_LanguagePack cd decode now, rest_Languages cd, \<lambda>ctx. rest_MultiSet decode now (rest_toMulti_single cd ctx) ctx}"
      using assms(2) by (auto simp: unary_route_def plain_request_def split: if_splits)
    then have "\<exists>sv' r. route cd decode now others ctx sv = Ret (sv', [r], OK) \<and> is_response r \<and> service_ok sv'"
      using assms some
        rps.routed_once [OF _ refl assms(1), of cd decode now ctx cd others] rgv.routed_once [OF _ refl assms(1), of cd decode now ctx cd decode others]
        rgp.routed_once [OF _ refl assms(1), of cd decode now ctx cd decode others] rll.routed_once [OF _ refl assms(1), of cd decode now ctx cd others]
        rlp.routed_once [OF _ refl assms(1), of cd decode now ctx cd decode now others]
        rst.routed_once [OF _ refl assms(1), of cd decode now ctx decode now cd others]
      by (auto simp: plain_request_def)
    then show ?thesis by (auto simp: one_answer_def)
  qed
qed

text \<open>The thread answers once when the routing does.\<close>

lemma handle_request_answers:
  assumes "service_ok sv" "errs reading"
    and "\<And>ctx. reading = Ret ctx \<Longrightarrow> \<exists>sv' out rc. route cd decode now others ctx sv = Ret (sv', out, rc) \<and> service_ok sv'
           \<and> one_answer (out @ (if rc \<noteq> OK then snd (send ''*'' sv' rc (Inl ())) else []))"
  shows "\<exists>sv' out. handle_request cd decode now others stopped reading sv = Ret (sv', out) \<and> one_answer out \<and> service_ok sv'"
proof (cases "stopped \<or> (\<forall>ctx. reading \<noteq> Ret ctx)")
  case True
  with assms(1,2) show ?thesis by (cases reading) (auto simp: handle_request_def errs_def send_one_answer)
next
  case False
  then obtain ctx where ctx: "reading = Ret ctx" "\<not> stopped" by auto
  with assms(3) [of ctx] show ?thesis by (fastforce simp: handle_request_def)
qed

lemma unary_route_set:
  "unary_route cd decode now ''PUT/values'' = Some (\<lambda>ctx. rest_MultiSet decode now (rest_toMulti cd ctx) ctx)"
  "unary_route cd decode now ''PUT/value'' = Some (\<lambda>ctx. rest_MultiSet decode now (rest_toMulti_single cd ctx) ctx)"
  by (simp_all add: unary_route_def)

definition ex_codec :: codec where
  "ex_codec = \<lparr>json_value = (\<lambda>_. Some ''7''), json_param = (\<lambda>_. Some ''{}''), json_slots = (\<lambda>_. None), json_languages = (\<lambda>_. None),
     json_lpack = (\<lambda>_. None), parse_values = (\<lambda>_. None), parse_value = (\<lambda>_. Some (Int32Value 9)), parse_lpack = (\<lambda>_. None)\<rparr>"

definition ex_url :: "string \<Rightarrow> (string \<times> (string \<times> string) list) res" where
  "ex_url u = (if u = [] then Throw RuntimeError else Ret (u, []))"

section \<open>Properties\<close>

text \<open>
  C19: setting values over REST is setting them over gRPC: for the same device, values and token
  both controllers leave the service in the same state, with every connection given the same
  updates, and the HTTP status answers the status of gRPC.
\<close>

theorem rest_set_is_grpc_set:
  assumes "authorizationEnabled sv \<longrightarrow> jwsToken sv meta = Ret (rd_jwsToken ctx)"
    and "key = ''PUT/values'' \<and> parse_values cd (jsonBody ctx) = Some vs
       \<or> key = ''PUT/value'' \<and> parse_value cd (jsonBody ctx) = Some v \<and> vs = [(rd_fqoid ctx, v)]"
  shows "\<exists>ctl. unary_route cd decode now key = Some ctl \<and> ctl ctx sv =
     (case MultiSet_process decode now sv meta \<lparr>sp_slot = uint (rd_slot ctx), sp_values = vs\<rparr> of
        Ret (sv', _, rc) \<Rightarrow> Ret (sv', [Response (fst (codeMap rc)) (origin ctx) 0 []])
      | Throw e \<Rightarrow> Throw e
      | Undef \<Rightarrow> Undef)"
proof -
  have "call_authz decode sv meta = rest_authz decode sv ctx"
    using assms(1) by (simp add: rest_authz_def call_authz_def)
  then have "call_authz decode sv meta = call_authz decode sv (meta_of ctx)"
    by (simp only: call_authz_meta)
  then have eq: "MultiSet_process decode now sv meta \<lparr>sp_slot = uint (rd_slot ctx), sp_values = vs\<rparr>
      = MultiSet_process decode now sv (meta_of ctx) \<lparr>sp_slot = uint (rd_slot ctx), sp_values = vs\<rparr>"
    by (simp add: MultiSet_process_def cong: option.case_cong)
  have "send orig sv' rc (Inl ()) = (sv', [Response (fst (codeMap rc)) orig 0 []])" for orig sv' rc
    by (simp add: send_def sendResponse_def Let_def)
  then have set: "rest_MultiSet decode now (Some vs) ctx sv =
     (case MultiSet_process decode now sv meta \<lparr>sp_slot = uint (rd_slot ctx), sp_values = vs\<rparr> of
        Ret (sv', _, rc) \<Rightarrow> Ret (sv', [Response (fst (codeMap rc)) (origin ctx) 0 []])
      | Throw e \<Rightarrow> Throw e
      | Undef \<Rightarrow> Undef)"
    unfolding rest_MultiSet_eq eq by (auto split: res.split prod.split)
  from assms(2) have "\<exists>ctl. unary_route cd decode now key = Some ctl \<and> ctl ctx sv = rest_MultiSet decode now (Some vs) ctx sv"
    by (elim disjE conjE) (simp_all add: unary_route_set rest_toMulti_def rest_toMulti_single_def)
  then show ?thesis unfolding set .
qed

theorem rest_set_is_grpc_set_witness:
  "\<exists>ctl sv' rc. unary_route ex_codec (\<lambda>_. None) 0 ''PUT/value'' = Some ctl
     \<and> ctl ((fresh_reader [] 0)\<lparr>rd_slot := 1, rd_fqoid := ''/mix/level''\<rparr>) ex_service
       = Ret (sv', [Response (fst (codeMap rc)) [] 0 []])
     \<and> MultiSet_process (\<lambda>_. None) 0 ex_service [] \<lparr>sp_slot = 1, sp_values = [(''/mix/level'', Int32Value 9)]\<rparr> = Ret (sv', (), rc)"
proof -
  let ?ctx = "(fresh_reader [] 0)\<lparr>rd_slot := 1, rd_fqoid := ''/mix/level''\<rparr>"
  let ?grpc = "MultiSet_process (\<lambda>_. None) 0 ex_service [] \<lparr>sp_slot = 1, sp_values = [(''/mix/level'', Int32Value 9)]\<rparr>"
  have "case ?grpc of Ret _ \<Rightarrow> True | _ \<Rightarrow> False" by code_simp
  then obtain sv' rc where g: "?grpc = Ret (sv', (), rc)" by (auto split: res.splits)
  from rest_set_is_grpc_set [of ex_service "[]" ?ctx "''PUT/value''" ex_codec "[(''/mix/level'', Int32Value 9)]" "Int32Value 9" "\<lambda>_. None" 0] g
  show ?thesis by (auto simp: ex_service_def ex_codec_def fresh_reader_def)
qed

text \<open>
  An OPTIONS request is answered twice: its own status is taken for an error after the response
  was sent.
\<close>

lemma options_answered_twice:
  "rd_method ctx = Method_OPTIONS \<Longrightarrow>
     \<exists>r s. handle_request cd decode now others False (Ret ctx) sv = Ret (sv, [r, s])"
  using send_pair [of "origin ctx" sv NO_CONTENT "Inl ()"] send_pair [of "''*''" sv NO_CONTENT "Inl ()"]
  by (auto simp: handle_request_def route_def)

end
