(* ===== verification/Rest_Stream.thy ===== *)
theory Rest_Stream
  imports Rest_Service Rpc_Command
begin

text \<open>
  The REST controllers that may answer with a stream: \<^verbatim>\<open>DeviceRequest\<close>, \<^verbatim>\<open>ExecuteCommand\<close>,
  \<^verbatim>\<open>Subscriptions\<close> and \<^verbatim>\<open>ParamInfoRequest\<close>. They write through one of two writers: as server-sent
  events when the client asks for a stream, and otherwise into a buffer that the last, empty message
  sends as one response.
\<close>

section \<open>Writers\<close>

datatype writer = SocketWriter socket_writer | SSEWriter sse_writer

fun write_response :: "writer \<Rightarrow> StatusCode \<Rightarrow> json \<Rightarrow> writer \<times> response list" where
  "write_response (SocketWriter w) err msg = (let (w', out) = sendResponse w err msg in (SocketWriter w', out))"
| "write_response (SSEWriter w) err msg = (let (w', out) = sse_sendResponse w err msg in (SSEWriter w', out))"

text \<open>The choice of the constructors; \<open>buf\<close> is the third argument of \<^verbatim>\<open>SocketWriter\<close>.\<close>

definition make_writer :: "bool \<Rightarrow> bool \<Rightarrow> socket_reader \<Rightarrow> writer" where
  "make_writer sse buf ctx =
     (if sse then SSEWriter \<lparr>sse_origin = origin ctx, headers_sent = False\<rparr>
      else SocketWriter \<lparr>wr_origin = origin ctx, buffer = buf, wr_jsonBody = []\<rparr>)"

definition hasField :: "socket_reader \<Rightarrow> string \<Rightarrow> bool" where
  "hasField ctx key \<longleftrightarrow> map_of (rd_fields ctx) key \<noteq> None"

definition fields_of :: "socket_reader \<Rightarrow> string \<Rightarrow> string" where
  "fields_of ctx key = (case map_of (rd_fields ctx) key of None \<Rightarrow> [] | Some v \<Rightarrow> v)"

text \<open>The conversions of the messages that only these controllers use.\<close>

record stream_codec = codec +
  json_component :: "component \<Rightarrow> string option"
  json_command :: "command_response \<Rightarrow> string option"
  json_info :: "param_info_response \<Rightarrow> string option"
  parse_subscriptions :: "string \<Rightarrow> (string list \<times> string list) option"

section \<open>DeviceRequest\<close>

text \<open>The status of an exception in the controllers with a clause for \<^verbatim>\<open>std::exception\<close>.\<close>

fun rest_status :: "exn \<Rightarrow> StatusCode" where
  "rest_status (ExceptionWithStatus st) = st"
| "rest_status _ = INTERNAL"

text \<open>The loop over the serializer: what it writes, and the status it leaves.\<close>

fun component_loop :: "stream_codec \<Rightarrow> component res list \<Rightarrow> writer \<Rightarrow> (writer \<times> response list \<times> StatusCode) res" where
  "component_loop sc [] w = Ret (w, [], OK)"
| "component_loop sc (Ret component # ser) w =
     (let (w1, out1) = write_response w OK (Inr (json_component sc component)) in
      res_bind (component_loop sc ser w1) (\<lambda>(w2, out2, rc). Ret (w2, out1 @ out2, rc)))"
| "component_loop sc (Throw e # ser) w = Ret (w, [], rest_status e)"
| "component_loop sc (Undef # ser) w = Undef"

definition rest_DeviceRequest :: "stream_codec \<Rightarrow> jwt \<Rightarrow> socket_reader \<Rightarrow> service \<Rightarrow> (service \<times> response list) res" where
  "rest_DeviceRequest sc decode ctx sv =
     (let w = make_writer (stream ctx) True ctx in
      res_bind
        (rest_catch sv (w, [])
          (res_bind (find_device sv (uint (rd_slot ctx))) (\<lambda>d. case d of
             None \<Rightarrow> Ret (sv, (w, []), NOT_FOUND)
           | Some dm \<Rightarrow>
               res_bind (rest_authz decode sv ctx) (\<lambda>authz.
               let dl = rd_detailLevel ctx;
                   subscribedOids = (if dl = SUBSCRIPTIONS then getAllSubscribedOids (subscriptionManager sv) dm else {}) in
               res_bind (getComponentSerializer dm authz subscribedOids dl) (\<lambda>serializer.
               res_bind (component_loop sc serializer w) (\<lambda>(w', out, rc).
               Ret (sv, (w', out), rc)))))))
        (\<lambda>(sv', (w', out), rc). Ret (sv', out @ snd (write_response w' rc (Inl ())))))"

section \<open>ExecuteCommand\<close>

text \<open>The loop over the responder; \<open>clock n\<close> is the time when \<open>n\<close> resumptions are left.\<close>

function rest_command_loop :: "stream_codec \<Rightarrow> (nat \<Rightarrow> int) \<Rightarrow> bool \<Rightarrow> authorizer \<Rightarrow> resumption list \<Rightarrow> writer \<Rightarrow> service
    \<Rightarrow> (service \<times> (writer \<times> response list) \<times> StatusCode) res" where
  "rest_command_loop sc clock respond authz rs w sv =
     (if \<not> responder_hasMore rs then Ret (sv, (w, []), OK)
      else if isExpired authz (clock (length rs)) then Ret (sv, (w, []), UNAUTHENTICATED)
      else case responder_getNext rs sv of
        (sv', Ret m, rs') \<Rightarrow>
          (let (w1, out1) = (if respond then write_response w OK (Inr (json_command sc m)) else (w, [])) in
           res_bind (rest_command_loop sc clock respond authz rs' w1 sv') (\<lambda>(sv'', (w2, out2), rc).
           Ret (sv'', (w2, out1 @ out2), rc)))
      | (sv', Throw e, rs') \<Rightarrow> Ret (sv', (w, []), catch_status e)
      | (sv', Undef, rs') \<Rightarrow> Undef)"
  by pat_completeness auto
termination
  by (relation "measure (\<lambda>(sc, clock, respond, authz, rs, w, sv). length rs)")
    (auto simp: responder_hasMore_def responder_getNext_def Let_def split: list.splits prod.splits)

declare rest_command_loop.simps [simp del]

definition rest_ExecuteCommand :: "stream_codec \<Rightarrow> command_table \<Rightarrow> jwt \<Rightarrow> (nat \<Rightarrow> int) \<Rightarrow> socket_reader \<Rightarrow> service
    \<Rightarrow> (service \<times> response list) res" where
  "rest_ExecuteCommand sc tbl decode clock ctx sv =
     (let w = make_writer (stream ctx) True ctx;
          respond = hasField ctx ''respond'' in
      res_bind
        (try_catch sv (w, [])
          (res_bind (find_device sv (uint (rd_slot ctx))) (\<lambda>d. case d of
             None \<Rightarrow> Ret (sv, (w, []), NOT_FOUND)
           | Some dm \<Rightarrow>
               (case (if jsonBody ctx = [] then Some KindNotSet else parse_value sc (jsonBody ctx)) of
                  None \<Rightarrow> Ret (sv, (w, []), INVALID_ARGUMENT)
                | Some val \<Rightarrow>
                    res_bind (rest_authz decode sv ctx) (\<lambda>authz.
                    res_bind (getCommand dm (rd_fqoid ctx) OK authz) (\<lambda>(command, rc). case command of
                      None \<Rightarrow> Ret (sv, (w, []), rc)
                    | Some p \<Rightarrow>
                        res_bind (executeCommand tbl (slot dm) p val respond rc authz) (\<lambda>(responder, rc').
                        if rc' = OK then
                          (case responder of
                             None \<Rightarrow> Ret (sv, (w, []), INTERNAL)
                           | Some rs \<Rightarrow> rest_command_loop sc clock respond authz rs w sv)
                        else Ret (sv, (w, []), rc'))))))))
        (\<lambda>(sv', (w', out), rc). Ret (sv', out @ snd (write_response w' rc (Inl ())))))"

section \<open>Subscriptions\<close>

text \<open>What is sent for one oid, and the status that says whether it is.\<close>

definition subscribed_param :: "device \<Rightarrow> authorizer \<Rightarrow> string \<Rightarrow> ((string \<times> pparam) \<times> StatusCode) res" where
  "subscribed_param dm authz oid =
     res_bind (getParam_fqoid dm oid OK authz) (\<lambda>(param, supressErr). case param of
       None \<Rightarrow> Ret (([], pparam_default), supressErr)
     | Some p \<Rightarrow>
         res_bind (deref dm p) (\<lambda>v.
         res_bind (param_toProto p v pparam_default authz) (\<lambda>(rc, msg).
         Ret ((pd_oid (node (p_desc p)), msg), rc))))"

fun subscribed_loop :: "stream_codec \<Rightarrow> device \<Rightarrow> authorizer \<Rightarrow> string list \<Rightarrow> writer \<Rightarrow> (writer \<times> response list \<times> StatusCode) res" where
  "subscribed_loop sc dm authz [] w = Ret (w, [], OK)"
| "subscribed_loop sc dm authz (oid # oids) w =
     (case subscribed_param dm authz oid of
        Ret (res, supressErr) \<Rightarrow>
          (let (w1, out1) = (if supressErr = OK then write_response w OK (Inr (json_param sc res)) else (w, [])) in
           res_bind (subscribed_loop sc dm authz oids w1) (\<lambda>(w2, out2, rc). Ret (w2, out1 @ out2, rc)))
      | Throw e \<Rightarrow> Ret (w, [], catch_status e)
      | Undef \<Rightarrow> Undef)"

definition rest_Subscriptions :: "stream_codec \<Rightarrow> jwt \<Rightarrow> socket_reader \<Rightarrow> service \<Rightarrow> (service \<times> response list) res" where
  "rest_Subscriptions sc decode ctx sv =
     (let w = make_writer (rd_method ctx = Method_GET \<and> stream ctx) True ctx in
      res_bind
        (try_catch sv (w, [])
          (res_bind (find_device sv (uint (rd_slot ctx))) (\<lambda>d. case d of
             None \<Rightarrow> Ret (sv, (w, []), NOT_FOUND)
           | Some dm \<Rightarrow>
               if \<not> subscriptions dm then Ret (sv, (w, []), FAILED_PRECONDITION)
               else
                 res_bind (rest_authz decode sv ctx) (\<lambda>authz.
                 if rd_method ctx = Method_GET then
                   res_bind (subscribed_loop sc dm authz (sorted_list_of_set (getAllSubscribedOids (subscriptionManager sv) dm)) w)
                     (\<lambda>(w', out, rc). Ret (sv, (w', out), rc))
                 else if rd_method ctx = Method_PUT then
                   (case parse_subscriptions sc (jsonBody ctx) of
                      None \<Rightarrow> Ret (sv, (w, []), INVALID_ARGUMENT)
                    | Some (added, removed) \<Rightarrow>
                        (let (sm, r) = add_subscriptions (subscriptionManager sv) added dm authz in
                         try_catch (sv\<lparr>subscriptionManager := sm\<rparr>) (w, [])
                           (res_bind r (\<lambda>_.
                            Ret (sv\<lparr>subscriptionManager := remove_subscriptions sm removed dm\<rparr>, (w, []), OK)))))
                 else Ret (sv, (w, []), UNIMPLEMENTED)))))
        (\<lambda>(sv', (w', out), rc). Ret (sv', out @ snd (write_response w' rc (Inl ())))))"

section \<open>ParamInfoRequest\<close>

text \<open>
  The answers are collected as for gRPC. Those collected before an exception are dropped: a response
  with an error has no body.
\<close>

fun info_loop :: "stream_codec \<Rightarrow> param_info_response list \<Rightarrow> writer \<Rightarrow> writer \<times> response list" where
  "info_loop sc [] w = (w, [])"
| "info_loop sc (r # rs) w =
     (let (w1, out1) = write_response w OK (Inr (json_info sc r)); (w2, out2) = info_loop sc rs w1 in (w2, out1 @ out2))"

definition rest_ParamInfoRequest :: "stream_codec \<Rightarrow> jwt \<Rightarrow> socket_reader \<Rightarrow> service \<Rightarrow> (service \<times> response list) res" where
  "rest_ParamInfoRequest sc decode ctx sv =
     (let w = make_writer (stream ctx) False ctx;
          rec = hasField ctx ''recursive'' in
      res_bind
        (rest_catch sv []
          (res_bind (find_device sv (uint (rd_slot ctx))) (\<lambda>d. case d of
             None \<Rightarrow> Ret (sv, [], NOT_FOUND)
           | Some dm \<Rightarrow>
               if \<not> stream ctx \<and> rec then Ret (sv, [], INVALID_ARGUMENT)
               else if \<not> stream ctx \<and> rd_fqoid ctx = [] then Throw (ExceptionWithStatus INVALID_ARGUMENT)
               else
                 res_bind (rest_authz decode sv ctx) (\<lambda>authz.
                 res_bind (ParamInfo_collect dm \<lparr>pi_slot = uint (rd_slot ctx), oid_prefix = rd_fqoid ctx, recursive = rec\<rparr> authz)
                   (\<lambda>(rs, rc). Ret (sv, rs, rc))))))
        (\<lambda>(sv', rs, rc).
           if stream ctx then
             let (w', out) = (if rc = OK \<and> rs \<noteq> [] then info_loop sc rs w else (w, [])) in
             Ret (sv', out @ snd (write_response w' rc (Inl ())))
           else if length rs = 1 then Ret (sv', snd (write_response w rc (Inr (json_info sc (hd rs)))))
           else Ret (sv', snd (write_response w rc (Inl ())))))"

section \<open>What a client receives\<close>

fun joined :: "string list \<Rightarrow> string" where
  "joined [] = []"
| "joined [j] = j"
| "joined (j # js) = j @ '','' @ joined js"

text \<open>The answer that carries the messages \<open>js\<close> and the status \<open>rc\<close>.\<close>

definition delivery :: "bool \<Rightarrow> string \<Rightarrow> string list \<Rightarrow> StatusCode \<Rightarrow> response list" where
  "delivery sse orig js rc =
     (let code = fst (codeMap rc);
          body = (if js = [] then [] else ''{\"data\":['' @ joined js @ '']}'') in
      if sse then SseHead (if js = [] then code else 200) orig # map SseData js
      else if code \<ge> 300 then [Response code orig 0 []]
      else [Response code orig (length body) body])"

fun write_all :: "writer \<Rightarrow> string list \<Rightarrow> writer \<times> response list" where
  "write_all w [] = (w, [])"
| "write_all w (j # js) =
     (let (w1, out1) = write_response w OK (Inr (Some j)); (w2, out2) = write_all w1 js in (w2, out1 @ out2))"

lemma joined_Cons: "js \<noteq> [] \<Longrightarrow> joined (j # js) = j @ '','' @ joined js"
  by (cases js) auto

lemma joined_snoc: "joined ((j # js) @ [k]) = joined (j # js) @ '','' @ k"
  by (induction js arbitrary: j) auto

lemma joined_merge: "joined ((a @ '','' @ b) # js) = joined (a # b # js)"
  by (cases js) auto

lemma joined_nonempty: "list_all (\<lambda>j. j \<noteq> []) js \<Longrightarrow> js \<noteq> [] \<Longrightarrow> joined js \<noteq> []"
  by (cases js rule: joined.cases) auto

lemma write_buffered:
  assumes "buffer w" "j \<noteq> []"
  shows "write_response (SocketWriter w) OK (Inr (Some j)) =
     (SocketWriter (w\<lparr>wr_jsonBody := (if wr_jsonBody w = [] then j else wr_jsonBody w @ '','' @ j)\<rparr>), [])"
  using assms by (simp add: sendResponse_def Let_def)

lemma write_all_socket:
  assumes "list_all (\<lambda>j. j \<noteq> []) js" "buffer w"
  shows "write_all (SocketWriter w) js =
     (SocketWriter (w\<lparr>wr_jsonBody := (if wr_jsonBody w = [] then joined js else joined (wr_jsonBody w # js))\<rparr>), [])"
  using assms
proof (induction js arbitrary: w)
  case (Cons j js)
  let ?w = "w\<lparr>wr_jsonBody := (if wr_jsonBody w = [] then j else wr_jsonBody w @ '','' @ j)\<rparr>"
  from Cons have w: "write_response (SocketWriter w) OK (Inr (Some j)) = (SocketWriter ?w, [])" "wr_jsonBody ?w \<noteq> []"
    by (simp_all add: write_buffered del: write_response.simps)
  have "write_all (SocketWriter ?w) js = (SocketWriter (?w\<lparr>wr_jsonBody := joined (wr_jsonBody ?w # js)\<rparr>), [])"
    using Cons.IH [of ?w] Cons.prems w(2) by simp
  moreover have "joined (wr_jsonBody ?w # js) = (if wr_jsonBody w = [] then joined (j # js) else joined (wr_jsonBody w # j # js))"
    using joined_merge [of "wr_jsonBody w" j js] by simp
  ultimately show ?case using w(1) by (simp add: Let_def del: joined.simps write_response.simps)
qed auto

lemma write_all_sse:
  assumes "list_all (\<lambda>j. j \<noteq> []) js"
  shows "write_all (SSEWriter w) js =
     (SSEWriter (w\<lparr>headers_sent := headers_sent w \<or> js \<noteq> []\<rparr>),
      (if headers_sent w \<or> js = [] then [] else [SseHead 200 (sse_origin w)]) @ map SseData js)"
  using assms by (induction js arbitrary: w) (auto simp: sse_sendResponse_def Let_def)

lemma delivered:
  assumes "list_all (\<lambda>j. j \<noteq> []) js" "write_all (make_writer sse True ctx) js = (w', out)"
  shows "out @ snd (write_response w' rc (Inl ())) = delivery sse (origin ctx) js rc"
proof (cases sse)
  case True
  with assms show ?thesis
    by (auto simp: make_writer_def write_all_sse delivery_def sse_sendResponse_def Let_def)
next
  case False
  with assms joined_nonempty [OF assms(1)] show ?thesis
    by (auto simp: make_writer_def write_all_socket delivery_def sendResponse_def Let_def)
qed

section \<open>The contract of a streaming controller\<close>

text \<open>The work of a controller has written some messages and leaves a status and the invariant of the service.\<close>

definition streams :: "writer \<Rightarrow> (service \<times> (writer \<times> response list) \<times> StatusCode) res \<Rightarrow> bool" where
  "streams w m \<longleftrightarrow> m \<noteq> Undef \<and>
     (\<forall>x. m = Ret x \<longrightarrow> (\<exists>sv' js rc. x = (sv', write_all w js, rc) \<and> list_all (\<lambda>j. j \<noteq> []) js \<and> service_ok sv'))"

lemma streams_simps [simp]: "streams w (Throw e)" "\<not> streams w Undef"
  by (simp_all add: streams_def)

lemma streams_Ret [intro]:
  "write_all w js = x \<Longrightarrow> list_all (\<lambda>j. j \<noteq> []) js \<Longrightarrow> service_ok sv' \<Longrightarrow> streams w (Ret (sv', x, rc))"
  by (auto simp: streams_def)

lemma streams_none [intro]: "service_ok sv' \<Longrightarrow> streams w (Ret (sv', (w, []), rc))"
  by (rule streams_Ret [of w "[]"]) auto

lemma streams_bind: "m \<noteq> Undef \<Longrightarrow> (\<And>x. m = Ret x \<Longrightarrow> streams w (f x)) \<Longrightarrow> streams w (res_bind m f)"
  by (cases m) auto

lemma streams_try: "streams w m \<Longrightarrow> service_ok sv \<Longrightarrow> streams w (try_catch sv (w, []) m)"
  by (cases m) auto

lemma streams_rest: "streams w m \<Longrightarrow> service_ok sv \<Longrightarrow> streams w (rest_catch sv (w, []) m)"
  by (cases "(sv, (w, [] :: response list), m)" rule: rest_catch.cases) auto

lemma not_Throw_catch: "try_catch sv ans m \<noteq> Throw e" "rest_catch sv ans m \<noteq> Throw e"
  by (cases m, auto) (cases "(sv, ans, m)" rule: rest_catch.cases, auto)

text \<open>The request finds its device, whose work streams.\<close>

lemma streams_device:
  assumes "service_ok sv" "\<And>dm. find_device sv n = Ret (Some dm) \<Longrightarrow> streams w (work dm)"
  shows "streams w (res_bind (find_device sv n) (\<lambda>d. case d of None \<Rightarrow> Ret (sv, (w, []), NOT_FOUND) | Some dm \<Rightarrow> work dm))"
  using assms find_device_defined by (intro streams_bind) (auto split: option.split)

lemma streams_finish:
  assumes "streams (make_writer sse True ctx) m" "\<And>e. m \<noteq> Throw e"
  shows "\<exists>sv' js rc. res_bind m (\<lambda>(sv', (w', out), rc). Ret (sv', out @ snd (write_response w' rc (Inl ()))))
     = Ret (sv', delivery sse (origin ctx) js rc) \<and> service_ok sv'"
proof (cases m)
  case (Ret x)
  with assms(1) obtain sv' js rc where x: "x = (sv', write_all (make_writer sse True ctx) js, rc)"
    "list_all (\<lambda>j. j \<noteq> []) js" "service_ok sv'" by (auto simp: streams_def)
  obtain w' out where w: "write_all (make_writer sse True ctx) js = (w', out)" by fastforce
  with delivered [OF x(2) w, of rc] x Ret show ?thesis by auto
qed (use assms in auto)

text \<open>The conversion to json always gives a text.\<close>

definition jsonic :: "('m \<Rightarrow> string option) \<Rightarrow> bool" where
  "jsonic f \<longleftrightarrow> (\<forall>m. \<exists>j. f m = Some j \<and> j \<noteq> [])"

definition codec_ok :: "stream_codec \<Rightarrow> bool" where
  "codec_ok sc \<longleftrightarrow> jsonic (json_component sc) \<and> jsonic (json_command sc) \<and> jsonic (json_info sc) \<and> jsonic (json_param sc)"

lemma delivery_one: "one_answer (delivery sse orig js rc)"
  by (auto simp: delivery_def one_answer_def Let_def)

locale rest_streamer =
  fixes ctl :: "socket_reader \<Rightarrow> service \<Rightarrow> (service \<times> response list) res"
    and good :: "service \<Rightarrow> socket_reader \<Rightarrow> bool"
  assumes streams: "service_ok sv \<Longrightarrow> good sv ctx \<Longrightarrow> \<exists>sv' out. ctl ctx sv = Ret (sv', out) \<and> one_answer out \<and> service_ok sv'"
begin

lemma routed:
  assumes "service_ok sv" "good sv ctx" "others key ctx sv = res_bind (ctl ctx sv) (\<lambda>(sv', out). Ret (sv', out, None))"
    and "key = method_name (rd_method ctx) @ endpoint ctx" "rd_method ctx \<noteq> Method_OPTIONS" "key \<in> set stream_routes"
  shows "\<exists>sv' out. route cd decode now others ctx sv = Ret (sv', out, OK) \<and> one_answer out \<and> service_ok sv'"
proof -
  from streams [OF assms(1,2)] obtain sv' out where "ctl ctx sv = Ret (sv', out)" "one_answer out" "service_ok sv'" by blast
  moreover have "\<not> (rd_method ctx = Method_GET \<and> endpoint ctx = ''/health'')"
    using assms(4,6) by (auto simp: stream_routes_def)
  ultimately show ?thesis using assms(3-6) by (auto simp: route_def Let_def)
qed

end

lemma rest_authz_defined: "token_ok decode (meta_of ctx) \<Longrightarrow> rest_authz decode sv ctx \<noteq> Undef"
  using call_authz_defined [of decode "meta_of ctx" sv] by (simp add: call_authz_meta)

text \<open>The devices of a service have the names and the commands that the streams rely on.\<close>

definition devices_named :: "service \<Rightarrow> bool" where
  "devices_named sv \<longleftrightarrow> (\<forall>s dm. device_at (dms sv) s = Some dm \<longrightarrow> names_ok dm \<and> commands_ok dm)"

lemma device_facts:
  assumes "find_device sv n = Ret (Some dm)" "service_ok sv" "devices_named sv"
  shows "device_ok dm" "names_ok dm" "commands_ok dm"
  using find_device_Some [OF assms(1,2)] assms(3) by (auto simp: devices_named_def)

subsection \<open>DeviceRequest\<close>

lemma component_loop_streams:
  assumes "jsonic (json_component sc)" "list_all is_ret ser"
  shows "\<exists>js. list_all (\<lambda>j. j \<noteq> []) js \<and> map Some js = map (json_component sc) (rets ser)
     \<and> component_loop sc ser w = (case write_all w js of (w', out) \<Rightarrow> Ret (w', out, OK))"
  using assms(2)
proof (induction ser arbitrary: w)
  case (Cons r ser)
  then obtain m where r: "r = Ret m" by (cases r) auto
  from assms(1) obtain j where j: "json_component sc m = Some j" "j \<noteq> []" by (auto simp: jsonic_def)
  obtain w1 out1 where w1: "write_response w OK (Inr (Some j)) = (w1, out1)" by fastforce
  from Cons.IH [of w1] Cons.prems obtain js where
    "list_all (\<lambda>j. j \<noteq> []) js" "map Some js = map (json_component sc) (rets ser)"
    "component_loop sc ser w1 = (case write_all w1 js of (w', out) \<Rightarrow> Ret (w', out, OK))" by auto
  with j r w1 show ?case by (intro exI [of _ "j # js"]) (auto simp: Let_def split: prod.split)
qed (auto intro: exI [of _ "[]"])

interpretation rdr: rest_streamer "rest_DeviceRequest sc decode"
  "\<lambda>sv ctx. codec_ok sc \<and> devices_named sv \<and> token_ok decode (meta_of ctx)" for sc decode
proof
  fix sv and ctx :: socket_reader
  assume *: "service_ok sv" "codec_ok sc \<and> devices_named sv \<and> token_ok decode (meta_of ctx)"
  let ?w = "make_writer (stream ctx) True ctx"
  have loop: "streams ?w (res_bind (component_loop sc (getDeviceSerializer dm a oids dl) ?w) (\<lambda>(w', out, rc). Ret (sv, (w', out), rc)))"
    if "find_device sv n = Ret (Some dm)" for n dm a oids dl
  proof -
    from device_facts [OF that *(1)] *(2) have "list_all is_ret (getDeviceSerializer dm a oids dl)" by (intro serializer_returns) auto
    with component_loop_streams [of sc _ ?w] *(2) obtain js where "list_all (\<lambda>j. j \<noteq> []) js"
      "component_loop sc (getDeviceSerializer dm a oids dl) ?w = (case write_all ?w js of (w', out) \<Rightarrow> Ret (w', out, OK))"
      by (fastforce simp: codec_ok_def)
    with *(1) show ?thesis by (auto split: prod.split)
  qed
  let ?m = "rest_catch sv (?w, []) (res_bind (find_device sv (uint (rd_slot ctx))) (\<lambda>d. case d of
             None \<Rightarrow> Ret (sv, (?w, []), NOT_FOUND)
           | Some dm \<Rightarrow> res_bind (rest_authz decode sv ctx) (\<lambda>authz.
               let dl = rd_detailLevel ctx;
                   subscribedOids = (if dl = SUBSCRIPTIONS then getAllSubscribedOids (subscriptionManager sv) dm else {}) in
               res_bind (getComponentSerializer dm authz subscribedOids dl) (\<lambda>serializer.
               res_bind (component_loop sc serializer ?w) (\<lambda>(w', out, rc). Ret (sv, (w', out), rc))))))"
  have "streams ?w ?m"
    using rest_authz_defined [of decode ctx sv] *
    by (intro streams_rest streams_device streams_bind) (auto simp: Let_def getComponentSerializer_def loop)
  then have "\<exists>sv' js rc. rest_DeviceRequest sc decode ctx sv = Ret (sv', delivery (stream ctx) (origin ctx) js rc) \<and> service_ok sv'"
    unfolding rest_DeviceRequest_def Let_def by (intro streams_finish not_Throw_catch)
  then show "\<exists>sv' out. rest_DeviceRequest sc decode ctx sv = Ret (sv', out) \<and> one_answer out \<and> service_ok sv'"
    using delivery_one by blast
qed

subsection \<open>ExecuteCommand\<close>

text \<open>The commands of the application keep the invariant of the service.\<close>

definition resumption_ok :: "resumption \<Rightarrow> bool" where
  "resumption_ok r \<longleftrightarrow> (\<forall>sv. service_ok sv \<longrightarrow> service_ok (fst (r sv)) \<and> snd (r sv) \<noteq> Undef)"

definition table_ok :: "command_table \<Rightarrow> bool" where
  "table_ok tbl \<longleftrightarrow> (\<forall>s name impl v respond. tbl s name = Some impl \<longrightarrow> impl v respond \<noteq> Undef
     \<and> (\<forall>rs. impl v respond = Ret (Some rs) \<longrightarrow> list_all resumption_ok rs))"

lemma command_loop_streams:
  assumes "jsonic (json_command sc)"
  shows "service_ok sv \<Longrightarrow> list_all resumption_ok rs \<Longrightarrow> streams w (rest_command_loop sc clock respond a rs w sv)
     \<and> (\<forall>e. rest_command_loop sc clock respond a rs w sv \<noteq> Throw e)"
proof (induction rs arbitrary: w sv)
  case Nil
  then show ?case by (subst (1 2) rest_command_loop.simps) (auto simp: responder_hasMore_def)
next
  case (Cons r rs)
  obtain sv1 m where r: "r sv = (sv1, m)" by fastforce
  with Cons.prems have ok: "service_ok sv1" "m \<noteq> Undef" by (auto simp: resumption_ok_def)
  show ?case
  proof (cases "isExpired a (clock (Suc (length rs)))")
    case True
    with Cons.prems(1) show ?thesis by (subst (1 2) rest_command_loop.simps) (auto simp: responder_hasMore_def)
  next
    case live: False
    show ?thesis
    proof (cases m)
      case (Throw e)
      with r live ok show ?thesis
        by (subst (1 2) rest_command_loop.simps) (auto simp: responder_hasMore_def responder_getNext_def)
    next
      case (Ret x)
      from assms obtain j where j: "json_command sc x = Some j" "j \<noteq> []" by (auto simp: jsonic_def)
      obtain w1 out1 where w1: "(if respond then write_response w OK (Inr (Some j)) else (w, [])) = (w1, out1)" by fastforce
      from Cons.IH [OF ok(1), of w1] Cons.prems(2) obtain sv' js rc where
        l: "rest_command_loop sc clock respond a rs w1 sv1 = Ret (sv', write_all w1 js, rc)" "list_all (\<lambda>j. j \<noteq> []) js" "service_ok sv'"
        by (cases "rest_command_loop sc clock respond a rs w1 sv1") (auto simp: streams_def)
      let ?js = "(if respond then [j] else []) @ js"
      have "rest_command_loop sc clock respond a (r # rs) w sv = Ret (sv', write_all w ?js, rc)"
        using r live Ret j w1 l(1)
        by (subst rest_command_loop.simps) (auto simp: responder_hasMore_def responder_getNext_def split: prod.splits if_splits)
      with l(2,3) j(2) show ?thesis by (auto simp: streams_def intro!: exI [of _ ?js])
    qed (use ok in simp)
  qed
qed

lemma getCommand_defined: "getCommand dm jptr rc a \<noteq> Undef"
  using Path_defined [of jptr] by (auto simp: getCommand_def Let_def split: res.split exn.split option.split)

lemma commandImpl_ok:
  assumes "table_ok tbl"
  shows "commandImpl tbl s name v respond \<noteq> Undef"
    "commandImpl tbl s name v respond = Ret (Some rs) \<Longrightarrow> list_all resumption_ok rs"
  using assms by (auto simp: commandImpl_def table_ok_def default_impl_def resumption_ok_def split: option.splits)

interpretation rec: rest_streamer "rest_ExecuteCommand sc tbl decode clock"
  "\<lambda>sv ctx. codec_ok sc \<and> table_ok tbl \<and> token_ok decode (meta_of ctx)" for sc tbl decode clock
proof
  fix sv and ctx :: socket_reader
  assume *: "service_ok sv" "codec_ok sc \<and> table_ok tbl \<and> token_ok decode (meta_of ctx)"
  let ?w = "make_writer (stream ctx) True ctx" and ?respond = "hasField ctx ''respond''"
  have exec: "streams ?w (res_bind (executeCommand tbl s p val ?respond rc a) (\<lambda>(responder, rc').
        if rc' = OK then
          (case responder of None \<Rightarrow> Ret (sv, (?w, []), INTERNAL) | Some rs \<Rightarrow> rest_command_loop sc clock ?respond a rs ?w sv)
        else Ret (sv, (?w, []), rc')))" for s p val rc a
    using commandImpl_ok [of tbl s "command_name p" val ?respond] command_loop_streams [of sc sv _ ?w clock ?respond a] *
    by (cases "commandImpl tbl s (command_name p) val ?respond")
      (auto simp: executeCommand_def codec_ok_def intro!: streams_none split: option.split)
  let ?work = "\<lambda>dm. case (if jsonBody ctx = [] then Some KindNotSet else parse_value sc (jsonBody ctx)) of
      None \<Rightarrow> Ret (sv, (?w, []), INVALID_ARGUMENT)
    | Some val \<Rightarrow> res_bind (rest_authz decode sv ctx) (\<lambda>authz.
        res_bind (getCommand dm (rd_fqoid ctx) OK authz) (\<lambda>(command, rc). case command of
          None \<Rightarrow> Ret (sv, (?w, []), rc)
        | Some p \<Rightarrow> res_bind (executeCommand tbl (slot dm) p val ?respond rc authz) (\<lambda>(responder, rc').
            if rc' = OK then
              (case responder of None \<Rightarrow> Ret (sv, (?w, []), INTERNAL) | Some rs \<Rightarrow> rest_command_loop sc clock ?respond authz rs ?w sv)
            else Ret (sv, (?w, []), rc'))))"
  have "streams ?w (?work dm)" for dm
    using rest_authz_defined [of decode ctx sv] * getCommand_defined exec
    by (auto intro!: streams_bind split: option.split)
  then have "streams ?w (try_catch sv (?w, []) (res_bind (find_device sv (uint (rd_slot ctx))) (\<lambda>d. case d of
      None \<Rightarrow> Ret (sv, (?w, []), NOT_FOUND) | Some dm \<Rightarrow> ?work dm)))"
    using *(1) by (intro streams_try streams_device)
  then have "\<exists>sv' js rc. rest_ExecuteCommand sc tbl decode clock ctx sv = Ret (sv', delivery (stream ctx) (origin ctx) js rc) \<and> service_ok sv'"
    unfolding rest_ExecuteCommand_def Let_def by (intro streams_finish not_Throw_catch)
  then show "\<exists>sv' out. rest_ExecuteCommand sc tbl decode clock ctx sv = Ret (sv', out) \<and> one_answer out \<and> service_ok sv'"
    using delivery_one by blast
qed

subsection \<open>Subscriptions\<close>

lemma subscribed_param_total:
  assumes "device_ok dm"
  shows "\<exists>x rc. subscribed_param dm a oid = Ret (x, rc)"
  using assms
proof (cases rule: getParam_fqoid_cases [of dm oid a])
  case (found p v)
  then have "handle_ok p v" by (simp add: live_def)
  from param_toProto_total [OF this, of pparam_default a] found live_deref show ?thesis by (auto simp: subscribed_param_def)
qed (simp add: subscribed_param_def)

lemma subscribed_loop_streams:
  assumes "jsonic (json_param sc)" "device_ok dm"
  shows "\<exists>js. list_all (\<lambda>j. j \<noteq> []) js \<and> subscribed_loop sc dm a oids w = (case write_all w js of (w', out) \<Rightarrow> Ret (w', out, OK))"
proof (induction oids arbitrary: w)
  case (Cons oid oids)
  from subscribed_param_total [OF assms(2)] obtain x rc where x: "subscribed_param dm a oid = Ret (x, rc)" by blast
  from assms(1) obtain j where j: "json_param sc x = Some j" "j \<noteq> []" by (metis jsonic_def)
  obtain w1 out1 where w1: "(if rc = OK then write_response w OK (Inr (Some j)) else (w, [])) = (w1, out1)" by fastforce
  from Cons.IH [of w1] obtain js where
    "list_all (\<lambda>j. j \<noteq> []) js" "subscribed_loop sc dm a oids w1 = (case write_all w1 js of (w', out) \<Rightarrow> Ret (w', out, OK))" by blast
  with x j w1 show ?case
    by (intro exI [of _ "(if rc = OK then [j] else []) @ js"]) (auto split: prod.splits if_splits)
qed (auto intro: exI [of _ "[]"])

lemma service_ok_subscriptions [simp]: "service_ok (sv\<lparr>subscriptionManager := sm\<rparr>) = service_ok sv"
  by (simp add: service_ok_def connections_ok_def registry_ok_def)

interpretation rsu: rest_streamer "rest_Subscriptions sc decode"
  "\<lambda>sv ctx. codec_ok sc \<and> devices_named sv \<and> token_ok decode (meta_of ctx)" for sc decode
proof
  fix sv and ctx :: socket_reader
  assume *: "service_ok sv" "codec_ok sc \<and> devices_named sv \<and> token_ok decode (meta_of ctx)"
  let ?sse = "rd_method ctx = Method_GET \<and> stream ctx"
  let ?w = "make_writer ?sse True ctx"
  let ?work = "\<lambda>dm. if \<not> subscriptions dm then Ret (sv, (?w, []), FAILED_PRECONDITION)
     else res_bind (rest_authz decode sv ctx) (\<lambda>authz.
       if rd_method ctx = Method_GET then
         res_bind (subscribed_loop sc dm authz (sorted_list_of_set (getAllSubscribedOids (subscriptionManager sv) dm)) ?w)
           (\<lambda>(w', out, rc). Ret (sv, (w', out), rc))
       else if rd_method ctx = Method_PUT then
         (case parse_subscriptions sc (jsonBody ctx) of
            None \<Rightarrow> Ret (sv, (?w, []), INVALID_ARGUMENT)
          | Some (added, removed) \<Rightarrow>
              (let (sm, r) = add_subscriptions (subscriptionManager sv) added dm authz in
               try_catch (sv\<lparr>subscriptionManager := sm\<rparr>) (?w, [])
                 (res_bind r (\<lambda>_. Ret (sv\<lparr>subscriptionManager := remove_subscriptions sm removed dm\<rparr>, (?w, []), OK)))))
       else Ret (sv, (?w, []), UNIMPLEMENTED))"
  have work: "streams ?w (?work dm)" if "find_device sv (uint (rd_slot ctx)) = Ret (Some dm)" for dm
  proof -
    note dm = device_facts [OF that *(1)]
    have get: "streams w (res_bind (subscribed_loop sc dm a oids w) (\<lambda>(w', out, rc). Ret (sv, (w', out), rc)))" for a oids w
      using subscribed_loop_streams [of sc dm a oids w] dm(1) * by (fastforce simp: codec_ok_def split: prod.split)
    have put: "streams w (let (sm, r) = add_subscriptions (subscriptionManager sv) added dm a in
               try_catch (sv\<lparr>subscriptionManager := sm\<rparr>) (w, [])
                 (res_bind r (\<lambda>_. Ret (sv\<lparr>subscriptionManager := remove_subscriptions sm removed dm\<rparr>, (w, []), OK))))" for added removed a w
      using add_subscriptions_ok [of dm "subscriptionManager sv" added a] dm * by (auto intro!: streams_none)
    show ?thesis
    proof (cases "rest_authz decode sv ctx")
      case (Ret a)
      with *(1) get put show ?thesis by (auto intro!: streams_none split: option.split)
    qed (use rest_authz_defined [of decode ctx sv] * in auto)
  qed
  have "streams ?w (try_catch sv (?w, []) (res_bind (find_device sv (uint (rd_slot ctx))) (\<lambda>d. case d of
      None \<Rightarrow> Ret (sv, (?w, []), NOT_FOUND) | Some dm \<Rightarrow> ?work dm)))"
    using *(1) work by (intro streams_try streams_device)
  then have "\<exists>sv' js rc. rest_Subscriptions sc decode ctx sv = Ret (sv', delivery ?sse (origin ctx) js rc) \<and> service_ok sv'"
    unfolding rest_Subscriptions_def Let_def [of "make_writer _ _ _"] by (intro streams_finish not_Throw_catch)
  then show "\<exists>sv' out. rest_Subscriptions sc decode ctx sv = Ret (sv', out) \<and> one_answer out \<and> service_ok sv'"
    using delivery_one by blast
qed

subsection \<open>ParamInfoRequest\<close>

lemma info_loop_streams:
  assumes "jsonic (json_info sc)"
  shows "\<exists>js. list_all (\<lambda>j. j \<noteq> []) js \<and> info_loop sc rs w = write_all w js"
proof (induction rs arbitrary: w)
  case (Cons r rs)
  from assms obtain j where j: "json_info sc r = Some j" "j \<noteq> []" by (metis jsonic_def)
  from Cons.IH [of "fst (write_response w OK (Inr (Some j)))"] obtain js where
    "list_all (\<lambda>j. j \<noteq> []) js" "info_loop sc rs (fst (write_response w OK (Inr (Some j)))) = write_all (fst (write_response w OK (Inr (Some j)))) js"
    by blast
  with j show ?case by (intro exI [of _ "j # js"]) (auto simp: Let_def split: prod.splits)
qed (auto intro: exI [of _ "[]"])

lemma unbuffered_one: "one_answer (snd (write_response (make_writer sse False ctx) rc (Inl ())))"
  "one_answer (snd (write_response (make_writer False False ctx) rc msg))"
  by (auto simp: make_writer_def sendResponse_def sse_sendResponse_def one_answer_def Let_def)

interpretation rpi: rest_streamer "rest_ParamInfoRequest sc decode"
  "\<lambda>sv ctx. codec_ok sc \<and> devices_named sv \<and> token_ok decode (meta_of ctx)" for sc decode
proof
  fix sv and ctx :: socket_reader
  assume *: "service_ok sv" "codec_ok sc \<and> devices_named sv \<and> token_ok decode (meta_of ctx)"
  let ?rec = "hasField ctx ''recursive''" and ?w = "make_writer (stream ctx) False ctx"
  let ?req = "\<lparr>pi_slot = uint (rd_slot ctx), oid_prefix = rd_fqoid ctx, recursive = ?rec\<rparr>"
  let ?work = "\<lambda>dm. if \<not> stream ctx \<and> ?rec then Ret (sv, [], INVALID_ARGUMENT)
      else if \<not> stream ctx \<and> rd_fqoid ctx = [] then Throw (ExceptionWithStatus INVALID_ARGUMENT)
      else res_bind (rest_authz decode sv ctx) (\<lambda>authz. res_bind (ParamInfo_collect dm ?req authz) (\<lambda>(rs, rc). Ret (sv, rs, rc)))"
  let ?body = "res_bind (find_device sv (uint (rd_slot ctx))) (\<lambda>d. case d of None \<Rightarrow> Ret (sv, [], NOT_FOUND) | Some dm \<Rightarrow> ?work dm)"
  have "ParamInfo_collect dm ?req a \<noteq> Undef" if "find_device sv (uint (rd_slot ctx)) = Ret (Some dm)" for dm a
    using ParamInfo_collect_ok [OF device_facts(1,2) [OF that *(1)], of ?req a] *(2) by auto
  then have "res_bind (rest_authz decode sv ctx) (\<lambda>authz. res_bind (ParamInfo_collect dm ?req authz) (\<lambda>(rs, rc). Ret (sv, rs, rc))) \<noteq> Undef"
    if "find_device sv (uint (rd_slot ctx)) = Ret (Some dm)" for dm
    by (intro res_bind_defined) (use rest_authz_defined [of decode ctx sv] *(2) that in auto)
  then have "?work dm \<noteq> Undef" if "find_device sv (uint (rd_slot ctx)) = Ret (Some dm)" for dm
    using that by (cases ?rec) simp_all
  moreover have "sv' = sv" if "?work dm = Ret (sv', x)" for dm sv' x
    using that by (auto simp: res_simps split: if_splits)
  ultimately obtain sv' rs0 rc0 where t: "try_catch sv [] ?body = Ret (sv', rs0, rc0)" "service_ok sv'"
    using read_only_controller [OF *(1), of "uint (rd_slot ctx)" ?work "[]" "[]"] by blast
  from rest_catch_try [OF t(1)] obtain rs rc where r: "rest_catch sv [] ?body = Ret (sv', rs, rc)" by blast
  have sse: "one_answer (out @ snd (write_response w' rc (Inl ())))" if "info_loop sc rs ?w = (w', out)" "stream ctx" for w' out
  proof -
    from info_loop_streams [of sc rs ?w] *(2) obtain js where "list_all (\<lambda>j. j \<noteq> []) js" "info_loop sc rs ?w = write_all ?w js"
      by (auto simp: codec_ok_def)
    with that delivered [of js True ctx w' out rc] delivery_one show ?thesis by (simp add: make_writer_def)
  qed
  show "\<exists>sv' out. rest_ParamInfoRequest sc decode ctx sv = Ret (sv', out) \<and> one_answer out \<and> service_ok sv'"
    unfolding rest_ParamInfoRequest_def Let_def r
    using t(2) sse unbuffered_one by (cases "stream ctx") (auto split: prod.split)
qed

section \<open>Every request is answered\<close>

text \<open>The routes of these controllers; \<open>rest\<close> are the connections and the assets.\<close>

definition stream_controllers :: "stream_codec \<Rightarrow> command_table \<Rightarrow> jwt \<Rightarrow> (nat \<Rightarrow> int)
    \<Rightarrow> (string \<Rightarrow> socket_reader \<Rightarrow> service \<Rightarrow> (service \<times> response list \<times> exn option) res)
    \<Rightarrow> string \<Rightarrow> socket_reader \<Rightarrow> service \<Rightarrow> (service \<times> response list \<times> exn option) res" where
  "stream_controllers sc tbl decode clock rest key =
     (case map_of
       [(''GET'', rest_DeviceRequest sc decode),
        (''POST/command'', rest_ExecuteCommand sc tbl decode clock),
        (''GET/param-info'', rest_ParamInfoRequest sc decode),
        (''GET/subscriptions'', rest_Subscriptions sc decode),
        (''PUT/subscriptions'', rest_Subscriptions sc decode)] key of
        Some ctl \<Rightarrow> (\<lambda>ctx sv. res_bind (ctl ctx sv) (\<lambda>(sv', out). Ret (sv', out, None)))
      | None \<Rightarrow> rest key)"

text \<open>The requests the controllers of both theories answer.\<close>

definition answerable :: "jwt \<Rightarrow> socket_reader \<Rightarrow> bool" where
  "answerable decode ctx \<longleftrightarrow>
     rd_method ctx \<noteq> Method_OPTIONS
     \<and> method_name (rd_method ctx) @ endpoint ctx
         \<notin> {''PUT/values'', ''GET/connect'', ''GET/asset'', ''POST/asset'', ''PUT/asset'', ''DELETE/asset''}
     \<and> token_ok decode (meta_of ctx) \<and> (\<forall>v. addressable (rd_fqoid ctx, v))"

lemma stream_controllers_simps:
  "stream_controllers sc tbl decode clock rest ''GET'' ctx sv = res_bind (rest_DeviceRequest sc decode ctx sv) (\<lambda>(sv', out). Ret (sv', out, None))"
  "stream_controllers sc tbl decode clock rest ''POST/command'' ctx sv = res_bind (rest_ExecuteCommand sc tbl decode clock ctx sv) (\<lambda>(sv', out). Ret (sv', out, None))"
  "stream_controllers sc tbl decode clock rest ''GET/param-info'' ctx sv = res_bind (rest_ParamInfoRequest sc decode ctx sv) (\<lambda>(sv', out). Ret (sv', out, None))"
  "stream_controllers sc tbl decode clock rest ''GET/subscriptions'' ctx sv = res_bind (rest_Subscriptions sc decode ctx sv) (\<lambda>(sv', out). Ret (sv', out, None))"
  "stream_controllers sc tbl decode clock rest ''PUT/subscriptions'' ctx sv = res_bind (rest_Subscriptions sc decode ctx sv) (\<lambda>(sv', out). Ret (sv', out, None))"
  by (simp_all add: stream_controllers_def)

lemma route_streams:
  assumes "service_ok sv" "codec_ok sc" "table_ok tbl" "devices_named sv" "answerable decode ctx"
    and "method_name (rd_method ctx) @ endpoint ctx \<in> set stream_routes"
  shows "\<exists>sv' out. route cd decode now (stream_controllers sc tbl decode clock rest) ctx sv = Ret (sv', out, OK) \<and> one_answer out \<and> service_ok sv'"
proof -
  let ?key = "method_name (rd_method ctx) @ endpoint ctx" and ?others = "stream_controllers sc tbl decode clock rest"
  have opt: "rd_method ctx \<noteq> Method_OPTIONS" and tok: "token_ok decode (meta_of ctx)" using assms(5) by (simp_all add: answerable_def)
  have "?key \<in> {''GET'', ''POST/command'', ''GET/param-info'', ''GET/subscriptions'', ''PUT/subscriptions''}"
    using assms(5,6) by (auto simp: stream_routes_def answerable_def)
  then consider (dev) "?key = ''GET''" | (cmd) "?key = ''POST/command''" | (info) "?key = ''GET/param-info''"
    | (get) "?key = ''GET/subscriptions''" | (put) "?key = ''PUT/subscriptions''" by blast
  then show ?thesis
  proof cases
    case dev
    show ?thesis
      by (rule rdr.routed [OF assms(1) _ _ refl opt assms(6), of sc decode ?others])
        (use assms(2-4) tok dev in \<open>simp_all add: stream_controllers_simps\<close>)
  next
    case cmd
    show ?thesis
      by (rule rec.routed [OF assms(1) _ _ refl opt assms(6), of sc tbl decode ?others clock])
        (use assms(2-4) tok cmd in \<open>simp_all add: stream_controllers_simps\<close>)
  next
    case info
    show ?thesis
      by (rule rpi.routed [OF assms(1) _ _ refl opt assms(6), of sc decode ?others])
        (use assms(2-4) tok info in \<open>simp_all add: stream_controllers_simps\<close>)
  next
    case get
    show ?thesis
      by (rule rsu.routed [OF assms(1) _ _ refl opt assms(6), of sc decode ?others])
        (use assms(2-4) tok get in \<open>simp_all add: stream_controllers_simps\<close>)
  next
    case put
    show ?thesis
      by (rule rsu.routed [OF assms(1) _ _ refl opt assms(6), of sc decode ?others])
        (use assms(2-4) tok put in \<open>simp_all add: stream_controllers_simps\<close>)
  qed
qed

section \<open>Properties\<close>


definition ex_stream_codec :: stream_codec where
  "ex_stream_codec = codec.extend ex_codec
     \<lparr>json_component = (\<lambda>_. Some ''{}''), json_command = (\<lambda>_. Some ''{}''), json_info = (\<lambda>_. Some ''{}''), parse_subscriptions = (\<lambda>_. None)\<rparr>"

lemma ex_stream_codec_ok: "codec_ok ex_stream_codec"
  by (simp add: codec_ok_def jsonic_def ex_stream_codec_def ex_codec_def codec.defs)

lemma ex_service_named: "devices_named ex_service"
  using ex_device_names ex_device_commands
  by (auto simp: devices_named_def ex_service_def device_at_def split: if_splits option.splits)

definition ex_reading :: "socket_reader res" where
  "ex_reading = read ex_url False 0 (Bytes (http_request Method_GET ''/st2138-api/v1/1'' [] [])) (\<lambda>_. TimedOut) (fresh_reader [] 0)"


text \<open>
  a device request over REST delivers every component of the device at the detail level asked
  for, in the order of the serializer and nothing else: as the events of one stream, or as the
  elements of the array in one response.
\<close>

theorem rest_device_request_delivers:
  assumes "service_ok sv" "find_device sv (uint (rd_slot ctx)) = Ret (Some dm)" "commands_ok dm" "rest_authz decode sv ctx = Ret a"
    and "dl = rd_detailLevel ctx" "dl = SUBSCRIPTIONS \<longrightarrow> subscriptions dm" "jsonic (json_component sc)"
    and "oids = (if dl = SUBSCRIPTIONS then subscriptionManager sv (slot dm) else {})"
  shows "\<exists>comps js. getComponentSerializer dm a oids dl = Ret (map Ret comps) \<and> map Some js = map (json_component sc) comps
     \<and> rest_DeviceRequest sc decode ctx sv = Ret (sv, delivery (stream ctx) (origin ctx) js OK)"
proof -
  let ?ser = "getDeviceSerializer dm a oids dl" and ?w = "make_writer (stream ctx) True ctx"
  from find_device_Some [OF assms(2,1)] have "device_ok dm" by simp
  note ret = serializer_returns [OF this assms(3), of a oids dl]
  have ser: "getComponentSerializer dm a oids dl = Ret ?ser" using assms(6) by (simp add: getComponentSerializer_def)
  from component_loop_streams [OF assms(7) ret, of ?w] obtain js where
    js: "list_all (\<lambda>j. j \<noteq> []) js" "map Some js = map (json_component sc) (rets ?ser)"
    "component_loop sc ?ser ?w = (case write_all ?w js of (w', out) \<Rightarrow> Ret (w', out, OK))" by blast
  obtain w' out where w: "write_all ?w js = (w', out)" by fastforce
  have "rest_DeviceRequest sc decode ctx sv = Ret (sv, out @ snd (write_response w' OK (Inl ())))"
    using assms(2,4,5,8) ser js(3) w
    by (cases "dl = SUBSCRIPTIONS") (simp_all add: rest_DeviceRequest_def getAllSubscribedOids_def Let_def)
  with delivered [OF js(1) w, of OK] have "rest_DeviceRequest sc decode ctx sv = Ret (sv, delivery (stream ctx) (origin ctx) js OK)" by simp
  with ser js(2) rets_map [OF ret] show ?thesis by metis
qed

theorem rest_device_request_delivers_witness:
  "\<exists>comps. getComponentSerializer ex_device kAuthzDisabled {} FULL = Ret (map Ret comps)
     \<and> rest_DeviceRequest ex_stream_codec (\<lambda>_. None) ((fresh_reader [] 0)\<lparr>rd_slot := 1, rd_detailLevel := FULL, stream := True\<rparr>) ex_service
       = Ret (ex_service, SseHead 200 [] # map (\<lambda>_. SseData ''{}'') comps)"
proof -
  let ?ctx = "(fresh_reader [] 0)\<lparr>rd_slot := 1, rd_detailLevel := FULL, stream := True\<rparr>"
  have ex: "uint (rd_slot ?ctx) = 1" "rest_authz (\<lambda>_. None) ex_service ?ctx = Ret kAuthzDisabled" "jsonic (json_component ex_stream_codec)"
    using ex_stream_codec_ok by (simp_all add: rest_authz_def ex_service_def codec_ok_def)
  from rest_device_request_delivers [OF ex_service_ok(1), of ?ctx ex_device "\<lambda>_. None" kAuthzDisabled FULL ex_stream_codec "{}"]
    ex ex_service_device ex_device_commands
  obtain comps js where c: "getComponentSerializer ex_device kAuthzDisabled {} FULL = Ret (map Ret comps)"
    "map Some js = map (json_component ex_stream_codec) comps"
    "rest_DeviceRequest ex_stream_codec (\<lambda>_. None) ?ctx ex_service = Ret (ex_service, delivery True [] js OK)"
    by (auto simp: fresh_reader_def)
  from c(2) have "js = map (\<lambda>_. ''{}'') comps"
    by (auto simp: ex_stream_codec_def codec.defs map_eq_conv list_eq_iff_nth_eq)
  with c show ?thesis by (auto simp: delivery_def comp_def)
qed

lemma rest_command_loop_all:
  assumes "jsonic (json_command sc)" "\<forall>n. \<not> isExpired a (clock n)" "resume_all rs sv = (sv', map Ret ms)"
  shows "\<exists>js. map Some js = map (json_command sc) ms \<and> list_all (\<lambda>j. j \<noteq> []) js
     \<and> rest_command_loop sc clock respond a rs w sv = Ret (sv', write_all w (if respond then js else []), OK)"
  using assms(3)
proof (induction rs arbitrary: w sv ms)
  case Nil
  then show ?case by (subst rest_command_loop.simps) (simp add: responder_hasMore_def)
next
  case (Cons r rs)
  from Cons.prems obtain sv1 m ms' where
    r: "r sv = (sv1, Ret m)" "resume_all rs sv1 = (sv', map Ret ms')" "ms = m # ms'"
    unfolding resume_all_Cons by blast
  from assms(1) obtain j where j: "json_command sc m = Some j" "j \<noteq> []" by (auto simp: jsonic_def)
  obtain w1 out1 where w1: "(if respond then write_response w OK (Inr (Some j)) else (w, [])) = (w1, out1)" by fastforce
  from Cons.IH [OF r(2), of w1] obtain js where
    "map Some js = map (json_command sc) ms'" "list_all (\<lambda>j. j \<noteq> []) js"
    "rest_command_loop sc clock respond a rs w1 sv1 = Ret (sv', write_all w1 (if respond then js else []), OK)" by blast
  with r j w1 assms(2) show ?case
    by (intro exI [of _ "j # js"], subst rest_command_loop.simps)
      (auto simp: responder_hasMore_def responder_getNext_def split: prod.splits if_splits)
qed

text \<open>
  executing a command over REST runs its implementation to the end, once and in the order of
  its resumptions, and delivers every response to a client that asked for them; without write
  access nothing is run and the answer is PERMISSION_DENIED.
\<close>

theorem rest_command_runs:
  assumes "find_device sv (uint (rd_slot ctx)) = Ret (Some dm)" "rest_authz decode sv ctx = Ret a" "\<forall>n. \<not> isExpired a (clock n)"
    and "jsonBody ctx = [] \<and> val = KindNotSet \<or> jsonBody ctx \<noteq> [] \<and> parse_value sc (jsonBody ctx) = Some val"
    and "getCommand dm (rd_fqoid ctx) OK a = Ret (Some p, OK)" "respond = hasField ctx ''respond''"
    and "commandImpl tbl (slot dm) (command_name p) val respond = Ret (Some rs)"
    and "resume_all rs sv = (sv', map Ret ms)" "jsonic (json_command sc)"
  shows "if writeAuthz a (p_desc p)
     then \<exists>js. map Some js = map (json_command sc) ms \<and>
            rest_ExecuteCommand sc tbl decode clock ctx sv
              = Ret (sv', delivery (stream ctx) (origin ctx) (if respond then js else []) OK)
     else rest_ExecuteCommand sc tbl decode clock ctx sv = Ret (sv, delivery (stream ctx) (origin ctx) [] PERMISSION_DENIED)"
proof -
  let ?w = "make_writer (stream ctx) True ctx"
  have val: "(if jsonBody ctx = [] then Some KindNotSet else parse_value sc (jsonBody ctx)) = Some val" using assms(4) by auto
  show ?thesis
  proof (cases "writeAuthz a (p_desc p)")
    case False
    with assms(1,2,5) val have "rest_ExecuteCommand sc tbl decode clock ctx sv = Ret (sv, snd (write_response ?w PERMISSION_DENIED (Inl ())))"
      by (simp add: rest_ExecuteCommand_def executeCommand_def Let_def)
    with False delivered [of "[]" "stream ctx" ctx ?w "[]" PERMISSION_DENIED] show ?thesis by simp
  next
    case True
    from rest_command_loop_all [OF assms(9,3,8), of respond ?w] obtain js where
      js: "map Some js = map (json_command sc) ms" "list_all (\<lambda>j. j \<noteq> []) js"
      "rest_command_loop sc clock respond a rs ?w sv = Ret (sv', write_all ?w (if respond then js else []), OK)" by blast
    obtain w' out where w: "write_all ?w (if respond then js else []) = (w', out)" by fastforce
    have "rest_ExecuteCommand sc tbl decode clock ctx sv = Ret (sv', out @ snd (write_response w' OK (Inl ())))"
      using True assms(1,2,5,6,7) val js(3) w by (simp add: rest_ExecuteCommand_def executeCommand_def Let_def)
    with True js(1,2) delivered [OF _ w, of OK] show ?thesis by auto
  qed
qed

theorem rest_command_runs_witness:
  "rest_ExecuteCommand ex_stream_codec (\<lambda>_ _. Some ex_impl) (\<lambda>_. None) (\<lambda>_. 0)
       ((fresh_reader [] 0)\<lparr>rd_slot := 1, rd_fqoid := ''/fade'', rd_fields := [(''respond'', [])]\<rparr>)
       (ex_service\<lparr>dms := [(1, Some ex_command_device)]\<rparr>)
     = Ret (ex_service\<lparr>dms := [(1, Some ex_command_device)]\<rparr>, [Response 200 [] 16 ''{\"data\":[{},{}]}''])"
proof -
  let ?sv = "ex_service\<lparr>dms := [(1, Some ex_command_device)]\<rparr>"
  let ?ctx = "(fresh_reader [] 0)\<lparr>rd_slot := 1, rd_fqoid := ''/fade'', rd_fields := [(''respond'', [])]\<rparr>"
  have dm: "find_device ?sv (uint (rd_slot ?ctx)) = Ret (Some ex_command_device)" "rest_authz (\<lambda>_. None) ?sv ?ctx = Ret kAuthzDisabled"
    "\<forall>n :: nat. \<not> isExpired kAuthzDisabled 0" "jsonic (json_command ex_stream_codec)"
    using ex_stream_codec_ok
    by (simp_all add: find_device_def device_at_def rest_authz_def ex_service_def isExpired_def kAuthzDisabled_def codec_ok_def)
  have "case getCommand ex_command_device ''/fade'' OK kAuthzDisabled of
      Ret (Some p, rc) \<Rightarrow> rc = OK \<and> writeAuthz kAuthzDisabled (p_desc p) | _ \<Rightarrow> False" by code_simp
  then obtain p where p: "getCommand ex_command_device ''/fade'' OK kAuthzDisabled = Ret (Some p, OK)"
    "writeAuthz kAuthzDisabled (p_desc p)" by (auto split: res.splits option.splits)
  have sv: "?sv\<lparr>subscriptionManager := (\<lambda>_. {})\<rparr> = ?sv" by (simp add: ex_service_def)
  from rest_command_runs [OF dm(1,2), of "\<lambda>_. 0" KindNotSet ex_stream_codec p True "\<lambda>_ _. Some ex_impl" _ ?sv "[CrResponse KindNotSet, CrNone]"]
    dm p sv
  show ?thesis by (auto simp: commandImpl_def ex_impl_def hasField_def fresh_reader_def delivery_def ex_stream_codec_def codec.defs)
qed

end
