(* ===== verification/Rest_Asset.thy ===== *)
theory Rest_Asset
  imports Rest_Stream
begin

text \<open>
  \<^verbatim>\<open>AssetRequest.cpp\<close>: files below the configured directory are fetched, stored, replaced and deleted.
  The file system is a map from paths to bytes with the outcomes the system may decide; the
  compression library, the digest, the printing of times and the handlers the application attaches
  to the signals of the device are arguments. A byte is a character.
\<close>

section \<open>What the controller uses\<close>

text \<open>
  \<open>stat_ok\<close>, \<open>read_ok\<close> and \<open>write_ok\<close> say whether the system lets the file be examined and opened;
  \<open>remove_result\<close> is what \<^verbatim>\<open>std::filesystem::remove\<close> gives for a file that exists.
\<close>

record file_system =
  files :: "string \<Rightarrow> string option"
  stat_ok :: "string \<Rightarrow> bool"
  read_ok :: "string \<Rightarrow> bool"
  write_ok :: "string \<Rightarrow> bool"
  remove_result :: "string \<Rightarrow> bool res"
  mtime :: "string \<Rightarrow> string option"

text \<open>
  The whole compressed and decompressed text for a number of window bits; a call with \<^verbatim>\<open>Z_FINISH\<close>
  ends the stream exactly when this fits the output.
\<close>

record zlib =
  zinit_ok :: bool
  zdeflate :: "int \<Rightarrow> string \<Rightarrow> string"
  zinflate :: "int \<Rightarrow> string \<Rightarrow> string option"
  compressBound :: "nat \<Rightarrow> nat"

datatype PayloadEncoding = UNCOMPRESSED | GZIP | DEFLATE

fun payloadEncodingToString :: "PayloadEncoding \<Rightarrow> string" where
  "payloadEncodingToString DEFLATE = ''DEFLATE''"
| "payloadEncodingToString GZIP = ''GZIP''"
| "payloadEncodingToString UNCOMPRESSED = ''UNCOMPRESSED''"

definition MAX_WBITS :: int where
  "MAX_WBITS = 15"

text \<open>The counters of the library have 32 bits.\<close>

definition compress :: "zlib \<Rightarrow> string \<Rightarrow> int \<Rightarrow> string res" where
  "compress z input windowBits =
     (if \<not> zinit_ok z then Throw (ExceptionWithStatus INTERNAL)
      else
        let avail_in = length input mod 2 ^ 32;
            avail_out = compressBound z (length input) mod 2 ^ 32;
            output = zdeflate z windowBits (take avail_in input) in
        if length output \<le> avail_out then Ret output else Throw (ExceptionWithStatus INTERNAL))"

definition deflate_compress :: "zlib \<Rightarrow> string \<Rightarrow> string res" where
  "deflate_compress z input = compress z input MAX_WBITS"

definition gzip_compress :: "zlib \<Rightarrow> string \<Rightarrow> string res" where
  "gzip_compress z input = compress z input (16 + MAX_WBITS)"

definition decompress :: "zlib \<Rightarrow> string \<Rightarrow> int \<Rightarrow> string res" where
  "decompress z input windowBits =
     (if \<not> zinit_ok z then Throw (ExceptionWithStatus INTERNAL)
      else
        let avail_in = length input mod 2 ^ 32;
            avail_out = length input * 10 mod 2 ^ 32 in
        case zinflate z windowBits (take avail_in input) of
          None \<Rightarrow> Throw (ExceptionWithStatus INTERNAL)
        | Some output \<Rightarrow> if length output \<le> avail_out then Ret output else Throw (ExceptionWithStatus INTERNAL))"

definition deflate_decompress :: "zlib \<Rightarrow> string \<Rightarrow> string res" where
  "deflate_decompress z input = decompress z input MAX_WBITS"

definition gzip_decompress :: "zlib \<Rightarrow> string \<Rightarrow> string res" where
  "gzip_decompress z input = decompress z input (16 + MAX_WBITS)"

text \<open>\<^verbatim>\<open>std::filesystem::exists\<close> throws when the system refuses.\<close>

definition file_exists :: "file_system \<Rightarrow> string \<Rightarrow> bool res" where
  "file_exists fs path = (if stat_ok fs path then Ret (files fs path \<noteq> None) else Throw RuntimeError)"

definition get_last_write_time :: "file_system \<Rightarrow> string \<Rightarrow> string option" where
  "get_last_write_time fs path = mtime fs path"

definition filename :: "string \<Rightarrow> string" where
  "filename path = rev (takeWhile (\<lambda>c. c \<noteq> CHR ''/'') (rev path))"

definition extractPayload :: "zlib \<Rightarrow> socket_reader \<Rightarrow> string \<Rightarrow> file_system \<Rightarrow> file_system res" where
  "extractPayload z ctx filePath fs =
     res_bind (if fields_of ctx ''compression'' = ''GZIP'' then gzip_decompress z (jsonBody ctx)
               else if fields_of ctx ''compression'' = ''DEFLATE'' then deflate_decompress z (jsonBody ctx)
               else Ret (jsonBody ctx)) (\<lambda>file_data.
     if \<not> write_ok fs filePath then Throw (ExceptionWithStatus INTERNAL)
     else Ret (fs\<lparr>files := (files fs)(filePath \<mapsto> file_data)\<rparr>))"

section \<open>The controller\<close>

datatype asset_signal = DownloadAsset | UploadAsset | DeleteAsset

text \<open>The handlers of the signals of a device.\<close>

type_synonym asset_hooks = "asset_signal \<Rightarrow> string \<Rightarrow> authorizer \<Rightarrow> unit res"

record asset_payload =
  ap_encoding :: PayloadEncoding
  ap_payload :: string
  ap_cachable :: bool
  ap_metadata :: "(string \<times> string) list"
  ap_digest :: string

definition asset_default :: asset_payload where
  "asset_default = \<lparr>ap_encoding = UNCOMPRESSED, ap_payload = [], ap_cachable = False, ap_metadata = [], ap_digest = []\<rparr>"

definition may_read_assets :: "authorizer \<Rightarrow> bool" where
  "may_read_assets a \<longleftrightarrow> readAuthz_e a kOperate \<or> readAuthz_e a kConfig \<or> readAuthz_e a kAdmin \<or> readAuthz_e a kMonitor"

definition may_write_assets :: "authorizer \<Rightarrow> bool" where
  "may_write_assets a \<longleftrightarrow> writeAuthz_e a kOperate \<or> writeAuthz_e a kConfig \<or> writeAuthz_e a kAdmin"

definition asset_get :: "zlib \<Rightarrow> (string \<Rightarrow> string) \<Rightarrow> asset_hooks \<Rightarrow> socket_reader \<Rightarrow> authorizer \<Rightarrow> string \<Rightarrow> file_system
    \<Rightarrow> (asset_payload \<times> StatusCode) res" where
  "asset_get z sha256 hooks ctx authz path fs =
     (if \<not> may_read_assets authz then Throw (ExceptionWithStatus PERMISSION_DENIED)
      else
        res_bind (file_exists fs path) (\<lambda>found.
        if \<not> found then Throw (ExceptionWithStatus NOT_FOUND)
        else if \<not> read_ok fs path then Throw (ExceptionWithStatus INTERNAL)
        else
          let bytes = (case files fs path of None \<Rightarrow> [] | Some b \<Rightarrow> b);
              compression = fields_of ctx ''compression'';
              enc = (if compression = ''GZIP'' then GZIP else if compression = ''DEFLATE'' then DEFLATE else UNCOMPRESSED) in
          res_bind (if compression = ''GZIP'' then gzip_compress z bytes
                    else if compression = ''DEFLATE'' then deflate_compress z bytes
                    else Ret bytes) (\<lambda>file_data.
          res_bind (hooks DownloadAsset (rd_fqoid ctx) authz) (\<lambda>_.
          Ret (\<lparr>ap_encoding = enc, ap_payload = file_data, ap_cachable = True,
                ap_metadata = [(''filename'', filename path), (''size'', dec_of_nat (length file_data)),
                  (''last-modified'', case get_last_write_time fs path of None \<Rightarrow> ''unknown'' | Some t \<Rightarrow> t)],
                ap_digest = sha256 file_data\<rparr>, OK)))))"

text \<open>POST creates a file, PUT replaces one; otherwise they are the same.\<close>

definition asset_store :: "bool \<Rightarrow> zlib \<Rightarrow> asset_hooks \<Rightarrow> socket_reader \<Rightarrow> authorizer \<Rightarrow> string \<Rightarrow> file_system \<Rightarrow> file_system res" where
  "asset_store create z hooks ctx authz filePath fs =
     (if \<not> may_write_assets authz then Throw (ExceptionWithStatus PERMISSION_DENIED)
      else
        res_bind (hooks UploadAsset (rd_fqoid ctx) authz) (\<lambda>_.
        res_bind (file_exists fs filePath) (\<lambda>found.
        if create \<and> found then Throw (ExceptionWithStatus ALREADY_EXISTS)
        else if \<not> create \<and> \<not> found then Throw (ExceptionWithStatus NOT_FOUND)
        else extractPayload z ctx filePath fs)))"

definition asset_delete :: "asset_hooks \<Rightarrow> socket_reader \<Rightarrow> authorizer \<Rightarrow> string \<Rightarrow> file_system \<Rightarrow> file_system res" where
  "asset_delete hooks ctx authz filePath fs =
     (if \<not> may_write_assets authz then Throw (ExceptionWithStatus PERMISSION_DENIED)
      else
        res_bind (hooks DeleteAsset (rd_fqoid ctx) authz) (\<lambda>_.
        res_bind (file_exists fs filePath) (\<lambda>found.
        if \<not> found then Throw (ExceptionWithStatus NOT_FOUND)
        else
          res_bind (remove_result fs filePath) (\<lambda>removed.
          if removed then Ret (fs\<lparr>files := (files fs)(filePath := None)\<rparr>)
          else Throw (ExceptionWithStatus INTERNAL)))))"

text \<open>The work of \<^verbatim>\<open>proceed\<close>: nothing but its last step changes a file, so an exception leaves them as they were.\<close>

definition asset_work :: "zlib \<Rightarrow> (string \<Rightarrow> string) \<Rightarrow> asset_hooks \<Rightarrow> jwt \<Rightarrow> socket_reader \<Rightarrow> service \<Rightarrow> file_system
    \<Rightarrow> (file_system \<times> asset_payload \<times> StatusCode) res" where
  "asset_work z sha256 hooks decode ctx sv fs =
     res_bind (find_device sv (uint (rd_slot ctx))) (\<lambda>dm.
     res_bind (rest_authz decode sv ctx) (\<lambda>authz.
     let path = EOPath sv @ rd_fqoid ctx in
     if dm = None then Ret (fs, asset_default, NOT_FOUND)
     else if rd_method ctx = Method_GET then
       res_bind (asset_get z sha256 hooks ctx authz path fs) (\<lambda>(obj, rc). Ret (fs, obj, rc))
     else if rd_method ctx = Method_POST \<or> rd_method ctx = Method_PUT then
       res_bind (asset_store (rd_method ctx = Method_POST) z hooks ctx authz path fs) (\<lambda>fs'. Ret (fs', asset_default, NO_CONTENT))
     else if rd_method ctx = Method_DELETE then
       res_bind (asset_delete hooks ctx authz path fs) (\<lambda>fs'. Ret (fs', asset_default, NO_CONTENT))
     else Ret (fs, asset_default, INVALID_ARGUMENT)))"

definition rest_AssetRequest :: "(asset_payload \<Rightarrow> string option) \<Rightarrow> zlib \<Rightarrow> (string \<Rightarrow> string) \<Rightarrow> asset_hooks \<Rightarrow> jwt
    \<Rightarrow> socket_reader \<Rightarrow> service \<Rightarrow> file_system \<Rightarrow> (file_system \<times> response list) res" where
  "rest_AssetRequest json_asset z sha256 hooks decode ctx sv fs =
     (let answer = (\<lambda>fs' obj rc. Ret (fs',
             snd (send (origin ctx) sv rc (if rd_method ctx = Method_GET then Inr (json_asset obj) else Inl ())))) in
      case asset_work z sha256 hooks decode ctx sv fs of
        Ret (fs', obj, rc) \<Rightarrow> answer fs' obj rc
      | Throw e \<Rightarrow> answer fs asset_default (rest_status e)
      | Undef \<Rightarrow> Undef)"

section \<open>What an answer means for the files\<close>

lemma send_empty: "snd (send orig sv rc (Inl ())) = [Response (fst (codeMap rc)) orig 0 []]"
  by (simp add: send_def sendResponse_def Let_def)

text \<open>The content of an upload.\<close>

definition upload :: "zlib \<Rightarrow> socket_reader \<Rightarrow> string res" where
  "upload z ctx =
     (if fields_of ctx ''compression'' = ''GZIP'' then gzip_decompress z (jsonBody ctx)
      else if fields_of ctx ''compression'' = ''DEFLATE'' then deflate_decompress z (jsonBody ctx)
      else Ret (jsonBody ctx))"

lemma extractPayload_eq:
  "extractPayload z ctx path fs = res_bind (upload z ctx) (\<lambda>x.
     if \<not> write_ok fs path then Throw (ExceptionWithStatus INTERNAL) else Ret (fs\<lparr>files := (files fs)(path \<mapsto> x)\<rparr>))"
  by (simp add: extractPayload_def upload_def)

text \<open>The promise of the interface: a map from names to contents, and the status of each request.\<close>

fun asset_spec :: "RESTMethod \<Rightarrow> string \<Rightarrow> string \<Rightarrow> (string \<Rightarrow> string option) \<Rightarrow> (string \<Rightarrow> string option) \<times> StatusCode" where
  "asset_spec Method_POST path x m = (if m path = None then (m(path \<mapsto> x), NO_CONTENT) else (m, ALREADY_EXISTS))"
| "asset_spec Method_PUT path x m = (if m path = None then (m, NOT_FOUND) else (m(path \<mapsto> x), NO_CONTENT))"
| "asset_spec Method_DELETE path x m = (if m path = None then (m, NOT_FOUND) else (m(path := None), NO_CONTENT))"
| "asset_spec _ path x m = (m, INVALID_ARGUMENT)"

text \<open>Where a request changed the files it was one to write, and it changed no more than its own.\<close>

lemma asset_work_changes:
  assumes "asset_work z sha256 hooks decode ctx sv fs = Ret (fs', obj, rc)"
  shows "fs' = fs \<or> (\<exists>dm a c. find_device sv (uint (rd_slot ctx)) = Ret (Some dm) \<and> rest_authz decode sv ctx = Ret a
     \<and> may_write_assets a \<and> rd_method ctx \<in> {Method_POST, Method_PUT, Method_DELETE}
     \<and> fs' = fs\<lparr>files := (files fs)(EOPath sv @ rd_fqoid ctx := c)\<rparr>)"
proof -
  have store: "\<exists>c. y = fs\<lparr>files := (files fs)(path := c)\<rparr> \<and> may_write_assets a"
    if "asset_store b z hooks ctx a path fs = Ret y" for b a path y
    using that by (auto simp: asset_store_def extractPayload_eq res_simps split: if_splits)
  have delete: "\<exists>c. y = fs\<lparr>files := (files fs)(path := c)\<rparr> \<and> may_write_assets a"
    if "asset_delete hooks ctx a path fs = Ret y" for a path y
    using that by (auto simp: asset_delete_def res_simps split: if_splits)
  show ?thesis
    using assms store delete unfolding asset_work_def Let_def res_simps
    by (fastforce simp: res_simps split: if_splits option.splits)
qed

section \<open>Properties\<close>

text \<open>
  C21: an asset request never changes a file except the one it names, and that only for a client
  that may write in the scope operate, config or admin of a device in a populated slot, by POST,
  PUT or DELETE; every request that returns is answered by exactly one response. This holds
  whatever the file system, the compression library and the handlers of the application do.
\<close>

theorem asset_changes_authorized:
  assumes "rest_AssetRequest json_asset z sha256 hooks decode ctx sv fs = Ret (fs', out)"
  shows "(\<exists>r. out = [r] \<and> is_response r)
     \<and> (fs' \<noteq> fs \<longrightarrow> (\<exists>dm a c. find_device sv (uint (rd_slot ctx)) = Ret (Some dm) \<and> rest_authz decode sv ctx = Ret a
          \<and> may_write_assets a \<and> rd_method ctx \<in> {Method_POST, Method_PUT, Method_DELETE}
          \<and> fs' = fs\<lparr>files := (files fs)(EOPath sv @ rd_fqoid ctx := c)\<rparr>))"
proof -
  have one: "\<exists>r. snd (send orig sv rc msg) = [r] \<and> is_response r" for orig rc msg by simp
  show ?thesis
  proof (cases "asset_work z sha256 hooks decode ctx sv fs")
    case (Ret x)
    obtain fs1 obj rc where x: "x = (fs1, obj, rc)" by (cases x)
    with assms Ret have "fs' = fs1" "out = snd (send (origin ctx) sv rc (if rd_method ctx = Method_GET then Inr (json_asset obj) else Inl ()))"
      by (simp_all add: rest_AssetRequest_def Let_def)
    with one asset_work_changes [of z sha256 hooks decode ctx sv fs fs1 obj rc] Ret x show ?thesis by blast
  next
    case (Throw e)
    with assms have "fs' = fs" "out = snd (send (origin ctx) sv (rest_status e) (if rd_method ctx = Method_GET then Inr (json_asset asset_default) else Inl ()))"
      by (simp_all add: rest_AssetRequest_def Let_def)
    with one show ?thesis by blast
  qed (use assms in \<open>simp add: rest_AssetRequest_def\<close>)
qed

text \<open>
  C22: the asset controller implements a map from names to contents: POST creates an entry and
  refuses to replace one, PUT replaces an entry and refuses to create one, DELETE removes an entry,
  each with its status, provided that the system and the application let it.
\<close>

theorem asset_store_refines:
  assumes "find_device sv (uint (rd_slot ctx)) = Ret (Some dm)" "rest_authz decode sv ctx = Ret a" "may_write_assets a"
    and "rd_method ctx \<in> {Method_POST, Method_PUT, Method_DELETE}" "path = EOPath sv @ rd_fqoid ctx"
    and "\<forall>sg. hooks sg (rd_fqoid ctx) a = Ret ()" "stat_ok fs path" "write_ok fs path" "remove_result fs path = Ret True"
    and "upload z ctx = Ret x" "asset_spec (rd_method ctx) path x (files fs) = (m, rc)"
  shows "rest_AssetRequest json_asset z sha256 hooks decode ctx sv fs
     = Ret (fs\<lparr>files := m\<rparr>, [Response (fst (codeMap rc)) (origin ctx) 0 []])"
proof -
  have same: "fs\<lparr>files := files fs\<rparr> = fs" by simp
  from assms(4) consider "rd_method ctx = Method_POST" | "rd_method ctx = Method_PUT" | "rd_method ctx = Method_DELETE" by auto
  then show ?thesis
    by cases (use assms same in \<open>auto simp: rest_AssetRequest_def asset_work_def asset_store_def asset_delete_def extractPayload_eq
        file_exists_def send_empty Let_def split: if_splits\<close>)
qed

text \<open>An example: a library that does not compress, and a directory without files.\<close>

definition ex_zlib :: zlib where
  "ex_zlib = \<lparr>zinit_ok = True, zdeflate = (\<lambda>_ x. x), zinflate = (\<lambda>_. Some), compressBound = (\<lambda>n. n + 13)\<rparr>"

definition ex_fs :: file_system where
  "ex_fs = \<lparr>files = Map.empty, stat_ok = (\<lambda>_. True), read_ok = (\<lambda>_. True), write_ok = (\<lambda>_. True), remove_result = (\<lambda>_. Ret True),
     mtime = (\<lambda>_. None)\<rparr>"

definition ex_post :: socket_reader where
  "ex_post = (fresh_reader [] 0)\<lparr>rd_method := Method_POST, rd_slot := 1, rd_fqoid := ''/logo'', jsonBody := ''xyz''\<rparr>"

lemma ex_post_simps [simp]:
  "rd_method ex_post = Method_POST" "uint (rd_slot ex_post) = 1" "rd_fqoid ex_post = ''/logo''" "jsonBody ex_post = ''xyz''"
  "origin ex_post = []" "fields_of ex_post key = []" "upload ex_zlib ex_post = Ret ''xyz''"
  by (simp_all add: ex_post_def fresh_reader_def fields_of_def upload_def)

lemma ex_asset_authz:
  "rest_authz decode ex_service ctx = Ret kAuthzDisabled" "may_write_assets kAuthzDisabled" "may_read_assets kAuthzDisabled" "EOPath ex_service = []"
  by (simp add: rest_authz_def ex_service_def, code_simp, code_simp, simp add: ex_service_def)

theorem asset_store_refines_witness:
  "rest_AssetRequest (\<lambda>_. None) ex_zlib (\<lambda>x. x) (\<lambda>_ _ _. Ret ()) (\<lambda>_. None) ex_post ex_service ex_fs
     = Ret (ex_fs\<lparr>files := [''/logo'' \<mapsto> ''xyz'']\<rparr>, [Response 204 [] 0 []])"
  using asset_store_refines [of ex_service ex_post ex_device "\<lambda>_. None" kAuthzDisabled "''/logo''" "\<lambda>_ _ _. Ret ()" ex_fs ex_zlib "''xyz''"]
    ex_service_device ex_asset_authz by (simp add: ex_fs_def)

theorem asset_changes_authorized_witness:
  "\<exists>a. rest_authz (\<lambda>_. None) ex_service ex_post = Ret a \<and> may_write_assets a"
proof -
  have "rest_AssetRequest (\<lambda>_. None) ex_zlib (\<lambda>x. x) (\<lambda>_ _ _. Ret ()) (\<lambda>_. None) ex_post ex_service ex_fs
     = Ret (ex_fs\<lparr>files := [''/logo'' \<mapsto> ''xyz'']\<rparr>, [Response 204 [] 0 []])"
    using ex_service_device ex_asset_authz
    by (simp add: rest_AssetRequest_def asset_work_def asset_store_def extractPayload_eq file_exists_def send_empty Let_def ex_fs_def)
  moreover have "ex_fs\<lparr>files := [''/logo'' \<mapsto> ''xyz'']\<rparr> \<noteq> ex_fs" by (simp add: ex_fs_def fun_eq_iff)
  ultimately show ?thesis using asset_changes_authorized by blast
qed

fun encode :: "zlib \<Rightarrow> PayloadEncoding \<Rightarrow> string \<Rightarrow> string" where
  "encode z UNCOMPRESSED x = x"
| "encode z GZIP x = zdeflate z (16 + MAX_WBITS) x"
| "encode z DEFLATE x = zdeflate z MAX_WBITS x"

text \<open>The two directions of a transfer, on a library whose streams can be read back.\<close>

lemma upload_encoded:
  assumes "zinit_ok z" "\<forall>w y. zinflate z w (zdeflate z w y) = Some y"
    and "fields_of ctx ''compression'' = payloadEncodingToString enc" "jsonBody ctx = encode z enc x"
    and "length x \<le> 10 * length (jsonBody ctx)" "10 * length (jsonBody ctx) < 2 ^ 32"
  shows "upload z ctx = Ret x"
  using assms
  by (cases enc) (auto simp: upload_def gzip_decompress_def deflate_decompress_def decompress_def Let_def)

lemma download_encoded:
  assumes "zinit_ok z" "length x < 2 ^ 32" "enc \<noteq> UNCOMPRESSED \<longrightarrow> length (encode z enc x) \<le> compressBound z (length x)"
    and "enc \<noteq> UNCOMPRESSED \<longrightarrow> compressBound z (length x) < 2 ^ 32" "c = payloadEncodingToString enc"
  shows "(if c = ''GZIP'' then gzip_compress z x else if c = ''DEFLATE'' then deflate_compress z x else Ret x) = Ret (encode z enc x)"
  using assms by (cases enc) (auto simp: gzip_compress_def deflate_compress_def compress_def Let_def)


definition ex_compressed :: "RESTMethod \<Rightarrow> PayloadEncoding \<Rightarrow> socket_reader" where
  "ex_compressed m enc = ex_post\<lparr>rd_method := m, rd_fields := [(''compression'', payloadEncodingToString enc)]\<rparr>"

lemma ex_compressed_simps [simp]:
  "rd_method (ex_compressed m enc) = m" "uint (rd_slot (ex_compressed m enc)) = 1" "rd_slot (ex_compressed m enc) = 1"
  "rd_fqoid (ex_compressed m enc) = ''/logo''" "jsonBody (ex_compressed m enc) = ''xyz''" "origin (ex_compressed m enc) = []"
  "fields_of (ex_compressed m enc) ''compression'' = payloadEncodingToString enc"
  by (simp_all add: ex_compressed_def ex_post_def fresh_reader_def fields_of_def)


text \<open>
  gzip adds eighteen bytes of its own, but the output is only as large as the library promises for
  the zlib format: a file of less than five bytes cannot be fetched with gzip.
\<close>

lemma gzip_fails_on_small_files:
  assumes "\<forall>x. 18 \<le> length (zdeflate z (16 + MAX_WBITS) x)"
    and "\<forall>n. compressBound z n = n + n div 4096 + n div 16384 + n div 33554432 + 13" "length x < 5"
  shows "gzip_compress z x = Throw (ExceptionWithStatus INTERNAL)"
proof -
  have "compressBound z (length x) < 18" using assms(2,3) by simp
  moreover have "18 \<le> length (zdeflate z (16 + MAX_WBITS) (take (length x mod 2 ^ 32) x))" using assms(1) by blast
  ultimately show ?thesis by (auto simp: gzip_compress_def compress_def Let_def)
qed

end
