(* ===== verification/Rest_Connect.thy ===== *)
theory Rest_Connect
  imports Rest_Stream Rpc_Connect
begin

text \<open>
  The REST controller \<^verbatim>\<open>Connect\<close>: the same connection as over gRPC, served by the thread of the
  request, which waits for updates and sends them as server-sent events until the socket is closed
  or the connection is shut down. Its object lives as long as the request, and no registry owns it.
\<close>

section \<open>The controller\<close>

text \<open>\<open>rc_started\<close>: the first part of \<^verbatim>\<open>proceed\<close> is done and the thread is in its loop.\<close>

record rest_conn =
  rc_ctx :: socket_reader
  rc_writer :: sse_writer
  rc_started :: bool
  rc_out :: "response list"

definition rest_Connect_new :: "service \<Rightarrow> service" where
  "rest_Connect_new sv =
     sv\<lparr>next_ptr := Suc (next_ptr sv), objectCounter := (objectCounter sv)(RConnect := objectCounter sv RConnect + 1),
        connects_of := (connects_of sv)(next_ptr sv := Connect (objectCounter sv RConnect))\<rparr>"

definition fresh_conn :: "socket_reader \<Rightarrow> rest_conn" where
  "fresh_conn ctx = \<lparr>rc_ctx = ctx, rc_writer = \<lparr>sse_origin = origin ctx, headers_sent = False\<rparr>, rc_started = False, rc_out = []\<rparr>"

definition conn_send :: "StatusCode \<Rightarrow> json \<Rightarrow> rest_conn \<Rightarrow> rest_conn" where
  "conn_send rc msg c =
     (let (w, out) = sse_sendResponse (rc_writer c) rc msg in c\<lparr>rc_writer := w, rc_out := rc_out c @ out\<rparr>)"

text \<open>\<^verbatim>\<open>shutdown_ = true\<close>, which wakes nobody.\<close>

definition mark_shutdown :: "callptr \<Rightarrow> service \<Rightarrow> service" where
  "mark_shutdown p sv = sv\<lparr>connects_of := (connects_of sv)(p := (connects_of sv p)\<lparr>is_shutdown := True\<rparr>)\<rparr>"

text \<open>\<^verbatim>\<open>proceed\<close> up to the loop.\<close>

definition rest_Connect_process :: "(push_updates \<Rightarrow> string option) \<Rightarrow> jwt \<Rightarrow> int \<Rightarrow> callptr \<Rightarrow> service \<Rightarrow> rest_conn \<Rightarrow> (service \<times> rest_conn) res" where
  "rest_Connect_process json_push decode now p sv c =
     (let ctx = rc_ctx c;
          con = (connects_of sv p)\<lparr>detailLevel := rd_detailLevel ctx\<rparr>;
          sv1 = sv\<lparr>shutdownSignal := shutdownSignal sv @ [p], connects_of := (connects_of sv)(p := con)\<rparr>;
          c1 = c\<lparr>rc_started := True\<rparr>;
          fail = (\<lambda>sv rc. Ret (mark_shutdown p sv, conn_send rc (Inl ()) c1)) in
      case initAuthz decode (rd_jwsToken ctx) (authorizationEnabled sv1) con of
        Throw e \<Rightarrow> fail sv1 (rest_status e)
      | Undef \<Rightarrow> Undef
      | Ret con' \<Rightarrow>
          (case registerConnection now (connectionQueue_of sv1) ((connects_of sv1)(p := con')) (Some p) of
             Throw e \<Rightarrow> fail sv1 (rest_status e)
           | Undef \<Rightarrow> Undef
           | Ret (added, q, cs) \<Rightarrow>
               (let sv2 = sv1\<lparr>connectionQueue_of := q, connects_of := cs\<rparr> in
                if added then
                  Ret (sv2\<lparr>listeners := listeners sv2 @ map (\<lambda>s. (s, p)) (populated_slots sv2)\<rparr>,
                       conn_send OK (Inr (json_push \<lparr>pu_slot = 0, pu_kind = PushSlotsAdded (populated_slots sv2)\<rparr>)) c1)
                else fail sv2 RESOURCE_EXHAUSTED)))"

text \<open>The condition of the loop, and what one pass does once \<^verbatim>\<open>hasUpdate_\<close> holds.\<close>

definition conn_running :: "connect \<Rightarrow> bool" where
  "conn_running con \<longleftrightarrow> \<not> peerGone con \<and> \<not> is_shutdown con"

definition rest_Connect_wake :: "(push_updates \<Rightarrow> string option) \<Rightarrow> int \<Rightarrow> callptr \<Rightarrow> service \<Rightarrow> rest_conn \<Rightarrow> (service \<times> rest_conn) res" where
  "rest_Connect_wake json_push now p sv c =
     (let con = connects_of sv p;
          sv1 = sv\<lparr>connects_of := (connects_of sv)(p := con\<lparr>hasUpdate := False\<rparr>)\<rparr> in
      if peerGone con then Ret (sv1, c)
      else if is_shutdown con then Ret (sv1, conn_send CANCELLED (Inl ()) c)
      else case cn_authz con of
        None \<Rightarrow> Undef
      | Some a \<Rightarrow>
          if isExpired a now then Ret (mark_shutdown p sv1, conn_send UNAUTHENTICATED (Inl ()) c)
          else Ret (sv1, conn_send OK (Inr (json_push (cn_res con))) c))"

text \<open>The destructor.\<close>

definition rest_Connect_end :: "callptr \<Rightarrow> service \<Rightarrow> service" where
  "rest_Connect_end p sv =
     sv\<lparr>shutdownSignal := removeAll p (shutdownSignal sv),
        listeners := filter (\<lambda>(s, q). \<not> (q = p \<and> s \<in> set (populated_slots sv))) (listeners sv),
        connectionQueue_of := deregisterConnection (connectionQueue_of sv) p\<rparr>"

section \<open>The connections of a service\<close>

type_synonym rest_pool = "callptr \<Rightarrow> rest_conn option"

text \<open>What other requests and the devices do in between leaves the bookkeeping alone.\<close>

definition rest_elsewhere :: "service \<Rightarrow> service \<Rightarrow> bool" where
  "rest_elsewhere sv sv' \<longleftrightarrow>
     service_ok sv' \<and> connectionQueue_of sv' = connectionQueue_of sv \<and> listeners sv' = listeners sv
     \<and> shutdownSignal sv' = shutdownSignal sv \<and> map fst (dms sv') = map fst (dms sv)
     \<and> populated_slots sv' = populated_slots sv \<and> next_ptr sv \<le> next_ptr sv'"

inductive rest_step :: "service \<times> rest_pool \<Rightarrow> service \<times> rest_pool \<Rightarrow> bool" where
  accepted: "rest_step (sv, pl) (rest_Connect_new sv, pl(next_ptr sv \<mapsto> fresh_conn ctx))"
| set_up: "pl p = Some c \<Longrightarrow> \<not> rc_started c \<Longrightarrow> rest_Connect_process json_push decode now p sv c = Ret (sv', c') \<Longrightarrow>
     rest_step (sv, pl) (sv', pl(p \<mapsto> c'))"
| woken: "pl p = Some c \<Longrightarrow> rc_started c \<Longrightarrow> hasUpdate (connects_of sv p) \<Longrightarrow> rest_Connect_wake json_push now p sv c = Ret (sv', c') \<Longrightarrow>
     rest_step (sv, pl) (sv', pl(p \<mapsto> c'))"
| ended: "pl p = Some c \<Longrightarrow> rc_started c \<Longrightarrow> \<not> conn_running (connects_of sv p) \<Longrightarrow>
     rest_step (sv, pl) (rest_Connect_end p sv, pl(p := None))"
| shut: "rest_step (sv, pl) (emit_shutdown sv, pl)"
| other: "rest_elsewhere sv sv' \<Longrightarrow> rest_step (sv, pl) (sv', pl)"

inductive_cases rest_stepE: "rest_step s t"

definition rest_pool_ok :: "service \<Rightarrow> rest_pool \<Rightarrow> bool" where
  "rest_pool_ok sv pl \<longleftrightarrow>
     service_ok sv \<and> distinct (map fst (dms sv)) \<and> fst ` set (listeners sv) \<subseteq> set (populated_slots sv)
     \<and> (\<forall>p \<in> connection_refs sv. \<exists>c. pl p = Some c \<and> rc_started c)
     \<and> (\<forall>p c. pl p = Some c \<longrightarrow> p < next_ptr sv)"

lemma conn_send_simps [simp]: "rc_started (conn_send rc msg c) = rc_started c" "rc_ctx (conn_send rc msg c) = rc_ctx c"
  by (simp_all add: conn_send_def Let_def split: prod.split)

lemma mark_shutdown_ok [simp]:
  "service_ok (mark_shutdown p sv) = service_ok sv" "connection_refs (mark_shutdown p sv) = connection_refs sv"
  "dms (mark_shutdown p sv) = dms sv" "listeners (mark_shutdown p sv) = listeners sv" "next_ptr (mark_shutdown p sv) = next_ptr sv"
  "populated_slots (mark_shutdown p sv) = populated_slots sv" "connectionQueue_of (mark_shutdown p sv) = connectionQueue_of sv"
proof -
  have "only_connects sv (mark_shutdown p sv)"
    unfolding only_connects_def mark_shutdown_def by (rule exI [of _ "(connects_of sv)(p := (connects_of sv p)\<lparr>is_shutdown := True\<rparr>)"])
      (auto simp: rank_def)
  from only_connects_ok [OF this] show "service_ok (mark_shutdown p sv) = service_ok sv" .
qed (simp_all add: mark_shutdown_def)

text \<open>The first part is that of gRPC, but for the flag of a connection that was refused.\<close>

lemma initAuthz_meta:
  "res_bind (jwsToken sv (meta_of ctx)) (\<lambda>token. initAuthz decode token (authorizationEnabled sv) con)
     = initAuthz decode (rd_jwsToken ctx) (authorizationEnabled sv) con"
  by (simp add: jwsToken_def meta_of_def starts_with_def initAuthz_def)

lemma registerConnection_returns: "\<exists>added q' cs'. registerConnection now q cs (Some p) = Ret (added, q', cs')"
  by (auto simp: registerConnection_def Let_def split: prod.split)

text \<open>Where the controller of gRPC would let an exception pass, this one ends the connection.\<close>

lemma rest_process_grpc:
  "case Connect_process decode now (sv\<lparr>shutdownSignal := shutdownSignal sv @ [p]\<rparr>)
      (fresh_connect p (rd_detailLevel (rc_ctx c)) (meta_of (rc_ctx c))) of
     Ret (sv', k) \<Rightarrow> \<exists>c'. rest_Connect_process json_push decode now p sv c
        = Ret (if cl_status k = kWrite then sv' else mark_shutdown p sv', c') \<and> rc_started c'
   | Throw e \<Rightarrow> \<exists>c' con. rest_Connect_process json_push decode now p sv c
        = Ret (sv\<lparr>shutdownSignal := shutdownSignal sv @ [p], connects_of := (connects_of sv)(p := con)\<rparr>, c') \<and> rc_started c'
   | Undef \<Rightarrow> rest_Connect_process json_push decode now p sv c = Undef"
proof -
  let ?con = "(connects_of sv p)\<lparr>detailLevel := rd_detailLevel (rc_ctx c)\<rparr>"
  let ?init = "initAuthz decode (rd_jwsToken (rc_ctx c)) (authorizationEnabled sv) ?con"
  have init: "res_bind (jwsToken (sv\<lparr>shutdownSignal := ps, connects_of := cs\<rparr>) (meta_of (rc_ctx c)))
      (\<lambda>token. initAuthz decode token (authorizationEnabled sv) ?con) = ?init" for ps cs
    using initAuthz_meta [of "sv\<lparr>shutdownSignal := ps, connects_of := cs\<rparr>"] by simp
  show ?thesis
  proof (cases ?init)
    case (Throw e)
    with init show ?thesis
      by (cases e) (auto simp: Connect_process_def rest_Connect_process_def fresh_connect_def mark_shutdown_def Let_def)
  next
    case (Ret con')
    from registerConnection_returns [of now "connectionQueue_of sv" "(connects_of sv)(p := con')" p] obtain added q cs where
      "registerConnection now (connectionQueue_of sv) ((connects_of sv)(p := con')) (Some p) = Ret (added, q, cs)" by blast
    with init Ret show ?thesis
      by (simp add: Connect_process_def rest_Connect_process_def fresh_connect_def Let_def populated_slots_def)
  next
    case Undef
    with init show ?thesis by (simp add: Connect_process_def rest_Connect_process_def fresh_connect_def Let_def)
  qed
qed

lemma rest_process_refs:
  assumes "service_ok sv" "distinct (map fst (dms sv))" "p < next_ptr sv" "p \<notin> connection_refs sv"
    and "rest_Connect_process json_push decode now p sv c = Ret (sv', c')"
  shows "service_ok sv' \<and> rc_started c' \<and> dms sv' = dms sv \<and> next_ptr sv' = next_ptr sv
     \<and> connection_refs sv' \<subseteq> insert p (connection_refs sv)
     \<and> set (listeners sv') \<subseteq> set (listeners sv) \<union> (\<lambda>s. (s, p)) ` set (populated_slots sv)"
proof -
  let ?sv1 = "sv\<lparr>shutdownSignal := shutdownSignal sv @ [p]\<rparr>"
  let ?k = "fresh_connect p (rd_detailLevel (rc_ctx c)) (meta_of (rc_ctx c))"
  have sv1: "service_ok ?sv1" using assms(1) by (simp add: service_ok_def connections_ok_def registry_ok_def)
  have new: "p \<notin> set (connectionQueue (connectionQueue_of ?sv1))" "p \<notin> snd ` set (listeners ?sv1)"
    using assms(4) by (simp_all add: connection_refs_def)
  show ?thesis
  proof (cases "Connect_process decode now ?sv1 ?k")
    case (Ret x)
    obtain sv2 k where x: "x = (sv2, k)" by fastforce
    have k: "p = cl_ptr ?k" "p < next_ptr ?sv1" "distinct (map fst (dms ?sv1))" using assms(2,3) by (simp_all add: fresh_connect_def)
    note pr = Connect_process_ok [OF sv1 k(3,1,2) new Ret [unfolded x]]
    from rest_process_grpc [where decode = decode and now = now and sv = sv and p = p and c = c and json_push = json_push] Ret x assms(5) have "sv' = (if cl_status k = kWrite then sv2 else mark_shutdown p sv2)"
      "rc_started c'" by auto
    moreover have "next_ptr sv2 = next_ptr sv"
      using Ret x by (auto simp: Connect_process_def Let_def res_simps split: res.splits exn.splits prod.splits if_splits)
    moreover have "connection_refs sv2 \<subseteq> insert p (connection_refs sv)"
      "set (listeners sv2) \<subseteq> set (listeners sv) \<union> (\<lambda>s. (s, p)) ` set (populated_slots sv)"
      using pr by (auto simp: connection_refs_def split: if_splits)
    ultimately show ?thesis using pr by auto
  next
    case (Throw e)
    with rest_process_grpc [where decode = decode and now = now and sv = sv and p = p and c = c and json_push = json_push] assms(5) obtain con where
      "sv' = ?sv1\<lparr>connects_of := (connects_of sv)(p := con)\<rparr>" "rc_started c'" by auto
    with set_unreferenced [OF sv1 new, of con] show ?thesis by (auto simp: connection_refs_def)
  next
    case Undef
    with rest_process_grpc [where decode = decode and now = now and sv = sv and p = p and c = c and json_push = json_push] assms(5) show ?thesis by simp
  qed
qed

lemma rest_end_refs:
  assumes "rest_pool_ok sv pl"
  shows "connection_refs (rest_Connect_end p sv) = connection_refs sv - {p}" "service_ok (rest_Connect_end p sv)"
    "dms (rest_Connect_end p sv) = dms sv" "next_ptr (rest_Connect_end p sv) = next_ptr sv"
    "set (listeners (rest_Connect_end p sv)) \<subseteq> set (listeners sv)"
proof -
  have ok: "service_ok sv" "distinct (connectionQueue (connectionQueue_of sv))" "fst ` set (listeners sv) \<subseteq> set (populated_slots sv)"
    using assms by (auto simp: rest_pool_ok_def service_ok_def connections_ok_def queue_ok_def)
  then show "connection_refs (rest_Connect_end p sv) = connection_refs sv - {p}"
    by (force simp: connection_refs_def rest_Connect_end_def deregisterConnection_def)
  have "set (connectionQueue (deregisterConnection q p)) \<subseteq> set (connectionQueue q)" for q
    by (simp add: deregisterConnection_def set_remove1_subset)
  then show "service_ok (rest_Connect_end p sv)"
    using ok(1) deregister_ok [of "connectionQueue_of sv" "connects_of sv" p]
    by (auto simp: service_ok_def connections_ok_def registry_ok_def rest_Connect_end_def)
qed (auto simp: rest_Connect_end_def)

lemma rest_pool_okI:
  assumes "service_ok sv" "distinct (map fst (dms sv))" "fst ` set (listeners sv) \<subseteq> set (populated_slots sv)"
    and "\<And>p. p \<in> connection_refs sv \<Longrightarrow> \<exists>c. pl p = Some c \<and> rc_started c" "\<And>p c. pl p = Some c \<Longrightarrow> p < next_ptr sv"
  shows "rest_pool_ok sv pl"
  using assms unfolding rest_pool_ok_def by blast

lemma populated_slots_cong: "dms sv' = dms sv \<Longrightarrow> populated_slots sv' = populated_slots sv"
  by (simp add: populated_slots_def)

text \<open>Connections that change in their flags and messages only.\<close>

lemma rest_pool_connects:
  assumes "rest_pool_ok sv pl" "\<And>q. rank (cs q) = rank (connects_of sv q)" "\<And>q. cn_authz (cs q) = cn_authz (connects_of sv q)"
  shows "rest_pool_ok (sv\<lparr>connects_of := cs\<rparr>) pl"
  using assms service_ok_flags [of sv cs] by (auto simp: rest_pool_ok_def)

lemma rest_pool_moves:
  "rest_pool_ok sv pl \<Longrightarrow> pl p = Some c \<Longrightarrow> rc_started c' \<Longrightarrow> rest_pool_ok sv (pl(p \<mapsto> c'))"
  by (auto simp: rest_pool_ok_def)

lemma rest_step_ok: "rest_step s t \<Longrightarrow> rest_pool_ok (fst s) (snd s) \<Longrightarrow> rest_pool_ok (fst t) (snd t)"
proof (induction rule: rest_step.induct)
  case (accepted sv pl ctx)
  have lt: "p < next_ptr sv" if "p \<in> connection_refs sv" for p using accepted that by (auto simp: rest_pool_ok_def)
  then have "next_ptr sv \<notin> connection_refs sv" by blast
  then have "service_ok (sv\<lparr>connects_of := (connects_of sv)(next_ptr sv := Connect (objectCounter sv RConnect))\<rparr>)"
    using accepted by (intro set_unreferenced) (auto simp: rest_pool_ok_def connection_refs_def)
  then have "service_ok (rest_Connect_new sv)"
    by (fastforce simp: rest_Connect_new_def service_ok_def connections_ok_def registry_ok_def less_Suc_eq)
  moreover have "connection_refs (rest_Connect_new sv) = connection_refs sv" "dms (rest_Connect_new sv) = dms sv"
    "listeners (rest_Connect_new sv) = listeners sv" "next_ptr (rest_Connect_new sv) = Suc (next_ptr sv)"
    by (simp_all add: rest_Connect_new_def connection_refs_def)
  moreover from this(2) have "populated_slots (rest_Connect_new sv) = populated_slots sv" by (rule populated_slots_cong)
  ultimately show ?case
    using accepted lt by (intro rest_pool_okI) (auto simp: rest_pool_ok_def less_Suc_eq)
next
  case (set_up pl p c json_push decode now sv sv' c')
  then have "p \<notin> connection_refs sv" "p < next_ptr sv" by (auto simp: rest_pool_ok_def)
  with rest_process_refs [of sv p json_push decode now c sv' c'] set_up have
    r: "service_ok sv'" "rc_started c'" "dms sv' = dms sv" "next_ptr sv' = next_ptr sv"
    "connection_refs sv' \<subseteq> insert p (connection_refs sv)"
    "set (listeners sv') \<subseteq> set (listeners sv) \<union> (\<lambda>s. (s, p)) ` set (populated_slots sv)" by (auto simp: rest_pool_ok_def)
  have sub: "fst ` set (listeners sv') \<subseteq> fst ` set (listeners sv) \<union> set (populated_slots sv)" using r(6) by force
  have old: "fst ` set (listeners sv) \<subseteq> set (populated_slots sv)" using set_up by (simp add: rest_pool_ok_def)
  have lis: "fst ` set (listeners sv') \<subseteq> set (populated_slots sv')"
    unfolding populated_slots_cong [OF r(3)] by (rule subset_trans [OF sub]) (use old in simp)
  have "rest_pool_ok sv pl" using set_up(4) by simp
  then have inv: "\<And>q. q \<in> connection_refs sv \<Longrightarrow> \<exists>c. pl q = Some c \<and> rc_started c" "\<And>q c. pl q = Some c \<Longrightarrow> q < next_ptr sv"
    "distinct (map fst (dms sv))" unfolding rest_pool_ok_def by blast+
  show ?case
  proof (simp only: fst_conv snd_conv, rule rest_pool_okI)
    show "\<exists>d. (pl(p \<mapsto> c')) q = Some d \<and> rc_started d" if "q \<in> connection_refs sv'" for q
      using that r(2,5) inv(1) [of q] by auto
    show "q < next_ptr sv'" if "(pl(p \<mapsto> c')) q = Some d" for q d
      using that inv(2) set_up(1) r(4) by (auto split: if_splits)
  qed (use r inv(3) lis in simp_all)
next
  case (woken pl p c sv json_push now sv' c')
  have flags: "rest_pool_ok (sv\<lparr>connects_of := (connects_of sv)(p := con)\<rparr>) pl"
    if "rank con = rank (connects_of sv p)" "cn_authz con = cn_authz (connects_of sv p)" for con
    using woken that by (intro rest_pool_connects) auto
  from woken(4) obtain con where "sv' = sv\<lparr>connects_of := (connects_of sv)(p := con)\<rparr>" "rc_started c' = rc_started c"
    "rank con = rank (connects_of sv p)" "cn_authz con = cn_authz (connects_of sv p)"
    by (auto simp: rest_Connect_wake_def mark_shutdown_def Let_def rank_def split: if_splits option.splits)
  with flags [of con] woken(1,2) have "rest_pool_ok sv' pl" "rc_started c'" by simp_all
  from rest_pool_moves [OF this(1) woken(1) this(2)] show ?case by (simp add: fun_upd_def)
next
  case (ended pl p c sv)
  note e = rest_end_refs [of sv pl p]
  moreover have "populated_slots (rest_Connect_end p sv) = populated_slots sv" by (simp add: rest_Connect_end_def populated_slots_def)
  moreover have "rest_pool_ok sv pl" using ended by simp
  ultimately show ?case using ended by (intro rest_pool_okI) (auto simp: rest_pool_ok_def split: if_splits)
next
  case (shut sv pl)
  then show ?case unfolding emit_shutdown_def by (auto intro!: rest_pool_connects simp: shutdown_def rank_def)
next
  case (other sv sv' pl)
  then have "connection_refs sv' = connection_refs sv" by (simp add: rest_elsewhere_def connection_refs_def)
  with other show ?case by (fastforce simp: rest_pool_ok_def rest_elsewhere_def)
qed

lemma rest_steps_ok: "rest_step\<^sup>*\<^sup>* s t \<Longrightarrow> rest_pool_ok (fst s) (snd s) \<Longrightarrow> rest_pool_ok (fst t) (snd t)"
  by (induction rule: rtranclp_induct) (auto intro: rest_step_ok)

section \<open>The service at the start\<close>

definition rest_ServiceImpl :: "device list \<Rightarrow> string \<Rightarrow> bool \<Rightarrow> u32 \<Rightarrow> service res" where
  "rest_ServiceImpl devices eoPath authz maxConn =
     res_bind (add_devices devices []) (\<lambda>m.
     Ret \<lparr>dms = m, subscriptionManager = (\<lambda>_. {}), authorizationEnabled = authz,
          connectionQueue_of = ConnectionQueue maxConn, connects_of = (\<lambda>_. Connect 0), EOPath = eoPath,
          registry = [], objectCounter = (\<lambda>_. 0), next_ptr = 0, listening = [], listeners = [], shutdownSignal = []\<rparr>)"

lemma rest_init_ok:
  assumes "rest_ServiceImpl ds eo authz n = Ret sv" "list_all device_ok ds"
  shows "rest_pool_ok sv Map.empty"
proof -
  from assms(1) obtain m where m: "add_devices ds [] = Ret m" and
    sv: "dms sv = m" "connectionQueue_of sv = ConnectionQueue n" "registry sv = []" "listening sv = []" "listeners sv = []"
      "shutdownSignal sv = []"
    by (auto simp: rest_ServiceImpl_def res_simps)
  from add_devices_ok [OF m assms(2)] have d: "distinct (map fst m)"
    "\<And>s d. (s, d) \<in> set m \<Longrightarrow> \<exists>dm. d = Some dm \<and> slot dm = s \<and> device_ok dm" by auto
  have "slots_ok m"
    using d(2) by (fastforce simp: slots_ok_def device_at_def split: option.splits dest!: map_of_SomeD)
  with sv d(1) show ?thesis
    by (simp add: rest_pool_ok_def service_ok_def connections_ok_def registry_ok_def queue_ok_def ConnectionQueue_def connection_refs_def)
qed

section \<open>Properties\<close>

text \<open>
  C20: from the start of the REST service on, however clients connect, are refused, leave, expire or
  are shut down and whatever happens to the devices meanwhile, every pointer to a connection that
  the queue, the signals of a device or the shutdown signal hold belongs to a request whose thread
  still runs, so that its object has not been destroyed, and no update finds a connection without
  an authorizer.
\<close>

theorem rest_connections_never_dangle:
  assumes "rest_ServiceImpl ds eo authz n = Ret s0" "list_all device_ok ds" "rest_step\<^sup>*\<^sup>* (s0, Map.empty) (sv, pl)"
  shows "(\<forall>p \<in> connection_refs sv. \<exists>c. pl p = Some c \<and> rc_started c) \<and> service_ok sv
     \<and> (\<forall>(s, p) \<in> set (listeners sv). cn_authz (connects_of sv p) \<noteq> None)"
  using rest_steps_ok [OF assms(3)] rest_init_ok [OF assms(1,2)]
  by (auto simp: rest_pool_ok_def service_ok_def connections_ok_def)

definition ex_rest_service :: service where
  "ex_rest_service = (case rest_ServiceImpl [ex_device] [] False 2 of Ret sv \<Rightarrow> sv)"

definition ex_conn :: rest_conn where
  "ex_conn = fresh_conn (fresh_reader [] 0)"

theorem rest_connections_never_dangle_witness:
  "\<exists>sv pl. rest_step\<^sup>*\<^sup>* (ex_rest_service, Map.empty) (sv, pl) \<and> listeners sv = [(1, 0)]
     \<and> (\<forall>p \<in> connection_refs sv. \<exists>c. pl p = Some c \<and> rc_started c)"
proof -
  let ?run = "rest_Connect_process (\<lambda>_. Some ''{}'') (\<lambda>_. None) 0 0 (rest_Connect_new ex_rest_service) ex_conn"
  have "case rest_ServiceImpl [ex_device] [] False 2 of Ret sv \<Rightarrow> True | _ \<Rightarrow> False" by code_simp
  then have s0: "rest_ServiceImpl [ex_device] [] False 2 = Ret ex_rest_service" by (auto simp: ex_rest_service_def split: res.splits)
  have "next_ptr ex_rest_service = 0" by code_simp
  with rest_step.accepted [of ex_rest_service Map.empty "fresh_reader [] 0"]
  have 1: "rest_step (ex_rest_service, Map.empty) (rest_Connect_new ex_rest_service, [0 \<mapsto> ex_conn])" by (simp add: ex_conn_def)
  have "case ?run of Ret (sv, c) \<Rightarrow> listeners sv = [(1, 0)] | _ \<Rightarrow> False" by code_simp
  then obtain sv c where run: "?run = Ret (sv, c)" "listeners sv = [(1, 0)]" by (auto split: res.splits)
  from run(1) have "rest_step (rest_Connect_new ex_rest_service, [0 \<mapsto> ex_conn]) (sv, [0 \<mapsto> ex_conn](0 \<mapsto> c))"
    by (intro rest_step.set_up) (auto simp: ex_conn_def fresh_conn_def)
  with 1 have steps: "rest_step\<^sup>*\<^sup>* (ex_rest_service, Map.empty) (sv, [0 \<mapsto> ex_conn](0 \<mapsto> c))" by (blast intro: rtranclp.intros)
  have "\<forall>p \<in> connection_refs sv. \<exists>d. ([0 \<mapsto> ex_conn](0 \<mapsto> c)) p = Some d \<and> rc_started d"
    using rest_connections_never_dangle [OF s0 _ steps] ex_device_ok(1) by simp
  with steps run(2) show ?thesis by blast
qed

text \<open>
  A connection that is set up after the service has emitted its shutdown signal is not told: it goes
  on waiting, and the service waits for it.
\<close>

lemma late_connection_keeps_running:
  "case rest_Connect_process (\<lambda>_. Some ''{}'') (\<lambda>_. None) 0 0 (emit_shutdown (rest_Connect_new ex_rest_service)) ex_conn of
     Ret (sv, c) \<Rightarrow> rc_started c \<and> conn_running (connects_of sv 0) \<and> \<not> hasUpdate (connects_of sv 0)
   | _ \<Rightarrow> False"
  by code_simp

end
