(* ===== verification/Rest_Server.thy ===== *)
theory Rest_Server
  imports Rest_Connect
begin

text \<open>
  \<^verbatim>\<open>run\<close> and \<^verbatim>\<open>Shutdown\<close> of the REST service: the loop that accepts connections, a thread for each
  of them, the counter of active requests, and the wait for the threads at the end. What a thread does
  for its request is \<open>handle_request\<close>. A step is one access to what the threads share: the flag
  \<^verbatim>\<open>shutdown_\<close>, the counter with its mutex, the queue of connections that wait at the acceptor.
\<close>

section \<open>The state\<close>

text \<open>
  Where the thread of a request is: created, past the test of \<^verbatim>\<open>shutdown_\<close> (with what it read), done with
  the socket, holding \<^verbatim>\<open>activeRequestMutex_\<close> after it has counted down, and ended.
\<close>

datatype thread_phase = Created | Entered bool | Answered "response list" | Counted "response list" | Ended "response list"

record rest_thread =
  th_reading :: "socket_reader res"
  th_phase :: thread_phase

text \<open>\<open>RsHead\<close>: before the test of the loop. \<open>RsFailed\<close>: \<^verbatim>\<open>accept\<close> has thrown, which ends the program.\<close>

datatype run_phase = RsIdle | RsHead | RsAccept | RsDrain | RsReturned | RsFailed

text \<open>
  \<open>rs_backlog\<close>: the connections that have not been accepted, each with the outcome of reading its request;
  \<open>rs_calls\<close>: the calls of \<^verbatim>\<open>Shutdown\<close> that have set the flag and not yet connected.
\<close>

record rest_server =
  rs_service :: service
  rs_shutdown :: bool
  rs_active :: u32
  rs_phase :: run_phase
  rs_backlog :: "socket_reader res list"
  rs_threads :: "rest_thread list"
  rs_calls :: nat

definition rs_init :: "service \<Rightarrow> rest_server" where
  "rs_init sv = \<lparr>rs_service = sv, rs_shutdown = False, rs_active = 0, rs_phase = RsIdle, rs_backlog = [], rs_threads = [], rs_calls = 0\<rparr>"

section \<open>The operations\<close>

fun holds_mutex :: "rest_thread \<Rightarrow> bool" where
  "holds_mutex t = (case th_phase t of Counted _ \<Rightarrow> True | _ \<Rightarrow> False)"

definition mutex_free :: "rest_server \<Rightarrow> bool" where
  "mutex_free s \<longleftrightarrow> list_all (\<lambda>t. \<not> holds_mutex t) (rs_threads s)"

definition run_begin :: "rest_server \<Rightarrow> rest_server" where
  "run_begin s = s\<lparr>rs_shutdown := False, rs_phase := RsHead\<rparr>"

definition run_head :: "rest_server \<Rightarrow> rest_server" where
  "run_head s =
     (if \<not> rs_shutdown s then s\<lparr>rs_phase := RsAccept\<rparr>
      else s\<lparr>rs_service := emit_shutdown (rs_service s), rs_phase := RsDrain\<rparr>)"

text \<open>A connection is accepted and counted, and its thread is created.\<close>

fun run_accept :: "rest_server \<Rightarrow> rest_server" where
  "run_accept s =
     (case rs_backlog s of
        [] \<Rightarrow> s
      | reading # rest \<Rightarrow>
          s\<lparr>rs_backlog := rest, rs_active := rs_active s + 1,
            rs_threads := rs_threads s @ [\<lparr>th_reading = reading, th_phase = Created\<rparr>], rs_phase := RsHead\<rparr>)"

text \<open>Closing the acceptor drops the connections that still wait.\<close>

definition run_close :: "rest_server \<Rightarrow> rest_server" where
  "run_close s = s\<lparr>rs_phase := RsReturned, rs_backlog := []\<rparr>"

definition thread_to :: "nat \<Rightarrow> thread_phase \<Rightarrow> rest_server \<Rightarrow> rest_server" where
  "thread_to i ph s = s\<lparr>rs_threads := (rs_threads s)[i := (rs_threads s ! i)\<lparr>th_phase := ph\<rparr>]\<rparr>"

definition thread_enter :: "nat \<Rightarrow> rest_server \<Rightarrow> rest_server" where
  "thread_enter i s = thread_to i (Entered (rs_shutdown s)) s"

definition thread_serve :: "nat \<Rightarrow> service \<Rightarrow> response list \<Rightarrow> rest_server \<Rightarrow> rest_server" where
  "thread_serve i sv out s = thread_to i (Answered out) (s\<lparr>rs_service := sv\<rparr>)"

definition thread_count :: "nat \<Rightarrow> response list \<Rightarrow> rest_server \<Rightarrow> rest_server" where
  "thread_count i out s = thread_to i (Counted out) (s\<lparr>rs_active := rs_active s - 1\<rparr>)"

definition thread_leave :: "nat \<Rightarrow> response list \<Rightarrow> rest_server \<Rightarrow> rest_server" where
  "thread_leave i out s = thread_to i (Ended out) s"

definition Shutdown_flag :: "rest_server \<Rightarrow> rest_server" where
  "Shutdown_flag s = s\<lparr>rs_shutdown := True, rs_calls := Suc (rs_calls s)\<rparr>"

text \<open>The connection that wakes \<^verbatim>\<open>accept\<close>; there is nothing to read from it. A closed acceptor refuses it.\<close>

definition Shutdown_connect :: "rest_server \<Rightarrow> rest_server res" where
  "Shutdown_connect s =
     (if rs_phase s = RsReturned then Throw RuntimeError
      else Ret (s\<lparr>rs_backlog := rs_backlog s @ [Throw RuntimeError], rs_calls := rs_calls s - 1\<rparr>))"

section \<open>Steps\<close>

text \<open>\<open>serve now stopped reading sv\<close> is the work of a thread. First what the service does on its own.\<close>

type_synonym serving = "int \<Rightarrow> bool \<Rightarrow> socket_reader res \<Rightarrow> service \<Rightarrow> (service \<times> response list) res"

abbreviation in_phase :: "rest_server \<Rightarrow> nat \<Rightarrow> thread_phase \<Rightarrow> bool" where
  "in_phase s i ph \<equiv> i < length (rs_threads s) \<and> th_phase (rs_threads s ! i) = ph"

inductive rs_work :: "serving \<Rightarrow> rest_server \<Rightarrow> rest_server \<Rightarrow> bool" for serve :: serving where
  head: "rs_phase s = RsHead \<Longrightarrow> rs_work serve s (run_head s)"
| accept: "rs_phase s = RsAccept \<Longrightarrow> rs_backlog s \<noteq> [] \<Longrightarrow> mutex_free s \<Longrightarrow> rs_work serve s (run_accept s)"
| drained: "rs_phase s = RsDrain \<Longrightarrow> rs_active s = 0 \<Longrightarrow> rs_work serve s (run_close s)"
| enter: "in_phase s i Created \<Longrightarrow> rs_work serve s (thread_enter i s)"
| serve: "in_phase s i (Entered stopped) \<Longrightarrow> serve now stopped (th_reading (rs_threads s ! i)) (rs_service s) = Ret (sv', out)
    \<Longrightarrow> rs_work serve s (thread_serve i sv' out s)"
| count: "in_phase s i (Answered out) \<Longrightarrow> mutex_free s \<Longrightarrow> rs_work serve s (thread_count i out s)"
| leave: "in_phase s i (Counted out) \<Longrightarrow> rs_work serve s (thread_leave i out s)"

text \<open>And what happens around it; connections and devices may change the service at any time.\<close>

inductive rs_step :: "serving \<Rightarrow> rest_server \<Rightarrow> rest_server \<Rightarrow> bool" for serve :: serving where
  work: "rs_work serve s t \<Longrightarrow> rs_step serve s t"
| run: "rs_phase s = RsIdle \<Longrightarrow> rs_step serve s (run_begin s)"
| accept_fails: "rs_phase s = RsAccept \<Longrightarrow> rs_step serve s (s\<lparr>rs_phase := RsFailed\<rparr>)"
| client: "rs_phase s \<noteq> RsReturned \<Longrightarrow> rs_step serve s (s\<lparr>rs_backlog := rs_backlog s @ [reading]\<rparr>)"
| flag: "rs_step serve s (Shutdown_flag s)"
| connect: "rs_calls s > 0 \<Longrightarrow> Shutdown_connect s = Ret t \<Longrightarrow> rs_step serve s t"
| connect_fails: "rs_calls s > 0 \<Longrightarrow> Shutdown_connect s = Throw e \<Longrightarrow> rs_step serve s (s\<lparr>rs_calls := rs_calls s - 1\<rparr>)"
| elsewhere: "rs_step serve s (s\<lparr>rs_service := sv'\<rparr>)"

inductive_cases rs_workE: "rs_work serve s t"

section \<open>The invariant\<close>

fun uncounted :: "rest_thread \<Rightarrow> bool" where
  "uncounted t = (case th_phase t of Counted _ \<Rightarrow> False | Ended _ \<Rightarrow> False | _ \<Rightarrow> True)"

definition rs_live :: "rest_server \<Rightarrow> nat" where
  "rs_live s = length (filter uncounted (rs_threads s))"

text \<open>What a thread has sent is what \<open>serve\<close> gave for its request, in some state of the service.\<close>

definition served :: "serving \<Rightarrow> rest_thread \<Rightarrow> response list \<Rightarrow> bool" where
  "served serve t out \<longleftrightarrow> (\<exists>now stopped sv sv'. serve now stopped (th_reading t) sv = Ret (sv', out))"

definition answered_by :: "serving \<Rightarrow> rest_thread \<Rightarrow> bool" where
  "answered_by serve t \<longleftrightarrow> (\<forall>out. th_phase t \<in> {Answered out, Counted out, Ended out} \<longrightarrow> served serve t out)"

definition rs_ok :: "serving \<Rightarrow> rest_server \<Rightarrow> bool" where
  "rs_ok serve s \<longleftrightarrow>
     rs_active s = of_nat (rs_live s) \<and> list_all (answered_by serve) (rs_threads s)
     \<and> length (filter holds_mutex (rs_threads s)) \<le> 1
     \<and> (rs_phase s = RsAccept \<and> rs_shutdown s \<and> rs_calls s = 0 \<longrightarrow> rs_backlog s \<noteq> [])
     \<and> (rs_phase s = RsReturned \<and> length (rs_threads s) < 2 ^ 32 \<longrightarrow> rs_live s = 0)"

lemma length_filter_update:
  "i < length xs \<Longrightarrow>
     length (filter P (xs[i := x])) + (if P (xs ! i) then 1 else 0) = length (filter P xs) + (if P x then 1 else 0)"
proof (induction xs arbitrary: i)
  case (Cons y ys)
  then show ?case by (cases i) auto
qed simp

lemma thread_to_simps [simp]:
  "rs_service (thread_to i ph s) = rs_service s" "rs_shutdown (thread_to i ph s) = rs_shutdown s"
  "rs_active (thread_to i ph s) = rs_active s" "rs_phase (thread_to i ph s) = rs_phase s"
  "rs_backlog (thread_to i ph s) = rs_backlog s" "rs_calls (thread_to i ph s) = rs_calls s"
  "length (rs_threads (thread_to i ph s)) = length (rs_threads s)"
  by (simp_all add: thread_to_def)

text \<open>How the invariant follows a thread from one phase to the next.\<close>

lemma thread_to_ok:
  fixes s :: rest_server
  defines "was t \<equiv> (if uncounted t then 1 else 0 :: nat)" and "holds t \<equiv> (if holds_mutex t then 1 else 0 :: nat)"
  assumes "rs_ok serve s" "i < length (rs_threads s)" "t = rs_threads s ! i" "t' = t\<lparr>th_phase := ph\<rparr>"
    and "s' = s\<lparr>rs_service := sv', rs_active := a\<rparr>" "a + of_nat (was t) = rs_active s + of_nat (was t')" "was t' \<le> was t"
    and "answered_by serve t'" "holds t' \<le> holds t \<or> mutex_free s"
  shows "rs_ok serve (thread_to i ph s')"
proof -
  let ?ts = "(rs_threads s)[i := t']"
  have ts: "rs_threads (thread_to i ph s') = ?ts" by (simp add: thread_to_def assms(5-7))
  note upd = length_filter_update [OF assms(4), where x = t']
  have live: "length (filter uncounted ?ts) + was t = rs_live s + was t'"
    using upd [of uncounted] assms(5) by (simp add: rs_live_def was_def del: uncounted.simps)
  have "of_nat (length (filter uncounted ?ts)) + of_nat (was t) = (a + of_nat (was t) :: u32)"
    using arg_cong [OF live, where f = "of_nat :: nat \<Rightarrow> u32"] assms(3,8) by (simp add: rs_ok_def)
  then have active: "a = of_nat (length (filter uncounted ?ts))" by simp
  have "length (filter holds_mutex ?ts) + holds t = length (filter holds_mutex (rs_threads s)) + holds t'"
    using upd [of holds_mutex] assms(5) by (simp add: holds_def del: holds_mutex.simps)
  moreover have "mutex_free s \<Longrightarrow> length (filter holds_mutex (rs_threads s)) = 0"
    by (simp add: mutex_free_def filter_empty_conv list_all_iff del: holds_mutex.simps)
  moreover have "holds t' \<le> 1" by (simp add: holds_def)
  ultimately have mutex: "length (filter holds_mutex ?ts) \<le> 1" using assms(3,11) by (auto simp: rs_ok_def)
  have "list_all (answered_by serve) ?ts"
    using assms(3,10) set_update_subset_insert [of "rs_threads s" i t'] by (auto simp: rs_ok_def list_all_iff)
  moreover have "length (filter uncounted ?ts) \<le> rs_live s" using live assms(9) by linarith
  then have "rs_phase s = RsReturned \<and> length (rs_threads s) < 2 ^ 32 \<longrightarrow> length (filter uncounted ?ts) = 0"
    using assms(3) unfolding rs_ok_def by (metis le_zero_eq)
  moreover have "rs_phase s = RsAccept \<and> rs_shutdown s \<and> rs_calls s = 0 \<longrightarrow> rs_backlog s \<noteq> []"
    using assms(3) by (simp add: rs_ok_def)
  moreover have "rs_active (thread_to i ph s') = a" "rs_phase (thread_to i ph s') = rs_phase s" "rs_calls (thread_to i ph s') = rs_calls s"
    "rs_shutdown (thread_to i ph s') = rs_shutdown s" "rs_backlog (thread_to i ph s') = rs_backlog s"
    by (simp_all add: assms(7))
  ultimately show ?thesis using active mutex unfolding rs_ok_def rs_live_def ts by simp
qed

lemma rs_work_ok:
  assumes "rs_work serve s t" "rs_ok serve s"
  shows "rs_ok serve t"
  using assms(1)
proof cases
  case head
  with assms(2) show ?thesis by (simp add: rs_ok_def run_head_def rs_live_def)
next
  case accept
  then obtain reading rest where "rs_backlog s = reading # rest" by (cases "rs_backlog s") auto
  with assms(2) accept show ?thesis by (simp add: rs_ok_def rs_live_def answered_by_def)
next
  case drained
  have "rs_live s \<le> length (rs_threads s)" by (simp add: rs_live_def)
  moreover have "(of_nat n :: u32) = 0 \<Longrightarrow> n < 2 ^ 32 \<Longrightarrow> n = 0" for n using unat_of_nat [of n, where 'a = 32] by simp
  ultimately have "length (rs_threads s) < 2 ^ 32 \<Longrightarrow> rs_live s = 0" using assms(2) drained(3) by (metis le_less_trans rs_ok_def)
  with assms(2) drained show ?thesis by (simp add: rs_ok_def run_close_def rs_live_def)
next
  case (enter i)
  then show ?thesis unfolding enter(1) thread_enter_def
    by (intro thread_to_ok [OF assms(2) _ refl refl, where sv' = "rs_service s" and a = "rs_active s"]) (simp_all add: answered_by_def)
next
  case (serve i stopped now sv' out)
  then show ?thesis unfolding serve(1) thread_serve_def
    by (intro thread_to_ok [OF assms(2) _ refl refl, where sv' = sv' and a = "rs_active s"]) (auto simp: answered_by_def served_def)
next
  case (count i out)
  with assms(2) have "served serve (rs_threads s ! i) out" by (auto simp: rs_ok_def list_all_length answered_by_def)
  with count show ?thesis unfolding count(1) thread_count_def
    by (intro thread_to_ok [OF assms(2) _ refl refl, where sv' = "rs_service s" and a = "rs_active s - 1"]) (auto simp: answered_by_def served_def)
next
  case (leave i out)
  with assms(2) have "served serve (rs_threads s ! i) out" by (auto simp: rs_ok_def list_all_length answered_by_def)
  with leave show ?thesis unfolding leave(1) thread_leave_def
    by (intro thread_to_ok [OF assms(2) _ refl refl, where sv' = "rs_service s" and a = "rs_active s"]) (auto simp: answered_by_def served_def)
qed

lemma rs_step_ok:
  assumes "rs_step serve s t" "rs_ok serve s"
  shows "rs_ok serve t"
  using assms(1)
proof cases
  case work
  with assms(2) rs_work_ok show ?thesis by blast
qed (use assms(2) in \<open>auto simp: rs_ok_def rs_live_def run_begin_def Shutdown_flag_def Shutdown_connect_def split: if_splits\<close>)

lemma rs_steps_ok: "(rs_step serve)\<^sup>*\<^sup>* (rs_init sv) s \<Longrightarrow> rs_ok serve s"
proof (induction rule: rtranclp_induct)
  case base
  show ?case by (simp add: rs_ok_def rs_init_def rs_live_def)
qed (blast intro: rs_step_ok)

section \<open>The end of the service\<close>

text \<open>The steps that threads and the loop can still take once the flag is set.\<close>

fun thread_steps :: "rest_thread \<Rightarrow> nat" where
  "thread_steps t = (case th_phase t of Created \<Rightarrow> 4 | Entered _ \<Rightarrow> 3 | Answered _ \<Rightarrow> 2 | Counted _ \<Rightarrow> 1 | Ended _ \<Rightarrow> 0)"

definition steps_left :: "rest_server \<Rightarrow> nat" where
  "steps_left s =
     (case rs_phase s of RsAccept \<Rightarrow> 7 | RsHead \<Rightarrow> 2 | RsDrain \<Rightarrow> 1 | _ \<Rightarrow> 0) + sum_list (map thread_steps (rs_threads s))"

lemma sum_list_update_nat:
  "i < length xs \<Longrightarrow> sum_list (map f (xs[i := x])) + f (xs ! i) = sum_list (map f xs) + (f x :: nat)"
proof (induction xs arbitrary: i)
  case (Cons y ys)
  then show ?case by (cases i) auto
qed simp

lemma thread_to_steps:
  assumes "i < length (rs_threads s)" "rs_threads s' = rs_threads s" "rs_phase s' = rs_phase s"
    and "thread_steps ((rs_threads s ! i)\<lparr>th_phase := ph\<rparr>) < thread_steps (rs_threads s ! i)"
  shows "steps_left (thread_to i ph s') < steps_left s"
  using sum_list_update_nat [OF assms(1), of thread_steps "(rs_threads s ! i)\<lparr>th_phase := ph\<rparr>"] assms(2-4)
  by (simp add: steps_left_def thread_to_def del: thread_steps.simps)

text \<open>A thread that was let in before the shutdown has a request whose handling returns.\<close>

definition returning :: "serving \<Rightarrow> rest_server \<Rightarrow> bool" where
  "returning serve s \<longleftrightarrow>
     (\<forall>t \<in> set (rs_threads s). th_phase t = Entered False \<longrightarrow> (\<forall>sv. \<exists>now sv' out. serve now False (th_reading t) sv = Ret (sv', out)))"

definition ending :: "serving \<Rightarrow> rest_server \<Rightarrow> bool" where
  "ending serve s \<longleftrightarrow>
     rs_ok serve s \<and> returning serve s \<and> rs_shutdown s \<and> rs_calls s = 0 \<and> rs_phase s \<in> {RsHead, RsAccept, RsDrain, RsReturned}"

lemma returning_thread_to:
  assumes "returning serve s" "rs_threads s' = rs_threads s" "ph \<noteq> Entered False"
  shows "returning serve (thread_to i ph s')"
  using assms set_update_subset_insert [of "rs_threads s" i "(rs_threads s ! i)\<lparr>th_phase := ph\<rparr>"]
  unfolding returning_def thread_to_def by fastforce

lemma ending_work:
  assumes "rs_work serve s t" "ending serve s"
  shows "ending serve t \<and> steps_left t < steps_left s"
proof -
  note e = assms(2) [unfolded ending_def]
  from e have r: "returning serve s" by simp
  have "returning serve t \<and> rs_shutdown t \<and> rs_calls t = 0 \<and> rs_phase t \<in> {RsHead, RsAccept, RsDrain, RsReturned} \<and> steps_left t < steps_left s"
    using assms(1)
  proof cases
    case head
    with e show ?thesis by (auto simp: run_head_def returning_def steps_left_def)
  next
    case accept
    then obtain reading rest where "rs_backlog s = reading # rest" by (cases "rs_backlog s") auto
    with e accept show ?thesis by (auto simp: returning_def steps_left_def)
  next
    case drained
    with e show ?thesis by (auto simp: run_close_def returning_def steps_left_def)
  next
    case (enter i)
    with e show ?thesis by (auto simp: thread_enter_def intro: returning_thread_to [OF r] thread_to_steps)
  next
    case (serve i stopped now sv' out)
    with e show ?thesis by (auto simp: thread_serve_def intro: returning_thread_to [OF r] thread_to_steps)
  next
    case (count i out)
    with e show ?thesis by (auto simp: thread_count_def intro: returning_thread_to [OF r] thread_to_steps)
  next
    case (leave i out)
    with e show ?thesis by (auto simp: thread_leave_def intro: returning_thread_to [OF r] thread_to_steps)
  qed
  with rs_work_ok [OF assms(1)] e show ?thesis by (simp add: ending_def)
qed

text \<open>A thread that still has to be counted can take a step, or the one that holds the mutex can.\<close>

lemma mutex_holder_moves:
  assumes "\<not> mutex_free s"
  shows "\<exists>t. rs_work serve s t"
proof -
  from assms obtain i where i: "i < length (rs_threads s)" "holds_mutex (rs_threads s ! i)"
    by (auto simp: mutex_free_def list_all_length simp del: holds_mutex.simps)
  then obtain out where "th_phase (rs_threads s ! i) = Counted out" by (auto split: thread_phase.splits)
  with i(1) show ?thesis by (blast intro: rs_work.leave)
qed

lemma ending_moves:
  assumes "ending serve s" "rs_phase s \<noteq> RsReturned" "\<And>now reading sv. \<exists>sv' out. serve now True reading sv = Ret (sv', out)"
  shows "\<exists>t. rs_work serve s t"
proof (cases "mutex_free s")
  case True
  note e = assms(1) [unfolded ending_def]
  from e assms(2) consider "rs_phase s = RsHead" | "rs_phase s = RsAccept" | "rs_phase s = RsDrain" "rs_active s = 0"
    | "rs_active s \<noteq> 0" by blast
  then show ?thesis
  proof cases
    case 2
    with e have "rs_backlog s \<noteq> []" by (simp add: rs_ok_def)
    with 2 True show ?thesis by (blast intro: rs_work.accept)
  next
    case 4
    with e have "filter uncounted (rs_threads s) \<noteq> []" by (auto simp: rs_ok_def rs_live_def)
    then obtain i where i: "i < length (rs_threads s)" "uncounted (rs_threads s ! i)" by (force simp: filter_empty_conv in_set_conv_nth)
    then consider "th_phase (rs_threads s ! i) = Created" | st where "th_phase (rs_threads s ! i) = Entered st"
      | out where "th_phase (rs_threads s ! i) = Answered out" by (auto split: thread_phase.splits)
    then show ?thesis
    proof cases
      case (2 st)
      have "\<exists>now sv' out. serve now st (th_reading (rs_threads s ! i)) (rs_service s) = Ret (sv', out)"
        using e 2 i(1) assms(3) by (cases st) (auto simp: returning_def)
      with 2 i(1) show ?thesis by (blast intro: rs_work.serve)
    qed (use i(1) True in \<open>blast intro: rs_work.enter rs_work.count\<close>)+
  qed (blast intro: rs_work.head rs_work.drained)+
qed (use mutex_holder_moves in blast)

lemma ending_works:
  "(rs_work serve ^^ n) s t \<Longrightarrow> ending serve s \<Longrightarrow> ending serve t \<and> n + steps_left t \<le> steps_left s"
proof (induction n arbitrary: t)
  case (Suc n)
  then obtain u where u: "(rs_work serve ^^ n) s u" "rs_work serve u t" by auto
  with Suc ending_work [of serve u t] show ?case by fastforce
qed simp

lemma ending_returns:
  assumes "ending serve s" "\<And>now reading sv. \<exists>sv' out. serve now True reading sv = Ret (sv', out)"
  shows "\<exists>t. (rs_work serve)\<^sup>*\<^sup>* s t \<and> rs_phase t = RsReturned"
  using assms(1)
proof (induction "steps_left s" arbitrary: s rule: less_induct)
  case less
  show ?case
  proof (cases "rs_phase s = RsReturned")
    case False
    from ending_moves [OF less.prems this assms(2)] obtain u where u: "rs_work serve s u" by blast
    from less.hyps [of u] ending_work [OF u less.prems] u show ?thesis by (blast intro: converse_rtranclp_into_rtranclp)
  qed blast
qed

lemma stopped_returns: "\<exists>sv' out. handle_request cd decode now others True reading sv = Ret (sv', out)"
  by (simp add: handle_request_def)

section \<open>A run with one request\<close>

lemmas rs_run_trans [trans] = rtranclp.rtrancl_into_rtrancl [of "rs_step serve" for serve]

lemma unreadable_request:
  "handle_request cd decode now others False (Throw RuntimeError) sv = Ret (sv, snd (send ''*'' sv INTERNAL (Inl ())))"
  by (simp add: handle_request_def)

definition ex_server :: "service \<Rightarrow> bool \<Rightarrow> run_phase \<Rightarrow> nat \<Rightarrow> rest_server" where
  "ex_server sv stopped phase calls =
     \<lparr>rs_service = sv, rs_shutdown = stopped, rs_active = 1, rs_phase = phase, rs_backlog = [],
      rs_threads = [\<lparr>th_reading = Throw RuntimeError, th_phase = Entered False\<rparr>], rs_calls = calls\<rparr>"

text \<open>A client connects to a running service; its thread has looked at the flag.\<close>

lemma ex_server_reached: "(rs_step serve)\<^sup>*\<^sup>* (rs_init sv) (ex_server sv False RsHead 0)"
proof -
  let ?accepting = "run_head (run_begin (rs_init sv))"
  let ?waiting = "?accepting\<lparr>rs_backlog := [Throw RuntimeError]\<rparr>"
  have "(rs_step serve)\<^sup>*\<^sup>* (rs_init sv) (rs_init sv)" by simp
  also have "rs_step serve (rs_init sv) (run_begin (rs_init sv))" by (rule rs_step.run) (simp add: rs_init_def)
  also have "rs_step serve (run_begin (rs_init sv)) ?accepting" by (intro rs_step.work rs_work.head) (simp add: run_begin_def)
  also have "rs_step serve ?accepting ?waiting"
    using rs_step.client [of ?accepting serve "Throw RuntimeError"] by (simp add: rs_init_def run_head_def run_begin_def)
  also have "rs_step serve ?waiting (run_accept ?waiting)"
    by (intro rs_step.work rs_work.accept) (simp_all add: rs_init_def run_head_def run_begin_def mutex_free_def)
  also have "rs_step serve (run_accept ?waiting) (thread_enter 0 (run_accept ?waiting))"
    by (intro rs_step.work rs_work.enter) (simp add: rs_init_def run_head_def run_begin_def)
  finally have run: "(rs_step serve)\<^sup>*\<^sup>* (rs_init sv) (thread_enter 0 (run_accept ?waiting))" .
  have "thread_enter 0 (run_accept ?waiting) = ex_server sv False RsHead 0"
    by (simp add: rs_init_def run_head_def run_begin_def thread_enter_def thread_to_def ex_server_def)
  with run show ?thesis by metis
qed

text \<open>
  \<^verbatim>\<open>Shutdown\<close> sets the flag; before it connects, the loop sees the flag, the thread answers and counts, and
  \<^verbatim>\<open>run\<close> returns. The thread is then still inside the locked section, and the connection of \<^verbatim>\<open>Shutdown\<close>
  is refused, so that it throws.
\<close>

definition ex_returned :: "service \<Rightarrow> response list \<Rightarrow> rest_server" where
  "ex_returned sv out =
     \<lparr>rs_service = sv, rs_shutdown = True, rs_active = 0, rs_phase = RsReturned, rs_backlog = [],
      rs_threads = [\<lparr>th_reading = Throw RuntimeError, th_phase = Counted out\<rparr>], rs_calls = 1\<rparr>"

lemma ex_returned_reached:
  fixes cd decode others sv
  defines "serve \<equiv> \<lambda>now. handle_request cd decode now others" and "sv' \<equiv> emit_shutdown sv"
  shows "(rs_step serve)\<^sup>*\<^sup>* (rs_init sv) (ex_returned sv' (snd (send ''*'' sv' INTERNAL (Inl ()))))"
proof -
  let ?out = "snd (send ''*'' sv' INTERNAL (Inl ()))"
  let ?draining = "ex_server sv' True RsDrain 1"
  let ?served = "thread_serve 0 sv' ?out ?draining"
  note ex_server_reached [of serve sv]
  also have "rs_step serve (ex_server sv False RsHead 0) (ex_server sv True RsHead 1)"
    using rs_step.flag [of serve "ex_server sv False RsHead 0"] by (simp add: ex_server_def Shutdown_flag_def)
  also have "rs_step serve (ex_server sv True RsHead 1) ?draining"
    using rs_step.work [OF rs_work.head, of "ex_server sv True RsHead 1" serve] by (simp add: ex_server_def run_head_def sv'_def)
  also have "rs_step serve ?draining ?served"
    by (intro rs_step.work rs_work.serve [where stopped = False]) (simp_all add: ex_server_def serve_def unreadable_request)
  also have "rs_step serve ?served (thread_count 0 ?out ?served)"
    by (intro rs_step.work rs_work.count) (simp_all add: ex_server_def thread_serve_def thread_to_def mutex_free_def)
  also have "rs_step serve (thread_count 0 ?out ?served) (run_close (thread_count 0 ?out ?served))"
    by (intro rs_step.work rs_work.drained) (simp_all add: ex_server_def thread_serve_def thread_count_def)
  finally have run: "(rs_step serve)\<^sup>*\<^sup>* (rs_init sv) (run_close (thread_count 0 ?out ?served))" .
  have "run_close (thread_count 0 ?out ?served) = ex_returned sv' ?out"
    by (simp add: ex_server_def thread_serve_def thread_count_def thread_to_def run_close_def ex_returned_def)
  with run show ?thesis by metis
qed

lemma run_returns_before_unlock:
  "holds_mutex (hd (rs_threads (ex_returned sv out)))" "Shutdown_connect (ex_returned sv out) = Throw RuntimeError"
  by (simp_all add: ex_returned_def Shutdown_connect_def)

text \<open>\<^verbatim>\<open>run\<close> clears the flag at its start: a \<^verbatim>\<open>Shutdown\<close> that came before leaves the service running.\<close>

lemma early_shutdown_lost:
  "\<exists>s. Shutdown_connect (Shutdown_flag (rs_init sv)) = Ret s
     \<and> rs_phase (run_head (run_accept (run_head (run_begin s)))) = RsAccept
     \<and> rs_backlog (run_head (run_accept (run_head (run_begin s)))) = []"
  by (simp add: rs_init_def Shutdown_flag_def Shutdown_connect_def run_begin_def run_head_def)

section \<open>Properties\<close>

text \<open>
  C17: when \<^verbatim>\<open>run\<close> returns, every connection it has accepted has been handled and answered with what
  \<open>handle_request\<close> gives for it, the counter is zero and no thread will touch a request again, whatever
  the interleaving of the loop, the threads, clients, devices and calls of \<^verbatim>\<open>Shutdown\<close>. At most one
  thread is still inside the section that counts. Fewer than \<open>2\<^sup>3\<^sup>2\<close> connections are assumed, as the counter
  has that width.
\<close>

theorem rest_run_drains:
  assumes "(rs_step (\<lambda>now. handle_request cd decode now others))\<^sup>*\<^sup>* (rs_init sv) s"
    and "rs_phase s = RsReturned" "length (rs_threads s) < 2 ^ 32"
  shows "(\<forall>t \<in> set (rs_threads s). \<exists>out. th_phase t \<in> {Counted out, Ended out}
           \<and> (\<exists>now stopped sv0 sv1. handle_request cd decode now others stopped (th_reading t) sv0 = Ret (sv1, out)))
     \<and> rs_active s = 0 \<and> length (filter holds_mutex (rs_threads s)) \<le> 1"
proof -
  let ?serve = "\<lambda>now. handle_request cd decode now others"
  have ok: "rs_ok ?serve s" by (rule rs_steps_ok [OF assms(1)])
  with assms(2,3) have "rs_live s = 0" by (simp add: rs_ok_def)
  have "\<exists>out. th_phase t \<in> {Counted out, Ended out} \<and> served ?serve t out" if t: "t \<in> set (rs_threads s)" for t
  proof -
    from t \<open>rs_live s = 0\<close> have "\<not> uncounted t" by (simp add: rs_live_def filter_empty_conv del: uncounted.simps)
    moreover from ok t have "answered_by ?serve t" by (simp add: rs_ok_def list_all_iff)
    ultimately show ?thesis by (cases "th_phase t") (auto simp: answered_by_def)
  qed
  then show ?thesis using ok \<open>rs_live s = 0\<close> by (auto simp: rs_ok_def served_def)
qed

theorem rest_run_drains_witness:
  "\<exists>s. (rs_step (\<lambda>now. handle_request ex_codec (\<lambda>_. None) now (\<lambda>_ _ _. Undef)))\<^sup>*\<^sup>* (rs_init ex_rest_service) s \<and> rs_phase s = RsReturned
     \<and> length (rs_threads s) = 1 \<and> rs_active s = 0 \<and> (\<exists>out. th_phase (hd (rs_threads s)) \<in> {Counted out, Ended out})"
proof -
  let ?sv = "emit_shutdown ex_rest_service"
  let ?s = "ex_returned ?sv (snd (send ''*'' ?sv INTERNAL (Inl ())))"
  have s: "rs_phase ?s = RsReturned" "length (rs_threads ?s) < 2 ^ 32" "length (rs_threads ?s) = 1" by (simp_all add: ex_returned_def)
  note reach = ex_returned_reached [of ex_codec "\<lambda>_. None" "\<lambda>_ _ _. Undef" ex_rest_service]
  have "hd (rs_threads ?s) \<in> set (rs_threads ?s)" by (rule hd_in_set) (use s(3) in auto)
  with rest_run_drains [OF reach s(1,2)] have "rs_active ?s = 0" "\<exists>out. th_phase (hd (rs_threads ?s)) \<in> {Counted out, Ended out}"
    by (simp, blast)
  with reach s(1,3) show ?thesis by blast
qed

text \<open>
  C18: after \<^verbatim>\<open>Shutdown\<close> has returned, the service comes to its end when the requests that it has let in
  do: as long as \<^verbatim>\<open>run\<close> has not returned, the loop or a thread can go on, they take a bounded number of
  steps, and after them \<^verbatim>\<open>run\<close> has returned; \<^verbatim>\<open>accept\<close> is assumed not to fail.
\<close>

theorem rest_shutdown_ends:
  fixes cd decode others
  defines "serve \<equiv> \<lambda>now. handle_request cd decode now others"
  assumes "(rs_step serve)\<^sup>*\<^sup>* (rs_init sv) s" "rs_shutdown s" "rs_calls s = 0" "rs_phase s \<in> {RsHead, RsAccept, RsDrain}"
    and "\<forall>t \<in> set (rs_threads s). th_phase t = Entered False
       \<longrightarrow> (\<forall>sv. \<exists>now sv' out. serve now False (th_reading t) sv = Ret (sv', out))"
  shows "(\<exists>t. (rs_work serve)\<^sup>*\<^sup>* s t \<and> rs_phase t = RsReturned)
     \<and> (\<forall>t. (rs_work serve)\<^sup>*\<^sup>* s t \<and> rs_phase t \<noteq> RsReturned \<longrightarrow> (\<exists>u. rs_work serve t u))
     \<and> (\<forall>n t. (rs_work serve ^^ n) s t \<longrightarrow> n \<le> steps_left s)"
proof -
  have stopped: "\<exists>sv' out. serve now True reading sv = Ret (sv', out)" for now reading sv
    unfolding serve_def by (rule stopped_returns)
  have s: "ending serve s" using rs_steps_ok [OF assms(2)] assms(3-6) by (auto simp: ending_def returning_def)
  have "ending serve t" if "(rs_work serve)\<^sup>*\<^sup>* s t" for t
    using that s by (induction rule: rtranclp_induct) (auto dest: ending_work)
  moreover have "\<exists>u. rs_work serve t u" if "ending serve t" "rs_phase t \<noteq> RsReturned" for t
    by (rule ending_moves [OF that stopped])
  moreover have "n \<le> steps_left s" if "(rs_work serve ^^ n) s t" for n t using ending_works [OF that s] by simp
  ultimately show ?thesis using ending_returns [OF s stopped] by blast
qed

theorem rest_shutdown_ends_witness:
  "\<exists>s t. (rs_step (\<lambda>now. handle_request ex_codec (\<lambda>_. None) now (\<lambda>_ _ _. Undef)))\<^sup>*\<^sup>* (rs_init ex_rest_service) s
     \<and> th_phase (hd (rs_threads s)) = Entered False
     \<and> (rs_work (\<lambda>now. handle_request ex_codec (\<lambda>_. None) now (\<lambda>_ _ _. Undef)))\<^sup>*\<^sup>* s t \<and> rs_phase t = RsReturned"
proof -
  let ?serve = "\<lambda>now. handle_request ex_codec (\<lambda>_. None) now (\<lambda>_ _ _. Undef)" and ?sv = ex_rest_service
  let ?s = "(ex_server ?sv True RsAccept 0)\<lparr>rs_backlog := [Throw RuntimeError]\<rparr>"
  note ex_server_reached [of ?serve ?sv]
  also have "rs_step ?serve (ex_server ?sv False RsHead 0) (ex_server ?sv False RsAccept 0)"
    using rs_step.work [OF rs_work.head, of "ex_server ?sv False RsHead 0" ?serve] by (simp add: ex_server_def run_head_def)
  also have "rs_step ?serve (ex_server ?sv False RsAccept 0) (ex_server ?sv True RsAccept 1)"
    using rs_step.flag [of ?serve "ex_server ?sv False RsAccept 0"] by (simp add: ex_server_def Shutdown_flag_def)
  also have "rs_step ?serve (ex_server ?sv True RsAccept 1) ?s"
    by (rule rs_step.connect) (simp_all add: ex_server_def Shutdown_connect_def)
  finally have reach: "(rs_step ?serve)\<^sup>*\<^sup>* (rs_init ?sv) ?s" .
  moreover have "rs_shutdown ?s" "rs_calls ?s = 0" "rs_phase ?s \<in> {RsHead, RsAccept, RsDrain}"
    "th_phase (hd (rs_threads ?s)) = Entered False" by (simp_all add: ex_server_def)
  moreover have "\<forall>t \<in> set (rs_threads ?s). th_phase t = Entered False
       \<longrightarrow> (\<forall>sv. \<exists>now sv' out. ?serve now False (th_reading t) sv = Ret (sv', out))"
    by (simp add: ex_server_def unreadable_request)
  ultimately show ?thesis using rest_shutdown_ends [of ex_codec "\<lambda>_. None" "\<lambda>_ _ _. Undef" ?sv ?s] by blast
qed

end
