(* ===== verification/Catena_Patterns.thy ===== *)
theory Catena_Patterns
  imports Rest_Service
begin

text \<open>
  The patterns of the library: \<^verbatim>\<open>EnumDecorator.h\<close>, which converts enumerations to text and back, and
  \<^verbatim>\<open>GenericFactory.h\<close>, the table of makers from which the REST service takes its controllers.
\<close>

section \<open>Enumerations with names\<close>

text \<open>
  A decorator is the table of its names, in the order in which the map is traversed, and the value 0
  of the enumeration. The reverse map is built from the table; a later entry replaces an earlier one.
\<close>

definition getReverseMap :: "('e \<times> string) list \<Rightarrow> (string \<times> 'e) list" where
  "getReverseMap fwd = fold (\<lambda>(e, s). AList.update s e) fwd []"

definition EnumDecorator_string :: "'e \<Rightarrow> ('e \<times> string) list \<Rightarrow> string \<Rightarrow> 'e" where
  "EnumDecorator_string zero fwd str = (case map_of (getReverseMap fwd) str of None \<Rightarrow> zero | Some e \<Rightarrow> e)"

definition EnumDecorator_value :: "'e \<Rightarrow> ('e \<times> string) list \<Rightarrow> 'e \<Rightarrow> 'e" where
  "EnumDecorator_value zero fwd v = (if v \<in> fst ` set fwd then v else zero)"

definition enum_toString :: "('e \<times> string) list \<Rightarrow> 'e \<Rightarrow> string" where
  "enum_toString fwd v = (case map_of fwd v of None \<Rightarrow> [] | Some s \<Rightarrow> s)"

lemma getReverseMap_map_of: "map_of (fold (\<lambda>(e, s). AList.update s e) fwd m) = map_of m ++ map_of (rev (map (\<lambda>(e, s). (s, e)) fwd))"
  by (induction fwd arbitrary: m) (auto simp: update_conv' map_add_upd_left split: prod.splits)

text \<open>What the documentation of the class asks of a table, and what the class then promises.\<close>

locale named_enum =
  fixes zero :: 'e and fwd :: "('e \<times> string) list"
  assumes values_distinct: "distinct (map fst fwd)"
    and names_distinct: "distinct (map snd fwd)"
    and names_total: "e \<in> fst ` set fwd"
begin

lemma reverse_map: "map_of (getReverseMap fwd) str = Some e \<longleftrightarrow> (e, str) \<in> set fwd"
proof -
  have "distinct (map fst (rev (map (\<lambda>(e, s). (s, e)) fwd)))"
    using names_distinct by (simp add: rev_map [symmetric] comp_def case_prod_unfold)
  then have "map_of (rev (map (\<lambda>(e, s). (s, e)) fwd)) str = Some e \<longleftrightarrow> (str, e) \<in> set (rev (map (\<lambda>(e, s). (s, e)) fwd))"
    by (rule map_of_eq_Some_iff)
  then show ?thesis by (auto simp: getReverseMap_def getReverseMap_map_of)
qed

lemma toString_entry: "(e, enum_toString fwd e) \<in> set fwd"
proof -
  from names_total obtain s where "(e, s) \<in> set fwd" by force
  moreover from this have "map_of fwd e = Some s" using values_distinct by simp
  ultimately show ?thesis by (simp add: enum_toString_def)
qed

lemma string_roundtrip: "EnumDecorator_string zero fwd (enum_toString fwd e) = e"
  using reverse_map [of "enum_toString fwd e" e] toString_entry by (simp add: EnumDecorator_string_def)

lemma string_known: "EnumDecorator_string zero fwd str = e \<Longrightarrow> enum_toString fwd e = str \<or> e = zero \<and> (\<forall>e'. enum_toString fwd e' \<noteq> str)"
proof (cases "map_of (getReverseMap fwd) str")
  case None
  then have "(e', str) \<notin> set fwd" for e' using reverse_map [of str e'] by simp
  then have "enum_toString fwd e' \<noteq> str" for e' using toString_entry [of e'] by metis
  moreover assume "EnumDecorator_string zero fwd str = e"
  ultimately show ?thesis using None by (simp add: EnumDecorator_string_def)
next
  case (Some a)
  then have "(a, str) \<in> set fwd" by (simp add: reverse_map)
  then have "enum_toString fwd a = str" using values_distinct by (simp add: enum_toString_def)
  moreover assume "EnumDecorator_string zero fwd str = e"
  ultimately show ?thesis using Some by (simp add: EnumDecorator_string_def)
qed

end

definition RESTMethodMap :: "(RESTMethod \<times> string) list" where
  "RESTMethodMap = map (\<lambda>m. (m, method_name m)) all_methods"

definition Scopes :: "(Scopes_e \<times> string) list" where
  "Scopes = map (\<lambda>s. (s, scope_name s)) [kUndefined, kMonitor, kOperate, kConfig, kAdmin]"

definition DetailLevelMap :: "(DetailLevel \<times> string) list" where
  "DetailLevelMap = map (\<lambda>d. (d, detail_level_name d)) [FULL, SUBSCRIPTIONS, MINIMAL, COMMANDS, NONE, UNSET]"

interpretation methods: named_enum Method_NONE RESTMethodMap
proof
  show "e \<in> fst ` set RESTMethodMap" for e by (cases e) (simp_all add: RESTMethodMap_def all_methods_def)
qed (simp_all add: RESTMethodMap_def all_methods_def)

interpretation scopes: named_enum kUndefined Scopes
proof
  show "e \<in> fst ` set Scopes" for e by (cases e) (simp_all add: Scopes_def)
qed (simp_all add: Scopes_def)

interpretation details: named_enum FULL DetailLevelMap
proof
  show "e \<in> fst ` set DetailLevelMap" for e by (cases e) (simp_all add: DetailLevelMap_def)
qed (simp_all add: DetailLevelMap_def)

lemma names_of_tables [simp]:
  "enum_toString RESTMethodMap m = method_name m" "enum_toString Scopes s = scope_name s" "enum_toString DetailLevelMap d = detail_level_name d"
  by (cases m, simp_all add: enum_toString_def RESTMethodMap_def all_methods_def)
    (cases s, simp_all add: enum_toString_def Scopes_def, cases d, simp_all add: enum_toString_def DetailLevelMap_def)

text \<open>
  The names of methods, scopes and detail levels are read back as what they name; a text that names
  no method is read as none.
\<close>

theorem enum_names_roundtrip:
  "EnumDecorator_string Method_NONE RESTMethodMap (method_name m) = m
   \<and> EnumDecorator_string kUndefined Scopes (scope_name s) = s
   \<and> EnumDecorator_string FULL DetailLevelMap (detail_level_name d) = d
   \<and> method_of str = EnumDecorator_string Method_NONE RESTMethodMap str
   \<and> detail_level_of str = map_of (getReverseMap DetailLevelMap) str"
proof -
  have "getReverseMap RESTMethodMap = map (\<lambda>m. (method_name m, m)) all_methods"
    "getReverseMap DetailLevelMap = map (\<lambda>d. (detail_level_name d, d)) [FULL, SUBSCRIPTIONS, MINIMAL, COMMANDS, NONE, UNSET]"
    by (simp_all add: getReverseMap_def RESTMethodMap_def DetailLevelMap_def all_methods_def)
  then show ?thesis
    using methods.string_roundtrip [of m] scopes.string_roundtrip [of s] details.string_roundtrip [of d]
    by (simp add: EnumDecorator_string_def method_of_def detail_level_of_def)
qed

section \<open>Factories\<close>

text \<open>The registry is shared by the whole process. A maker that throws makes the factory throw a runtime error.\<close>

definition canMake :: "('k \<times> 'm) list \<Rightarrow> 'k \<Rightarrow> bool" where
  "canMake reg key \<longleftrightarrow> map_of reg key \<noteq> None"

definition addProduct :: "('k \<times> 'm) list \<Rightarrow> 'k \<Rightarrow> 'm \<Rightarrow> ('k \<times> 'm) list res" where
  "addProduct reg key maker =
     (if \<not> canMake reg key then Ret (AList.update key maker reg) else Throw RuntimeError)"

definition makeProduct :: "('k \<times> ('a \<Rightarrow> 'p res)) list \<Rightarrow> 'k \<Rightarrow> 'a \<Rightarrow> 'p res" where
  "makeProduct reg key args =
     (case map_of reg key of
        Some maker \<Rightarrow> (case maker args of Ret p \<Rightarrow> Ret p | Throw e \<Rightarrow> Throw RuntimeError | Undef \<Rightarrow> Undef)
      | None \<Rightarrow> Throw RuntimeError)"

fun addProducts :: "('k \<times> 'm) list \<Rightarrow> ('k \<times> 'm) list \<Rightarrow> ('k \<times> 'm) list res" where
  "addProducts reg [] = Ret reg"
| "addProducts reg ((key, maker) # ps) = res_bind (addProduct reg key maker) (\<lambda>r. addProducts r ps)"

text \<open>The controllers of the REST service, in the order in which its constructor registers them.\<close>

datatype controller =
    CConnect | CDeviceRequest | CExecuteCommand | CAssetRequest | CGetPopulatedSlots | CGetValue | CMultiSetValue
  | CSetValue | CGetParam | CLanguagePack | CLanguages | CParamInfoRequest | CSubscriptions

definition rest_products :: "(string \<times> controller) list" where
  "rest_products =
     [(''GET/connect'', CConnect), (''GET'', CDeviceRequest), (''POST/command'', CExecuteCommand),
      (''GET/asset'', CAssetRequest), (''POST/asset'', CAssetRequest), (''PUT/asset'', CAssetRequest), (''DELETE/asset'', CAssetRequest),
      (''GET/devices'', CGetPopulatedSlots), (''GET/value'', CGetValue), (''PUT/values'', CMultiSetValue), (''PUT/value'', CSetValue),
      (''GET/param'', CGetParam), (''GET/language-pack'', CLanguagePack), (''PUT/language-pack'', CLanguagePack),
      (''POST/language-pack'', CLanguagePack), (''DELETE/language-pack'', CLanguagePack), (''GET/languages'', CLanguages),
      (''GET/param-info'', CParamInfoRequest), (''GET/subscriptions'', CSubscriptions), (''PUT/subscriptions'', CSubscriptions)]"

definition init_router :: "(string \<times> controller) list \<Rightarrow> (string \<times> controller) list res" where
  "init_router reg =
     (if \<not> canMake reg ''PUT/subscriptions'' then addProducts reg rest_products else Ret reg)"

lemma addProducts_fresh:
  "distinct (map fst ps) \<Longrightarrow> list_all (\<lambda>(k, m). \<not> canMake reg k) ps
     \<Longrightarrow> \<exists>r. addProducts reg ps = Ret r \<and> (\<forall>k. map_of r k = (map_of reg ++ map_of ps) k)"
proof (induction ps arbitrary: reg)
  case (Cons p ps)
  obtain k m where p: "p = (k, m)" by force
  let ?r = "AList.update k m reg"
  have "list_all (\<lambda>(j, _). \<not> canMake ?r j) ps"
    using Cons.prems p by (auto simp: list_all_iff canMake_def update_conv' image_iff split: prod.splits)
  with Cons.IH [of ?r] Cons.prems p obtain r where r: "addProducts ?r ps = Ret r" "\<forall>j. map_of r j = (map_of ?r ++ map_of ps) j" by auto
  have "map_of ps k = None" using Cons.prems(1) p by (simp add: map_of_eq_None_iff)
  then have "(map_of ?r ++ map_of ps) j = (map_of reg ++ map_of ((k, m) # ps)) j" for j
    by (simp add: update_conv' map_add_def split: option.splits)
  with r have "\<forall>j. map_of r j = (map_of reg ++ map_of (p # ps)) j" by (simp only: p simp_thms)
  moreover have "addProducts reg (p # ps) = Ret r" using r(1) Cons.prems p by (simp add: addProduct_def)
  ultimately show ?case by blast
qed simp

text \<open>
  The constructor of the first REST service of a process registers every controller without a clash,
  that of a later one changes nothing, and what the router can then make is exactly what \<open>route\<close>
  dispatches.
\<close>

theorem rest_router_complete:
  "\<exists>r. init_router [] = Ret r \<and> init_router r = Ret r
     \<and> (\<forall>key. canMake r key \<longleftrightarrow> key \<in> set stream_routes \<or> unary_route cd decode now key \<noteq> None)
     \<and> (\<forall>key. map_of r key = map_of rest_products key)"
proof -
  have "distinct (map fst rest_products)" by (simp add: rest_products_def)
  moreover have "list_all (\<lambda>(k, m). \<not> canMake [] k) rest_products" by (simp add: canMake_def list_all_iff)
  ultimately obtain r where r: "addProducts [] rest_products = Ret r" "\<forall>k. map_of r k = map_of rest_products k"
    using addProducts_fresh [of rest_products "[]"] by auto
  have "map_of rest_products ''PUT/subscriptions'' \<noteq> None" by (simp add: rest_products_def)
  with r have "init_router [] = Ret r" "init_router r = Ret r" by (simp_all add: init_router_def canMake_def)
  moreover have "map_of rest_products key \<noteq> None \<longleftrightarrow> key \<in> set stream_routes \<or> unary_route cd decode now key \<noteq> None" for key
    by (simp add: rest_products_def stream_routes_def unary_route_def)
  ultimately show ?thesis using r(2) by (simp add: canMake_def)
qed

end
