(* ===== verification/Heartbeat.thy ===== *)
theory Heartbeat
  imports Catena_Prelude
begin

text \<open>
  \<^verbatim>\<open>Heartbeat.cpp\<close>: a thread that emits a signal at an interval until it is stopped. The code between
  two operations on the mutex is one action. The clock decides when a wait ends, so an action of the
  thread is told whether the interval is over; the slots of the signal run while the thread is in
  \<open>Emitting\<close>, and whatever they throw is caught.
\<close>

section \<open>The timer and its thread\<close>

text \<open>Where the thread is; a thread that has ended stays joinable until it is joined.\<close>

datatype hb_phase = AtLoop | Waiting | Emitting | Finished | Joined

text \<open>
  \<open>hb_stopping\<close>: a client is between the two halves of \<^verbatim>\<open>stop\<close>. \<open>hb_aborted\<close>: a joinable thread object
  was destroyed, which ends the program. \<open>hb_beats\<close> counts the emissions that have returned.
\<close>

record heartbeat =
  hb_running :: bool
  hb_thread :: "hb_phase option"
  hb_stopping :: bool
  hb_aborted :: bool
  hb_beats :: nat

definition Heartbeat :: heartbeat where
  "Heartbeat = \<lparr>hb_running = False, hb_thread = None, hb_stopping = False, hb_aborted = False, hb_beats = 0\<rparr>"

definition hb_joinable :: "heartbeat \<Rightarrow> bool" where
  "hb_joinable h \<longleftrightarrow> (case hb_thread h of None \<Rightarrow> False | Some ph \<Rightarrow> ph \<noteq> Joined)"

definition hb_start :: "heartbeat \<Rightarrow> heartbeat" where
  "hb_start h =
     (if hb_running h then h
      else h\<lparr>hb_running := True, hb_thread := Some AtLoop, hb_aborted := hb_aborted h \<or> hb_joinable h\<rparr>)"

text \<open>The body of the thread; the lock is held except in \<open>Waiting\<close> and \<open>Emitting\<close>. None: it cannot go on.\<close>

fun hb_loop :: "bool \<Rightarrow> bool \<Rightarrow> hb_phase \<Rightarrow> hb_phase option" where
  "hb_loop timeout running AtLoop = Some (if running then Waiting else Finished)"
| "hb_loop timeout running Waiting = (if \<not> running then Some Finished else if timeout then Some Emitting else None)"
| "hb_loop timeout running Emitting = Some AtLoop"
| "hb_loop timeout running Finished = None"
| "hb_loop timeout running Joined = None"

definition hb_thread_run :: "bool \<Rightarrow> heartbeat \<Rightarrow> heartbeat option" where
  "hb_thread_run timeout h =
     (case hb_thread h of
        None \<Rightarrow> None
      | Some ph \<Rightarrow>
          map_option (\<lambda>ph'. h\<lparr>hb_thread := Some ph', hb_beats := hb_beats h + (if ph = Emitting then 1 else 0)\<rparr>)
            (hb_loop timeout (hb_running h) ph))"

definition hb_stop_request :: "heartbeat \<Rightarrow> heartbeat" where
  "hb_stop_request h = h\<lparr>hb_running := False, hb_stopping := True\<rparr>"

text \<open>The join returns only when the thread has ended.\<close>

definition hb_stop_join :: "heartbeat \<Rightarrow> heartbeat option" where
  "hb_stop_join h =
     (if \<not> hb_joinable h then Some (h\<lparr>hb_stopping := False\<rparr>)
      else if hb_thread h = Some Finished then Some (h\<lparr>hb_thread := Some Joined, hb_stopping := False\<rparr>)
      else None)"

section \<open>Runs\<close>

datatype hb_action = Start | StopRequest | StopJoin | Thread bool

fun hb_act :: "hb_action \<Rightarrow> heartbeat \<Rightarrow> heartbeat option" where
  "hb_act Start h = Some (hb_start h)"
| "hb_act StopRequest h = Some (hb_stop_request h)"
| "hb_act StopJoin h = (if hb_stopping h then hb_stop_join h else None)"
| "hb_act (Thread timeout) h = hb_thread_run timeout h"

fun hb_run :: "hb_action list \<Rightarrow> heartbeat \<Rightarrow> heartbeat option" where
  "hb_run [] h = Some h"
| "hb_run (a # as) h = Option.bind (hb_act a h) (hb_run as)"

text \<open>The clients use the timer one after the other: nobody calls it while \<^verbatim>\<open>stop\<close> waits.\<close>

fun one_at_a_time :: "bool \<Rightarrow> hb_action list \<Rightarrow> bool" where
  "one_at_a_time stopping [] = True"
| "one_at_a_time stopping (Start # as) \<longleftrightarrow> \<not> stopping \<and> one_at_a_time False as"
| "one_at_a_time stopping (StopRequest # as) \<longleftrightarrow> \<not> stopping \<and> one_at_a_time True as"
| "one_at_a_time stopping (StopJoin # as) = one_at_a_time False as"
| "one_at_a_time stopping (Thread timeout # as) = one_at_a_time stopping as"

lemma hb_run_append: "hb_run (as @ bs) h = Option.bind (hb_run as h) (hb_run bs)"
  by (induction as arbitrary: h) (auto split: bind_split)

section \<open>The invariant\<close>

text \<open>Outside \<^verbatim>\<open>stop\<close> there is a living thread exactly while the timer runs.\<close>

definition hb_ok :: "heartbeat \<Rightarrow> bool" where
  "hb_ok h \<longleftrightarrow> \<not> hb_aborted h
     \<and> (hb_running h \<longrightarrow> \<not> hb_stopping h \<and> hb_thread h \<in> {Some AtLoop, Some Waiting, Some Emitting})
     \<and> (\<not> hb_running h \<and> \<not> hb_stopping h \<longrightarrow> \<not> hb_joinable h)"

lemmas hb_defs = hb_start_def hb_thread_run_def hb_stop_request_def hb_stop_join_def hb_joinable_def

lemma hb_ok_init: "hb_ok Heartbeat" "\<not> hb_stopping Heartbeat"
  by (simp_all add: hb_ok_def Heartbeat_def hb_joinable_def)

lemma hb_loop_running: "hb_loop timeout True ph = Some ph' \<Longrightarrow> ph' \<in> {AtLoop, Waiting, Emitting}"
  by (cases ph) (auto split: if_splits)

lemma hb_thread_run_ok:
  assumes "hb_thread_run timeout h = Some h'" "hb_ok h"
  shows "hb_ok h' \<and> hb_stopping h' = hb_stopping h \<and> hb_running h' = hb_running h"
proof -
  from assms(1) obtain ph ph' where ph: "hb_thread h = Some ph" "hb_loop timeout (hb_running h) ph = Some ph'"
    "h' = h\<lparr>hb_thread := Some ph', hb_beats := hb_beats h + (if ph = Emitting then 1 else 0)\<rparr>"
    by (auto simp: hb_thread_run_def split: option.splits)
  have "ph' \<in> {AtLoop, Waiting, Emitting}" if "hb_running h" using hb_loop_running ph(2) that by simp
  moreover have "hb_joinable h" if "hb_loop timeout r ph = Some ph'" for r
    using that ph(1) by (cases ph) (auto simp: hb_joinable_def)
  ultimately show ?thesis using assms(2) ph by (auto simp: hb_ok_def)
qed

lemma hb_act_ok:
  assumes "hb_act a h = Some h'" "hb_ok h" "one_at_a_time (hb_stopping h) (a # as)"
  shows "hb_ok h' \<and> one_at_a_time (hb_stopping h') as"
proof (cases a)
  case (Thread timeout)
  with assms hb_thread_run_ok [of timeout h h'] show ?thesis by simp
qed (use assms in \<open>auto simp: hb_defs hb_ok_def split: if_splits option.splits\<close>)

lemma hb_run_ok:
  "hb_run as h = Some h' \<Longrightarrow> hb_ok h \<Longrightarrow> one_at_a_time (hb_stopping h) as \<Longrightarrow> hb_ok h'"
proof (induction as arbitrary: h)
  case (Cons a as)
  then obtain h1 where "hb_act a h = Some h1" "hb_run as h1 = Some h'" by (auto simp: bind_eq_Some_conv)
  with Cons hb_act_ok show ?case by blast
qed simp

section \<open>Stopping\<close>

lemma hb_idle_act:
  assumes "hb_act a h = Some h'" "a \<noteq> Start" "\<not> hb_running h" "\<not> hb_joinable h"
  shows "\<not> hb_running h' \<and> \<not> hb_joinable h' \<and> hb_beats h' = hb_beats h \<and> hb_aborted h' = hb_aborted h"
proof (cases a)
  case (Thread timeout)
  with assms show ?thesis by (cases "hb_thread h") (auto simp: hb_thread_run_def hb_joinable_def)
qed (use assms in \<open>auto simp: hb_defs split: if_splits option.splits\<close>)

lemma hb_idle_run:
  "hb_run as h = Some h' \<Longrightarrow> Start \<notin> set as \<Longrightarrow> \<not> hb_running h \<Longrightarrow> \<not> hb_joinable h \<Longrightarrow>
     hb_beats h' = hb_beats h \<and> \<not> hb_joinable h' \<and> hb_aborted h' = hb_aborted h"
proof (induction as arbitrary: h)
  case (Cons a as)
  then obtain h1 where h1: "hb_act a h = Some h1" "hb_run as h1 = Some h'" by (auto simp: bind_eq_Some_conv)
  from hb_idle_act [OF h1(1)] Cons.prems
  have "\<not> hb_running h1 \<and> \<not> hb_joinable h1 \<and> hb_beats h1 = hb_beats h \<and> hb_aborted h1 = hb_aborted h" by auto
  with Cons.IH [OF h1(2)] Cons.prems(2) show ?case by auto
qed simp

lemma one_at_a_time_append: "one_at_a_time stopping (as @ bs) \<Longrightarrow> one_at_a_time stopping as"
  by (induction stopping as rule: one_at_a_time.induct) auto

text \<open>
  C36: once \<^verbatim>\<open>stop\<close> has returned, no signal is emitted and no slot is running until the timer is started
  again, wherever its thread was when it was told to stop, and no thread object has been destroyed
  before it was joined. This holds for clients that call the timer one after the other.
\<close>

theorem heartbeat_silent_after_stop:
  assumes "one_at_a_time False (as @ [StopJoin])" "hb_run (as @ [StopJoin]) Heartbeat = Some h"
    and "Start \<notin> set bs" "hb_run bs h = Some h'"
  shows "hb_beats h' = hb_beats h \<and> \<not> hb_joinable h' \<and> \<not> hb_aborted h'"
proof -
  from assms(2) obtain h0 where h0: "hb_run as Heartbeat = Some h0" "hb_stopping h0" "hb_stop_join h0 = Some h"
    by (auto simp: hb_run_append bind_eq_Some_conv split: if_splits)
  have "hb_ok h0"
    using hb_run_ok [OF h0(1) hb_ok_init(1)] one_at_a_time_append [OF assms(1)] by (simp add: hb_ok_init)
  with h0 have "\<not> hb_running h" "\<not> hb_joinable h" "\<not> hb_aborted h"
    by (auto simp: hb_ok_def hb_stop_join_def hb_joinable_def split: if_splits)
  with hb_idle_run [OF assms(4,3)] show ?thesis by simp
qed

theorem heartbeat_silent_after_stop_witness:
  "\<exists>h'. hb_run [Start, Thread False, Thread True, StopRequest, Thread False, Thread False, StopJoin, StopRequest] Heartbeat = Some h'
     \<and> hb_beats h' = 1 \<and> \<not> hb_joinable h'"
proof -
  let ?as = "[Start, Thread False, Thread True, StopRequest, Thread False, Thread False]"
  have h: "\<exists>h. hb_run (?as @ [StopJoin]) Heartbeat = Some h \<and> hb_beats h = 1"
    by (simp add: Heartbeat_def hb_start_def hb_thread_run_def hb_stop_request_def hb_stop_join_def hb_joinable_def)
  then obtain h where h: "hb_run (?as @ [StopJoin]) Heartbeat = Some h" "hb_beats h = 1" by blast
  have "hb_run [StopRequest] h = Some (hb_stop_request h)" by simp
  from heartbeat_silent_after_stop [OF _ h(1) _ this] h
  show ?thesis using hb_run_append [of "?as @ [StopJoin]" "[StopRequest]" Heartbeat] by simp
qed

text \<open>How many actions the thread still takes once it has been told to stop.\<close>

fun hb_left :: "hb_phase option \<Rightarrow> nat" where
  "hb_left (Some Emitting) = 2"
| "hb_left (Some AtLoop) = 1"
| "hb_left (Some Waiting) = 1"
| "hb_left _ = 0"

lemma hb_stopping_threads:
  "hb_run (map Thread ts) h = Some h' \<Longrightarrow> \<not> hb_running h \<Longrightarrow>
     length ts + hb_left (hb_thread h') \<le> hb_left (hb_thread h) \<and> \<not> hb_running h' \<and> hb_stopping h' = hb_stopping h"
proof (induction ts arbitrary: h)
  case (Cons t ts)
  then obtain ph ph' h1 where ph: "hb_thread h = Some ph" "hb_loop t False ph = Some ph'" "hb_run (map Thread ts) h1 = Some h'"
    "h1 = h\<lparr>hb_thread := Some ph', hb_beats := hb_beats h + (if ph = Emitting then 1 else 0)\<rparr>"
    by (auto simp: hb_thread_run_def bind_eq_Some_conv split: option.splits)
  from ph(2) have "Suc (hb_left (Some ph')) \<le> hb_left (Some ph)" by (cases ph) auto
  with Cons.IH [OF ph(3)] Cons.prems(2) ph(1,4) show ?case by simp
qed simp

text \<open>
  \<^verbatim>\<open>stop\<close> always returns, provided that the slots do: once it has asked the thread to end, the thread
  takes at most two more actions, and as long as the thread cannot be joined it can go on; after the
  join there is no thread left.
\<close>

theorem heartbeat_stop_returns:
  assumes "one_at_a_time False as" "hb_run as Heartbeat = Some h" "hb_stopping h" "hb_run (map Thread ts) h = Some h1"
  shows "length ts \<le> 2
     \<and> ((\<exists>t h2. hb_act (Thread t) h1 = Some h2)
        \<or> (\<exists>h2. hb_act StopJoin h1 = Some h2 \<and> \<not> hb_stopping h2 \<and> \<not> hb_running h2 \<and> \<not> hb_joinable h2))"
proof -
  have "hb_ok h" using hb_run_ok [OF assms(2) hb_ok_init(1)] assms(1) by (simp add: hb_ok_init)
  with assms(3) have run: "\<not> hb_running h" by (auto simp: hb_ok_def)
  note left = hb_stopping_threads [OF assms(4) run]
  have "hb_left (hb_thread h) \<le> 2" by (cases "hb_thread h" rule: hb_left.cases) auto
  with left have "length ts \<le> 2" by linarith
  moreover have "(\<exists>t h2. hb_act (Thread t) h1 = Some h2)
        \<or> (\<exists>h2. hb_act StopJoin h1 = Some h2 \<and> \<not> hb_stopping h2 \<and> \<not> hb_running h2 \<and> \<not> hb_joinable h2)"
    using left assms(3)
    by (cases "hb_thread h1" rule: hb_left.cases) (auto simp: hb_thread_run_def hb_stop_join_def hb_joinable_def)
  ultimately show ?thesis ..
qed

theorem heartbeat_stop_returns_witness:
  "\<exists>h1. hb_run [Start, Thread False, Thread True, StopRequest, Thread False, Thread False] Heartbeat = Some h1
     \<and> (\<exists>h2. hb_act StopJoin h1 = Some h2 \<and> \<not> hb_joinable h2)"
proof -
  let ?as = "[Start, Thread False, Thread True, StopRequest]" and ?ts = "[False, False]"
  have "\<exists>h. hb_run ?as Heartbeat = Some h \<and> hb_stopping h \<and> hb_thread h = Some Emitting \<and> \<not> hb_running h"
    by (simp add: Heartbeat_def hb_start_def hb_thread_run_def hb_stop_request_def)
  then obtain h where h: "hb_run ?as Heartbeat = Some h" "hb_stopping h" "hb_thread h = Some Emitting" "\<not> hb_running h" by blast
  then obtain h1 where h1: "hb_run (map Thread ?ts) h = Some h1" "hb_thread h1 = Some Finished"
    by (simp add: hb_thread_run_def)
  have "\<nexists>t h2. hb_act (Thread t) h1 = Some h2" using h1(2) by (simp add: hb_thread_run_def)
  with heartbeat_stop_returns [OF _ h(1,2) h1(1)] have "\<exists>h2. hb_act StopJoin h1 = Some h2 \<and> \<not> hb_joinable h2" by (force split: if_splits)
  moreover have "hb_run (?as @ map Thread ?ts) Heartbeat = Some h1" by (simp only: hb_run_append h(1) h1(1) bind.simps)
  ultimately show ?thesis by (simp only: append.simps list.map) blast
qed

text \<open>
  Two clients at the same time end the program: a \<^verbatim>\<open>start\<close> between the two halves of a \<^verbatim>\<open>stop\<close> finds
  \<^verbatim>\<open>running_\<close> false and replaces a thread object that has not been joined.
\<close>

lemma start_during_stop_aborts:
  "map_option hb_aborted (hb_run [Start, StopRequest, Start] Heartbeat) = Some True"
  by (simp add: Heartbeat_def hb_start_def hb_stop_request_def hb_joinable_def)

end
