(* ===== verification/Nmos_Node.thy ===== *)
theory Nmos_Node
  imports Rest_Http Heartbeat "HOL-Library.Multiset"
begin

text \<open>
  \<^verbatim>\<open>NmosNode.cpp\<close>: a node looks for registries on the network, chooses one, registers itself and its
  device there, and then reports with every beat of its timer. The discovery library (avahi), the
  network interfaces, the HTTP client (curl), the clock, the random numbers, the environment and the
  json serializer are arguments: what the callbacks of the discovery are called with is a list of
  events.
\<close>

section \<open>Text\<close>

text \<open>A C string ends at its first zero; \<^verbatim>\<open>fmt\<close> writes into a buffer of 4096 bytes.\<close>

definition c_str :: "string \<Rightarrow> string" where
  "c_str = takeWhile (\<lambda>c. c \<noteq> CHR 0x00)"

definition fmt :: "string \<Rightarrow> string" where
  "fmt text = take 4095 (c_str text)"

definition dec_of_int :: "int \<Rightarrow> string" where
  "dec_of_int i = (if i < 0 then CHR ''-'' # dec_of_nat (nat (- i)) else dec_of_nat (nat i))"

definition hex_digit :: "nat \<Rightarrow> char" where
  "hex_digit d = (if d < 10 then digit_char d else char_of (87 + d))"

fun hex_of_nat :: "nat \<Rightarrow> string" where
  "hex_of_nat n = (if n < 16 then [hex_digit n] else hex_of_nat (n div 16) @ [hex_digit (n mod 16)])"

declare hex_of_nat.simps [simp del]

definition zero_pad :: "nat \<Rightarrow> string \<Rightarrow> string" where
  "zero_pad w s = replicate (w - length s) CHR ''0'' @ s"

text \<open>The clock counts nanoseconds from the epoch.\<close>

definition now_is04_version :: "nat \<Rightarrow> string" where
  "now_is04_version now = fmt (dec_of_nat (now div 10 ^ 9) @ '':'' @ zero_pad 9 (dec_of_nat (now mod 10 ^ 9)))"

text \<open>
  \<open>draw i\<close> is the number that the i-th call of \<^verbatim>\<open>r32\<close> in the text of the function gets; in which order
  the calls are made is left to the compiler.
\<close>

definition random_uuid :: "(nat \<Rightarrow> u32) \<Rightarrow> string" where
  "random_uuid draw =
     fmt (zero_pad 8 (hex_of_nat (unat (draw 0))) @ ''-''
        @ zero_pad 4 (hex_of_nat (unat (draw 1 AND 0xFFFF))) @ ''-''
        @ zero_pad 4 (hex_of_nat (unat (draw 2 AND 0x0FFF OR 0x4000))) @ ''-''
        @ zero_pad 4 (hex_of_nat (unat (draw 3 AND 0x3FFF OR 0x8000))) @ ''-''
        @ zero_pad 12 (hex_of_nat (unat (push_bit 16 (ucast (draw 4)) OR ucast (draw 5 AND 0xFFFF) :: 64 word))))"

section \<open>Registries\<close>

datatype NodeCode =
    NodeOK | POLL_FAILED | CLIENT_FAILED | REGISTRATION_FAILED | NO_SERVICE_BROWSER | NO_IFACE | NO_CANDIDATES | REGISTRY_NOT_FOUND

record RegistryCandidate =
  rg_name :: string
  rg_host :: string
  rg_addr :: string
  rg_port :: "16 word"
  https :: bool
  priority :: int
  api_versions :: "string list"

definition RegistryCandidate_default :: RegistryCandidate where
  "RegistryCandidate_default =
     \<lparr>rg_name = [], rg_host = [], rg_addr = [], rg_port = 0, https = False, priority = 100, api_versions = []\<rparr>"

function comma_pieces :: "string \<Rightarrow> string list" where
  "comma_pieces val =
     (if val = [] then []
      else
        (let piece = takeWhile (\<lambda>c. c \<noteq> CHR '','') val in
         piece # (if length piece = length val then [] else comma_pieces (drop (Suc (length piece)) val))))"
  by pat_completeness auto
termination by (relation "measure length") auto

declare comma_pieces.simps [simp del]

text \<open>A text record is a list of entries; an entry the library cannot read as a pair is None.\<close>

fun txt_entry :: "(string \<times> string option) option \<Rightarrow> RegistryCandidate \<Rightarrow> RegistryCandidate" where
  "txt_entry None c = c"
| "txt_entry (Some (key, v)) c =
     (let val = (case v of None \<Rightarrow> [] | Some s \<Rightarrow> s) in
      if key = ''api_proto'' then c\<lparr>https := (val = ''https'')\<rparr>
      else if key = ''pri'' then (case stoi val of Ret (n, _) \<Rightarrow> c\<lparr>priority := n\<rparr> | _ \<Rightarrow> c)
      else if key = ''api_ver'' then c\<lparr>api_versions := api_versions c @ comma_pieces val\<rparr>
      else c)"

definition parse_txt_into_candidate :: "(string \<times> string option) option list \<Rightarrow> RegistryCandidate \<Rightarrow> RegistryCandidate" where
  "parse_txt_into_candidate txt c = fold txt_entry txt c"

record RegistrySelection =
  base :: string
  node_ver :: string

definition registry_base :: "string \<Rightarrow> RegistryCandidate \<Rightarrow> string" where
  "registry_base ver c =
     fmt ((if https c then ''https'' else ''http'') @ ''://'' @ c_str (rg_host c) @ '':'' @ dec_of_nat (unat (rg_port c))
       @ ''/x-nmos/registration/'' @ c_str ver)"

text \<open>
  \<^verbatim>\<open>std::sort\<close> may order registries of the same priority in any way: \<open>sorter\<close> is what it does. The
  candidates stay sorted.
\<close>

definition choose_registry_and_build_base ::
  "(RegistryCandidate list \<Rightarrow> RegistryCandidate list) \<Rightarrow> string \<Rightarrow> RegistryCandidate list
    \<Rightarrow> RegistryCandidate list \<times> RegistrySelection option" where
  "choose_registry_and_build_base sorter ver cands =
     (if cands = [] then (cands, None)
      else
        (let cands' = sorter cands in
         (cands', map_option (\<lambda>c. \<lparr>base = registry_base ver c, node_ver = ver\<rparr>)
                    (find (\<lambda>c. ver \<in> set (api_versions c)) cands'))))"

section \<open>The node\<close>

text \<open>Json values; the serializer orders the keys of an object.\<close>

datatype pjson = PStr string | PNum int | PBool bool | PObj "(string \<times> pjson) list" | PArr "pjson list"

record http_request =
  hr_url :: string
  hr_headers :: "string list"
  hr_body :: string

datatype curl_result = NoHandle | CurlError | Answered int

text \<open>An interface of the computer; \<open>if_mac\<close> is None when the request for the address fails.\<close>

record net_if =
  if_name :: string
  if_up :: bool
  if_ipv4 :: "string option"
  if_mac :: "(nat \<Rightarrow> 8 word) option"

datatype avahi_event =
    ClientChanged bool
  | BrowserNew string bool
  | BrowserFailure
  | BrowserOther
  | ResolverFound string string string "16 word" "(string \<times> string option) option list"
  | ResolverFailed

record nmos_env =
  poll_ok :: bool
  client_ok :: bool
  client_events :: "bool list"
  browser_ok :: bool
  events :: "avahi_event list"
  sorter :: "RegistryCandidate list \<Rightarrow> RegistryCandidate list"
  socket_ok :: bool
  interfaces :: "net_if list option"
  draws :: "nat \<Rightarrow> nat \<Rightarrow> u32"
  clock :: "nat \<Rightarrow> nat"
  bearer_env :: "string option"
  curl :: "http_request list \<Rightarrow> http_request \<Rightarrow> curl_result"
  serialize :: "pjson \<Rightarrow> string"

text \<open>
  \<open>simple_poll\<close>, \<open>client\<close> and \<open>sb\<close> say which objects of the discovery library exist, and \<open>poll_quit\<close>
  that its loop was told to quit. \<open>posts\<close> records the requests that were sent and \<open>open_fds\<close> the sockets that \<^verbatim>\<open>get_node_iface\<close> has left
  open; \<open>beat_urls\<close> are the slots connected to the heartbeat.
\<close>

record nmos_node =
  device_name :: string
  node_name :: string
  device_desc :: string
  model_name :: string
  CLIENT_FAILURE :: bool
  simple_poll :: bool
  client :: bool
  sb :: bool
  poll_quit :: bool
  candidates :: "RegistryCandidate list"
  iface :: string
  mac :: string
  ipv4 :: string
  chassis_id :: string
  node_id :: string
  dev_id :: string
  bearer_token :: string
  heartbeat_of :: heartbeat
  beat_urls :: "string list"
  posts :: "http_request list"
  open_fds :: nat

definition NmosNode :: "string \<Rightarrow> string \<Rightarrow> string \<Rightarrow> string \<Rightarrow> nmos_node" where
  "NmosNode dname nname desc model =
     \<lparr>device_name = dname, node_name = nname, device_desc = desc, model_name = model, CLIENT_FAILURE = False,
      simple_poll = False, client = False, sb = False, poll_quit = False, candidates = [], iface = ''eth0'', mac = ''00-00-00-00-00-00'', ipv4 = ''127.0.0.1'',
      chassis_id = ''00-00-00-00-00-00'', node_id = [], dev_id = [], bearer_token = [], heartbeat_of = Heartbeat,
      beat_urls = [], posts = [], open_fds = 0\<rparr>"

subsection \<open>Discovery\<close>

definition addCandidate :: "RegistryCandidate \<Rightarrow> nmos_node \<Rightarrow> nmos_node" where
  "addCandidate c n = n\<lparr>candidates := candidates n @ [c]\<rparr>"

definition resolve_cb :: "string \<Rightarrow> string \<Rightarrow> string \<Rightarrow> 16 word \<Rightarrow> (string \<times> string option) option list \<Rightarrow> nmos_node \<Rightarrow> nmos_node" where
  "resolve_cb name host addr port txt n =
     addCandidate (parse_txt_into_candidate txt
       (RegistryCandidate_default\<lparr>rg_name := name, rg_host := host, rg_addr := addr, rg_port := port\<rparr>)) n"

definition browse_cb :: "avahi_event \<Rightarrow> nmos_node \<Rightarrow> nmos_node" where
  "browse_cb ev n = (if ev = BrowserFailure then n\<lparr>poll_quit := True\<rparr> else n)"

definition client_cb :: "bool \<Rightarrow> nmos_node \<Rightarrow> nmos_node" where
  "client_cb failure n = (if failure then n\<lparr>poll_quit := True, CLIENT_FAILURE := True\<rparr> else n)"

fun avahi_callback :: "avahi_event \<Rightarrow> nmos_node \<Rightarrow> nmos_node" where
  "avahi_callback (ClientChanged failure) n = client_cb failure n"
| "avahi_callback (ResolverFound name host addr port txt) n = resolve_cb name host addr port txt n"
| "avahi_callback ResolverFailed n = n"
| "avahi_callback ev n = browse_cb ev n"

text \<open>The loop of the library hands events out until it is told to quit.\<close>

fun runDiscovery :: "avahi_event list \<Rightarrow> nmos_node \<Rightarrow> nmos_node" where
  "runDiscovery [] n = n"
| "runDiscovery (ev # evs) n = (if poll_quit n then n else runDiscovery evs (avahi_callback ev n))"

subsection \<open>The interface\<close>

definition before_last_dot :: "string \<Rightarrow> string" where
  "before_last_dot s =
     (if CHR ''.'' \<in> set s then rev (drop 1 (dropWhile (\<lambda>c. c \<noteq> CHR ''.'') (rev s))) else s)"

definition mac_text :: "(nat \<Rightarrow> 8 word) \<Rightarrow> string" where
  "mac_text hw = fmt (concat (map (\<lambda>i. (if i = 0 then [] else ''-'') @ zero_pad 2 (hex_of_nat (unat (hw i)))) [0..<6]))"

definition if_matches :: "string \<Rightarrow> net_if \<Rightarrow> bool" where
  "if_matches subnet ifa \<longleftrightarrow>
     if_up ifa \<and> (case if_ipv4 ifa of None \<Rightarrow> False | Some host \<Rightarrow> subnet = before_last_dot host)"

definition get_node_iface :: "nmos_env \<Rightarrow> string \<Rightarrow> nmos_node \<Rightarrow> nmos_node \<times> bool" where
  "get_node_iface env reg_addr n =
     (if \<not> socket_ok env then (n, False)
      else
        (case interfaces env of
           None \<Rightarrow> (n\<lparr>open_fds := Suc (open_fds n)\<rparr>, False)
         | Some ifs \<Rightarrow>
             (case find (if_matches (before_last_dot reg_addr)) ifs of
                None \<Rightarrow> (n\<lparr>open_fds := Suc (open_fds n)\<rparr>, False)
              | Some ifa \<Rightarrow>
                  (n\<lparr>ipv4 := the (if_ipv4 ifa), iface := if_name ifa,
                     mac := (case if_mac ifa of None \<Rightarrow> [] | Some hw \<Rightarrow> mac_text hw)\<rparr>, True))))"

subsection \<open>Registration\<close>

text \<open>The resources; \<open>now\<close> is the time at which the version is taken.\<close>

definition make_node_json :: "nmos_env \<Rightarrow> nat \<Rightarrow> int \<Rightarrow> nmos_node \<Rightarrow> string" where
  "make_node_json env now node_port n = serialize env (PObj [
     (''type'', PStr ''node''),
     (''data'', PObj [
        (''id'', PStr (node_id n)),
        (''version'', PStr (now_is04_version now)),
        (''label'', PStr (node_name n)),
        (''description'', PStr (device_desc n)),
        (''href'', PStr (fmt (''http://'' @ c_str (ipv4 n) @ '':'' @ dec_of_int node_port @ ''/x-nmos/node/v1.3/''))),
        (''caps'', PObj []),
        (''tags'', PObj []),
        (''services'', PArr [PObj [
           (''href'', PStr (fmt (''http://'' @ c_str (ipv4 n) @ '':'' @ dec_of_int node_port @ ''/x-catena/status/''))),
           (''type'', PStr ''urn:x-catena:service:status'')]]),
        (''api'', PObj [
           (''versions'', PArr [PStr ''v1.3'']),
           (''endpoints'', PArr [PObj [
              (''host'', PStr (ipv4 n)), (''port'', PNum node_port), (''protocol'', PStr ''http''), (''authorization'', PBool False)]])]),
        (''clocks'', PArr [PObj [(''name'', PStr ''clk0''), (''ref_type'', PStr ''internal'')]]),
        (''interfaces'', PArr [PObj [
           (''name'', PStr (iface n)), (''chassis_id'', PStr (chassis_id n)), (''port_id'', PStr (mac n))]])])])"

definition make_device_json :: "nmos_env \<Rightarrow> nat \<Rightarrow> int \<Rightarrow> nmos_node \<Rightarrow> string" where
  "make_device_json env now node_port n = serialize env (PObj [
     (''type'', PStr ''device''),
     (''data'', PObj [
        (''id'', PStr (dev_id n)),
        (''version'', PStr (now_is04_version now)),
        (''node_id'', PStr (node_id n)),
        (''label'', PStr (device_name n)),
        (''description'', PStr (device_desc n)),
        (''type'', PStr ''urn:x-nmos:device:generic''),
        (''senders'', PArr []),
        (''receivers'', PArr []),
        (''controls'', PArr [PObj [
           (''type'', PStr ''urn:x-nmos:control:sr-ctrl/v1.1''),
           (''href'', PStr (fmt (''http://'' @ c_str (ipv4 n) @ '':'' @ dec_of_int node_port @ ''/x-catena/connection/v1.1/'')))]]),
        (''tags'', PObj [
           (''vendor'', PArr [PStr ''RossVideo'']),
           (''model_name'', PArr [PStr (model_name n)]),
           (''device_name'', PArr [PStr (device_name n)])])])])"

definition post_request :: "string \<Rightarrow> string \<Rightarrow> string \<Rightarrow> http_request" where
  "post_request url jsonObj bearer =
     \<lparr>hr_url = c_str url,
      hr_headers = ''Content-Type: application/json''
        # (if bearer \<noteq> [] then [c_str (''Authorization: Bearer '' @ bearer)] else []),
      hr_body = jsonObj\<rparr>"

definition accepted :: "curl_result \<Rightarrow> bool" where
  "accepted r \<longleftrightarrow> (case r of Answered code \<Rightarrow> code = 200 \<or> code = 201 \<or> code = 202 \<or> code = 204 | _ \<Rightarrow> False)"

definition http_post_json :: "nmos_env \<Rightarrow> string \<Rightarrow> string \<Rightarrow> string \<Rightarrow> nmos_node \<Rightarrow> nmos_node \<times> bool" where
  "http_post_json env url jsonObj bearer n =
     (let req = post_request url jsonObj bearer; r = curl env (posts n) req in
      (if r = NoHandle then n else n\<lparr>posts := posts n @ [req]\<rparr>, accepted r))"

text \<open>Both texts are made before anything is sent.\<close>

definition sendRequests :: "nmos_env \<Rightarrow> string \<Rightarrow> int \<Rightarrow> nmos_node \<Rightarrow> nmos_node \<times> bool" where
  "sendRequests env url node_port n =
     (let node_json = make_node_json env (clock env 0) node_port n;
          dev_json = make_device_json env (clock env 1) node_port n;
          n1 = n\<lparr>bearer_token := (case bearer_env env of None \<Rightarrow> [] | Some b \<Rightarrow> b)\<rparr>;
          (n2, ok) = http_post_json env url node_json (bearer_token n1) n1 in
      if \<not> ok then (n2, False) else http_post_json env url dev_json (bearer_token n2) n2)"

definition startHeartbeat :: "string \<Rightarrow> nmos_node \<Rightarrow> nmos_node" where
  "startHeartbeat bs n =
     n\<lparr>beat_urls := beat_urls n @ [bs @ ''/health/nodes/'' @ node_id n], heartbeat_of := hb_start (heartbeat_of n)\<rparr>"

text \<open>What the slots do when the timer emits.\<close>

definition nmos_beat :: "nmos_env \<Rightarrow> nmos_node \<Rightarrow> nmos_node" where
  "nmos_beat env n = fold (\<lambda>url m. fst (http_post_json env url ''{}'' (bearer_token m) m)) (beat_urls n) n"

definition nmos_init :: "nmos_env \<Rightarrow> int \<Rightarrow> nmos_node \<Rightarrow> nmos_node \<times> NodeCode" where
  "nmos_init env port n =
     (if \<not> poll_ok env then (n\<lparr>simple_poll := False\<rparr>, POLL_FAILED)
      else
        (let n1 = fold client_cb (client_events env) (n\<lparr>simple_poll := True, poll_quit := False\<rparr>) in
         if \<not> client_ok env then (n1\<lparr>client := False\<rparr>, CLIENT_FAILED)
         else if CLIENT_FAILURE n1 then (n1\<lparr>client := True\<rparr>, CLIENT_FAILED)
         else if \<not> browser_ok env then (n1\<lparr>client := True, sb := False\<rparr>, NO_SERVICE_BROWSER)
         else
           (let n2 = runDiscovery (events env) (n1\<lparr>client := True, sb := True\<rparr>);
                (cands, sel) = choose_registry_and_build_base (sorter env) ''v1.3'' (candidates n2);
                n3 = n2\<lparr>candidates := cands\<rparr> in
            case sel of
              None \<Rightarrow> (n3, REGISTRY_NOT_FOUND)
            | Some rs \<Rightarrow>
                (let (n4, found) = get_node_iface env (rg_addr (hd cands)) n3 in
                 if \<not> found then (n4, NO_IFACE)
                 else
                   (let n5 = n4\<lparr>node_id := random_uuid (draws env 0), dev_id := random_uuid (draws env 1)\<rparr>;
                        (n6, sent) = sendRequests env (base rs @ ''/resource'') port n5 in
                    if \<not> sent then (n6, REGISTRATION_FAILED)
                    else (startHeartbeat (base rs) n6, NodeOK))))))"

text \<open>The destructor up to the point where it waits for the thread of the timer.\<close>

definition nmos_destroy :: "nmos_node \<Rightarrow> nmos_node" where
  "nmos_destroy n = n\<lparr>sb := False, client := False, simple_poll := False, heartbeat_of := hb_stop_request (heartbeat_of n)\<rparr>"

section \<open>Identifiers and versions\<close>

text \<open>The lowest digits of a number, the lowest last.\<close>

fun hex_low :: "nat \<Rightarrow> nat \<Rightarrow> string" where
  "hex_low 0 n = []"
| "hex_low (Suc k) n = hex_low k (n div 16) @ [hex_digit (n mod 16)]"

lemma hex_low_length [simp]: "length (hex_low k n) = k"
  by (induction k arbitrary: n) simp_all

lemma hex_digit_zero [simp]: "hex_digit 0 = CHR ''0''"
  by code_simp

lemma hex_low_zero: "hex_low k 0 = replicate k CHR ''0''"
  by (induction k) (simp_all add: replicate_append_same)

lemma hex_of_nat_short: "n < 16 ^ Suc k \<Longrightarrow> length (hex_of_nat n) \<le> Suc k"
proof (induction k arbitrary: n)
  case 0
  then show ?case by (subst hex_of_nat.simps) simp
next
  case (Suc k)
  then have "n div 16 < 16 ^ Suc k" by (simp add: less_mult_imp_div_less mult.commute)
  with Suc.IH [of "n div 16"] show ?case by (subst hex_of_nat.simps) simp
qed

lemma zero_pad_hex: "n < 16 ^ Suc k \<Longrightarrow> zero_pad (Suc k) (hex_of_nat n) = hex_low (Suc k) n"
proof (induction k arbitrary: n)
  case 0
  then show ?case by (subst hex_of_nat.simps) (simp add: zero_pad_def)
next
  case (Suc k)
  show ?case
  proof (cases "n < 16")
    case True
    then show ?thesis by (subst hex_of_nat.simps) (simp add: zero_pad_def hex_low_zero)
  next
    case False
    from Suc.prems have "n div 16 < 16 ^ Suc k" by (simp add: less_mult_imp_div_less mult.commute)
    from Suc.IH [OF this] False show ?thesis by (subst hex_of_nat.simps) (simp add: zero_pad_def)
  qed
qed

lemma zero_pad_low: "0 < k \<Longrightarrow> n < 16 ^ k \<Longrightarrow> zero_pad k (hex_of_nat n) = hex_low k n"
  using zero_pad_hex by (cases k) blast+

definition is_hex :: "char \<Rightarrow> bool" where
  "is_hex c \<longleftrightarrow> (\<exists>d < 16. c = hex_digit d)"

lemma hex_low_hex: "list_all is_hex (hex_low k n)"
  by (induction k arbitrary: n) (simp_all add: is_hex_def, metis mod_less_divisor zero_less_numeral)

lemma hex_low_Cons: "hex_low (Suc k) n = hex_digit (n div 16 ^ k mod 16) # hex_low k n"
  by (induction k arbitrary: n) (simp_all add: div_mult2_eq)

lemma hex_low_4: "hex_low 4 n = hex_digit (n div 16 ^ 3 mod 16) # hex_low 3 n"
proof -
  have "(4 :: nat) = Suc 3" by simp
  then show ?thesis by (simp only: hex_low_Cons)
qed

lemma hex_not_zero: "is_hex c \<Longrightarrow> c \<noteq> CHR 0x00"
proof -
  have "list_all (\<lambda>d. hex_digit d \<noteq> CHR 0x00) [0..<16]" by code_simp
  then show "is_hex c \<Longrightarrow> c \<noteq> CHR 0x00" by (auto simp: is_hex_def list_all_iff)
qed

lemma hex_variant: "hex_digit 4 = CHR ''4''" "hex_digit 8 = CHR ''8''" "hex_digit 9 = CHR ''9''" "hex_digit 10 = CHR ''a''" "hex_digit 11 = CHR ''b''"
  by code_simp+

lemma fmt_plain: "length s < 4096 \<Longrightarrow> CHR 0x00 \<notin> set s \<Longrightarrow> fmt s = s"
  unfolding fmt_def c_str_def by (subst takeWhile_eq_all_conv [THEN iffD2]) auto

lemma unat_div: "unat w div 2 ^ k = unat (drop_bit k w)"
  by (subst unat_drop_bit_eq) (simp only: drop_bit_eq_div)

text \<open>
  The identifiers are uuids of version 4: five groups of hexadecimal digits, of which the third starts
  with the version and the fourth with the variant.
\<close>

theorem random_uuid_version4:
  "\<exists>a b c d e v. random_uuid draw = a @ ''-'' @ b @ ''-4'' @ c @ ''-'' @ v # d @ ''-'' @ e
     \<and> map length [a, b, c, d, e] = [8, 4, 3, 3, 12] \<and> list_all is_hex (a @ b @ c @ v # d @ e) \<and> v \<in> set ''89ab''"
proof -
  define n1 n2 n3 n4 where n: "n1 = unat (draw 1 AND 0xFFFF)" "n2 = unat (draw 2 AND 0x0FFF OR 0x4000)" "n3 = unat (draw 3 AND 0x3FFF OR 0x8000)"
    "n4 = unat (push_bit 16 (ucast (draw 4)) OR ucast (draw 5 AND 0xFFFF) :: 64 word)"
  have masks: "drop_bit 16 (0xFFFF :: u32) = 0" "drop_bit 12 (0x0FFF :: u32) = 0" "drop_bit 12 (0x4000 :: u32) = 4"
    "drop_bit 14 (0x3FFF :: u32) = 0" "drop_bit 14 (0x8000 :: u32) = 2" by simp_all
  have div: "n1 div 2 ^ 16 = 0" "n2 div 2 ^ 12 = 4" "n3 div 2 ^ 14 = 2"
    unfolding n unat_div by (simp_all only: drop_bit_and drop_bit_or masks) simp_all
  have "drop_bit 48 (push_bit 16 (ucast x) :: 64 word) = 0" "drop_bit 48 (ucast x :: 64 word) = 0" for x :: u32
    by (rule bit_word_eqI; auto simp: bit_simps dest: bit_imp_le_length)+
  then have "n4 div 2 ^ 48 = 0" unfolding n unat_div by (simp add: drop_bit_or)
  with div have small: "n1 < 16 ^ 4" "n2 < 16 ^ 4" "n3 < 16 ^ 4" "n4 < 16 ^ 12" "unat (draw 0) < 16 ^ 8"
    using unsigned_less [of "draw 0"] by (simp_all add: div_eq_0_iff)
  define v where "v = hex_digit (n3 div 16 ^ 3 mod 16)"
  have "n3 div 16 ^ 3 \<in> {8, 9, 10, 11}" using div(3) by auto
  then have v: "v \<in> set ''89ab''" using hex_variant by (auto simp: v_def)
  have "is_hex v" unfolding v_def is_hex_def by (intro exI [of _ "n3 div 16 ^ 3 mod 16"]) simp
  have "hex_digit (n2 div 16 ^ 3 mod 16) = CHR ''4''" using div(2) hex_variant by simp
  then have pads: "zero_pad 8 (hex_of_nat (unat (draw 0))) = hex_low 8 (unat (draw 0))" "zero_pad 4 (hex_of_nat n1) = hex_low 4 n1"
    "zero_pad 4 (hex_of_nat n2) = CHR ''4'' # hex_low 3 n2" "zero_pad 4 (hex_of_nat n3) = v # hex_low 3 n3"
    "zero_pad 12 (hex_of_nat n4) = hex_low 12 n4"
    using small [THEN zero_pad_low [rotated]] by (simp_all only: zero_less_numeral hex_low_4 v_def)
  let ?s = "hex_low 8 (unat (draw 0)) @ ''-'' @ hex_low 4 n1 @ ''-4'' @ hex_low 3 n2 @ ''-'' @ v # hex_low 3 n3 @ ''-'' @ hex_low 12 n4"
  have hex: "list_all is_hex (hex_low 8 (unat (draw 0)) @ hex_low 4 n1 @ hex_low 3 n2 @ v # hex_low 3 n3 @ hex_low 12 n4)"
    using \<open>is_hex v\<close> by (simp add: hex_low_hex)
  then have "CHR 0x00 \<notin> set ?s" using hex_not_zero by (auto simp: list_all_iff)
  moreover have "random_uuid draw = fmt ?s" by (simp only: random_uuid_def n [symmetric] pads append.simps)
  ultimately have "random_uuid draw = ?s" by (simp add: fmt_plain)
  with hex v show ?thesis by (intro exI conjI) (assumption, simp_all)
qed

text \<open>The list of versions in a text record is read as it was written.\<close>

fun comma_join :: "string list \<Rightarrow> string" where
  "comma_join [] = []"
| "comma_join [v] = v"
| "comma_join (v # w # vs) = v @ '','' @ comma_join (w # vs)"

lemma comma_pieces_join:
  "list_all (\<lambda>v. v \<noteq> [] \<and> CHR '','' \<notin> set v) vs \<Longrightarrow> comma_pieces (comma_join vs) = vs"
proof (induction vs rule: comma_join.induct)
  case 1
  show ?case by (simp add: comma_pieces.simps)
next
  case (2 v)
  then have tw: "takeWhile (\<lambda>c. c \<noteq> CHR '','') v = v" by (auto simp: takeWhile_eq_all_conv)
  show ?case by (subst comma_pieces.simps) (use 2 in \<open>simp add: tw\<close>)
next
  case (3 v w vs)
  then have "\<forall>c \<in> set v. c \<noteq> CHR '',''" by auto
  then have tw: "takeWhile (\<lambda>c. c \<noteq> CHR '','') (v @ CHR '','' # r) = v" for r by (simp add: takeWhile_append2)
  show ?case by (subst comma_pieces.simps) (use 3 in \<open>simp add: tw\<close>)
qed

section \<open>Choosing a registry\<close>

text \<open>What the standard promises of the sort.\<close>

definition sorts_by_priority :: "(RegistryCandidate list \<Rightarrow> RegistryCandidate list) \<Rightarrow> bool" where
  "sorts_by_priority f \<longleftrightarrow> (\<forall>cs. mset (f cs) = mset cs \<and> sorted (map priority (f cs)))"

definition best_registry :: "string \<Rightarrow> RegistryCandidate list \<Rightarrow> RegistryCandidate \<Rightarrow> bool" where
  "best_registry ver cands c \<longleftrightarrow> c \<in> set cands \<and> ver \<in> set (api_versions c)
     \<and> (\<forall>d \<in> set cands. ver \<in> set (api_versions d) \<longrightarrow> priority c \<le> priority d)"

lemma find_sorted_least:
  "sorted (map f xs) \<Longrightarrow> find P xs = Some x \<Longrightarrow> x \<in> set xs \<and> P x \<and> (\<forall>y \<in> set xs. P y \<longrightarrow> f x \<le> f y)"
  by (induction xs) (auto split: if_splits)

lemma choose_sorted:
  assumes "sorts_by_priority f" "choose_registry_and_build_base f ver cands = (cands', sel)"
  shows "set cands' = set cands" "sel = map_option (\<lambda>c. \<lparr>base = registry_base ver c, node_ver = ver\<rparr>) (find (\<lambda>c. ver \<in> set (api_versions c)) cands')"
    and "sorted (map priority cands')"
  using assms by (auto simp: choose_registry_and_build_base_def sorts_by_priority_def Let_def split: if_splits dest: mset_eq_setD)

text \<open>
  The registry that is chosen is one of those discovered, speaks the version asked for, and has the
  best priority of all that do; none is chosen only when none speaks it.
\<close>

theorem choose_registry_best:
  assumes "sorts_by_priority f" "choose_registry_and_build_base f ver cands = (cands', sel)"
  shows "set cands' = set cands \<and> (sel = None \<longleftrightarrow> (\<forall>c \<in> set cands. ver \<notin> set (api_versions c)))
     \<and> (\<forall>s. sel = Some s \<longrightarrow> (\<exists>c. best_registry ver cands c \<and> s = \<lparr>base = registry_base ver c, node_ver = ver\<rparr>))"
  using choose_sorted [OF assms] find_sorted_least [of priority cands' "\<lambda>c. ver \<in> set (api_versions c)"]
  by (auto simp: best_registry_def find_None_iff)

section \<open>Registering\<close>

lemma callbacks_keep [simp]:
  "heartbeat_of (client_cb f n) = heartbeat_of n" "beat_urls (client_cb f n) = beat_urls n" "posts (client_cb f n) = posts n"
  "heartbeat_of (avahi_callback ev n) = heartbeat_of n" "beat_urls (avahi_callback ev n) = beat_urls n" "posts (avahi_callback ev n) = posts n"
  by (simp_all add: client_cb_def) (cases ev; simp add: client_cb_def browse_cb_def resolve_cb_def addCandidate_def)+

lemma client_events_keep [simp]:
  "heartbeat_of (fold client_cb fs n) = heartbeat_of n" "beat_urls (fold client_cb fs n) = beat_urls n" "posts (fold client_cb fs n) = posts n"
  by (induction fs arbitrary: n) simp_all

lemma discovery_keeps [simp]:
  "heartbeat_of (runDiscovery evs n) = heartbeat_of n" "beat_urls (runDiscovery evs n) = beat_urls n" "posts (runDiscovery evs n) = posts n"
  by (induction evs n rule: runDiscovery.induct) simp_all

lemma get_node_iface_keeps:
  assumes "get_node_iface env a n = (n', ok)"
  shows "heartbeat_of n' = heartbeat_of n" "beat_urls n' = beat_urls n" "posts n' = posts n" "candidates n' = candidates n"
  using assms by (auto simp: get_node_iface_def split: if_splits option.splits)

lemma http_post_json_posts:
  assumes "http_post_json env url j b n = (n', ok)"
  shows "\<exists>p. n' = n\<lparr>posts := p\<rparr> \<and> (ok \<longrightarrow> p = posts n @ [post_request url j b] \<and> accepted (curl env (posts n) (post_request url j b)))"
proof (cases "curl env (posts n) (post_request url j b) = NoHandle")
  case True
  with assms have "n' = n\<lparr>posts := posts n\<rparr>" "\<not> ok" by (simp_all add: http_post_json_def accepted_def Let_def)
  then show ?thesis by blast
next
  case False
  with assms show ?thesis by (simp add: http_post_json_def Let_def) blast
qed

text \<open>The two requests of a registration, in their order.\<close>

definition registration :: "nmos_env \<Rightarrow> string \<Rightarrow> int \<Rightarrow> nmos_node \<Rightarrow> http_request list" where
  "registration env bs port n =
     [post_request (bs @ ''/resource'') (make_node_json env (clock env 0) port n) (bearer_token n),
      post_request (bs @ ''/resource'') (make_device_json env (clock env 1) port n) (bearer_token n)]"

definition accepted_from :: "nmos_env \<Rightarrow> http_request list \<Rightarrow> http_request list \<Rightarrow> bool" where
  "accepted_from env sent reqs \<longleftrightarrow> (\<forall>i < length reqs. accepted (curl env (sent @ take i reqs) (reqs ! i)))"

lemma make_json_cong [simp]:
  "make_node_json env now port (n\<lparr>posts := p, bearer_token := b\<rparr>) = make_node_json env now port n"
  "make_device_json env now port (n\<lparr>posts := p, bearer_token := b\<rparr>) = make_device_json env now port n"
  by (simp_all add: make_node_json_def make_device_json_def)

lemma sendRequests_sent:
  assumes "sendRequests env (bs @ ''/resource'') port n = (n', ok)"
  obtains p b where "n' = n\<lparr>posts := p, bearer_token := b\<rparr>"
    "ok \<Longrightarrow> p = posts n @ registration env bs port n' \<and> accepted_from env (posts n) (registration env bs port n')"
proof -
  let ?url = "bs @ ''/resource''"
  define b where "b = (case bearer_env env of None \<Rightarrow> [] | Some b \<Rightarrow> b)"
  obtain n2 ok2 where n2: "http_post_json env ?url (make_node_json env (clock env 0) port n) b (n\<lparr>bearer_token := b\<rparr>) = (n2, ok2)"
    by fastforce
  moreover have pb: "posts (n\<lparr>bearer_token := b\<rparr>) = posts n" by simp
  ultimately obtain p2 where "n2 = n\<lparr>bearer_token := b, posts := p2\<rparr>"
    and post2: "ok2 \<longrightarrow> p2 = posts n @ [post_request ?url (make_node_json env (clock env 0) port n) b]
       \<and> accepted (curl env (posts n) (post_request ?url (make_node_json env (clock env 0) port n) b))" using http_post_json_posts [OF n2, unfolded pb] by blast
  then have p2: "n2 = n\<lparr>posts := p2, bearer_token := b\<rparr>" by simp
  show ?thesis
  proof (cases ok2)
    case False
    with assms n2 have "n' = n2" "\<not> ok" by (simp_all add: sendRequests_def b_def Let_def)
    with p2 that show ?thesis by blast
  next
    case True
    with assms n2 p2 have "http_post_json env ?url (make_device_json env (clock env 1) port n) b n2 = (n', ok)"
      by (simp add: sendRequests_def b_def Let_def)
    moreover have "posts n2 = p2" "n2\<lparr>posts := p\<rparr> = n\<lparr>posts := p, bearer_token := b\<rparr>" for p using p2 by simp_all
    ultimately obtain p where "n' = n\<lparr>posts := p, bearer_token := b\<rparr>"
      "ok \<longrightarrow> p = p2 @ [post_request ?url (make_device_json env (clock env 1) port n) b]
         \<and> accepted (curl env p2 (post_request ?url (make_device_json env (clock env 1) port n) b))" using http_post_json_posts by metis
    with post2 True that [of b p] show ?thesis by (auto simp: registration_def accepted_from_def less_Suc_eq)
  qed
qed

text \<open>
  C37: a node that reports success has registered at the best registry it found: it has sent the node
  and then the device to it, with its token, both were accepted, and its timer reports to the same
  registry under the id it was registered with. When anything fails no timer is started and no slot
  is connected, and the reported code is not OK.
\<close>

theorem nmos_init_registers:
  assumes "nmos_init env port n = (n', code)" "sorts_by_priority (sorter env)"
  shows "(code = NodeOK \<longrightarrow> (\<exists>c. best_registry ''v1.3'' (candidates n') c
            \<and> (let bs = registry_base ''v1.3'' c in
                posts n' = posts n @ registration env bs port n' \<and> accepted_from env (posts n) (registration env bs port n')
                \<and> beat_urls n' = beat_urls n @ [bs @ ''/health/nodes/'' @ node_id n'])
            \<and> heartbeat_of n' = hb_start (heartbeat_of n)))
     \<and> (code \<noteq> NodeOK \<longrightarrow> heartbeat_of n' = heartbeat_of n \<and> beat_urls n' = beat_urls n)"
proof -
  define n1 where "n1 = fold client_cb (client_events env) (n\<lparr>simple_poll := True, poll_quit := False\<rparr>)"
  define n2 where "n2 = runDiscovery (events env) (n1\<lparr>client := True, sb := True\<rparr>)"
  have keep: "heartbeat_of n1 = heartbeat_of n" "beat_urls n1 = beat_urls n" "posts n1 = posts n"
    "heartbeat_of n2 = heartbeat_of n" "beat_urls n2 = beat_urls n" "posts n2 = posts n"
    by (simp_all add: n1_def n2_def)
  obtain cands sel where ch: "choose_registry_and_build_base (sorter env) ''v1.3'' (candidates n2) = (cands, sel)" by fastforce
  note best = choose_registry_best [OF assms(2) ch]
  obtain n4 found where n4: "get_node_iface env (rg_addr (hd cands)) (n2\<lparr>candidates := cands\<rparr>) = (n4, found)" by fastforce
  note k4 = get_node_iface_keeps [OF this]
  define n5 where "n5 = n4\<lparr>node_id := random_uuid (draws env 0), dev_id := random_uuid (draws env 1)\<rparr>"
  show ?thesis
  proof (cases "poll_ok env \<and> client_ok env \<and> \<not> CLIENT_FAILURE n1 \<and> browser_ok env \<and> sel \<noteq> None \<and> found")
    case False
    with assms(1) ch n4 keep k4 show ?thesis
      by (auto simp: nmos_init_def Let_def n1_def [symmetric] n2_def [symmetric] split: if_splits prod.splits option.splits)
  next
    case True
    then obtain rs where rs: "sel = Some rs" by blast
    obtain n6 sent where n6: "sendRequests env (base rs @ ''/resource'') port n5 = (n6, sent)" by fastforce
    have n': "(n', code) = (if \<not> sent then (n6, REGISTRATION_FAILED) else (startHeartbeat (base rs) n6, NodeOK))"
      using assms(1) True ch n4 n6 rs
      by (simp add: nmos_init_def Let_def n1_def [symmetric] n2_def [symmetric] n5_def)
    from sendRequests_sent [OF n6] obtain p b where p: "n6 = n5\<lparr>posts := p, bearer_token := b\<rparr>"
      "sent \<Longrightarrow> p = posts n5 @ registration env (base rs) port n6 \<and> accepted_from env (posts n5) (registration env (base rs) port n6)" by blast
    have n5: "heartbeat_of n5 = heartbeat_of n" "beat_urls n5 = beat_urls n" "posts n5 = posts n" "candidates n5 = cands"
      using keep k4 by (simp_all add: n5_def)
    have reg: "registration env bs port (startHeartbeat bs n6) = registration env bs port n6" for bs
      by (simp add: registration_def startHeartbeat_def make_node_json_def make_device_json_def)
    from best rs obtain c where c: "best_registry ''v1.3'' cands c" "base rs = registry_base ''v1.3'' c"
      by (auto simp: best_registry_def)
    show ?thesis
    proof (cases sent)
      case False
      with n' p(1) n5 show ?thesis by simp
    next
      case True
      with n' have ok: "n' = startHeartbeat (base rs) n6" "code = NodeOK" by simp_all
      with p(1) n5 have "candidates n' = cands" "posts n' = p" "heartbeat_of n' = hb_start (heartbeat_of n)"
        "beat_urls n' = beat_urls n @ [base rs @ ''/health/nodes/'' @ node_id n']"
        by (simp_all add: startHeartbeat_def)
      moreover from ok(1) have "registration env (base rs) port n' = registration env (base rs) port n6" by (simp only: reg)
      ultimately show ?thesis using c p(2) [OF True] n5(3) ok(2) by (metis NodeCode.distinct(1))
    qed
  qed
qed

text \<open>Every emission of the timer sends one report to each registry the node has registered with.\<close>

lemma nmos_beat_reports:
  assumes "\<forall>sent req. curl env sent req \<noteq> NoHandle"
  shows "nmos_beat env n = n\<lparr>posts := posts n @ map (\<lambda>url. post_request url ''{}'' (bearer_token n)) (beat_urls n)\<rparr>"
proof -
  have "fold (\<lambda>url m. fst (http_post_json env url ''{}'' (bearer_token m) m)) urls n
      = n\<lparr>posts := posts n @ map (\<lambda>url. post_request url ''{}'' (bearer_token n)) urls\<rparr>" for urls n
    using assms by (induction urls arbitrary: n) (simp_all add: http_post_json_def Let_def)
  then show ?thesis by (simp add: nmos_beat_def)
qed

text \<open>An example: two registries, the better of which only speaks an older version.\<close>

definition ex_env :: nmos_env where
  "ex_env = \<lparr>poll_ok = True, client_ok = True, client_events = [False], browser_ok = True,
     events = [BrowserNew ''a'' True, ResolverFound ''a'' ''old.local'' ''10.0.0.7'' 80 [Some (''pri'', Some ''1''), Some (''api_ver'', Some ''v1.2'')],
               ResolverFound ''b'' ''new.local'' ''192.168.1.9'' 80 [Some (''pri'', Some ''5''), Some (''api_ver'', Some ''v1.2,v1.3'')]],
     sorter = sort_key priority, socket_ok = True,
     interfaces = Some [\<lparr>if_name = ''lan'', if_up = True, if_ipv4 = Some ''192.168.1.2'', if_mac = None\<rparr>,
                        \<lparr>if_name = ''eth0'', if_up = True, if_ipv4 = Some ''10.0.0.2'', if_mac = None\<rparr>],
     draws = (\<lambda>_ _. 0), clock = (\<lambda>i. i), bearer_env = None, curl = (\<lambda>_ _. Answered 201), serialize = (\<lambda>_. ''{}'')\<rparr>"

lemma ex_sorts: "sorts_by_priority (sorter ex_env)"
  by (simp add: sorts_by_priority_def ex_env_def)

definition ex_node :: nmos_node where
  "ex_node = NmosNode ''d'' ''n'' ''x'' ''m''"

definition ex_found :: nmos_node where
  "ex_found = runDiscovery (events ex_env) (ex_node\<lparr>simple_poll := True, poll_quit := False, client := True, sb := True\<rparr>)"

lemma ex_chosen:
  "map_option base (snd (choose_registry_and_build_base (sorter ex_env) ''v1.3'' (candidates ex_found)))
     = Some ''http://new.local:80/x-nmos/registration/v1.3''"
  "rg_addr (hd (fst (choose_registry_and_build_base (sorter ex_env) ''v1.3'' (candidates ex_found)))) = ''10.0.0.7''"
  by code_simp+

lemma ex_iface:
  "find (if_matches (before_last_dot ''10.0.0.7'')) (the (interfaces ex_env))
     = Some \<lparr>if_name = ''eth0'', if_up = True, if_ipv4 = Some ''10.0.0.2'', if_mac = None\<rparr>"
  by (simp add: ex_env_def if_matches_def before_last_dot_def)

lemma ex_iface_found: "\<exists>i m. get_node_iface ex_env ''10.0.0.7'' n = (n\<lparr>ipv4 := ''10.0.0.2'', iface := i, mac := m\<rparr>, True)"
proof -
  obtain ifs where "socket_ok ex_env" "interfaces ex_env = Some ifs" by (simp add: ex_env_def)
  then show ?thesis using ex_iface by (simp add: get_node_iface_def) blast
qed

lemma ex_sent: "snd (sendRequests ex_env url port n)"
  by (simp add: sendRequests_def http_post_json_def accepted_def ex_env_def Let_def split: prod.splits)

lemma ex_init:
  "\<exists>n5. nmos_init ex_env port ex_node
     = (startHeartbeat ''http://new.local:80/x-nmos/registration/v1.3''
          (fst (sendRequests ex_env ''http://new.local:80/x-nmos/registration/v1.3/resource'' port n5)), NodeOK)
     \<and> ipv4 n5 = ''10.0.0.2'' \<and> beat_urls n5 = []"
proof -
  obtain cands rs where ch: "choose_registry_and_build_base (sorter ex_env) ''v1.3'' (candidates ex_found) = (cands, Some rs)"
    "base rs = ''http://new.local:80/x-nmos/registration/v1.3''" "rg_addr (hd cands) = ''10.0.0.7''"
    using ex_chosen by (cases "choose_registry_and_build_base (sorter ex_env) ''v1.3'' (candidates ex_found)") auto
  obtain i m where "get_node_iface ex_env ''10.0.0.7'' (ex_found\<lparr>candidates := cands\<rparr>)
      = (ex_found\<lparr>candidates := cands, ipv4 := ''10.0.0.2'', iface := i, mac := m\<rparr>, True)" using ex_iface_found by blast
  then have iface: "get_node_iface ex_env (rg_addr (hd cands)) (ex_found\<lparr>candidates := cands\<rparr>)
      = (ex_found\<lparr>candidates := cands, ipv4 := ''10.0.0.2'', iface := i, mac := m\<rparr>, True)" using ch(3) by simp
  have up: "poll_ok ex_env" "client_ok ex_env" "browser_ok ex_env" "client_events ex_env = [False]" by (simp_all add: ex_env_def)
  have start: "client_cb False n = n" "\<not> CLIENT_FAILURE (ex_node\<lparr>simple_poll := True, poll_quit := False\<rparr>)" for n
    by (simp_all add: client_cb_def ex_node_def NmosNode_def)
  have urls: "beat_urls ex_found = []" by (simp add: ex_found_def ex_node_def NmosNode_def)
  define n5 where "n5 = ex_found\<lparr>candidates := cands, ipv4 := ''10.0.0.2'', iface := i, mac := m,
      node_id := random_uuid (draws ex_env 0), dev_id := random_uuid (draws ex_env 1)\<rparr>"
  obtain n6 where n6: "sendRequests ex_env (''http://new.local:80/x-nmos/registration/v1.3'' @ ''/resource'') port n5 = (n6, True)"
    using ex_sent [of "''http://new.local:80/x-nmos/registration/v1.3'' @ ''/resource''" port n5]
    by (cases "sendRequests ex_env (''http://new.local:80/x-nmos/registration/v1.3'' @ ''/resource'') port n5") simp
  have n1: "fold client_cb (client_events ex_env) (ex_node\<lparr>simple_poll := True, poll_quit := False\<rparr>)
      = ex_node\<lparr>simple_poll := True, poll_quit := False\<rparr>" by (simp only: up start(1) fold_simps)
  have "nmos_init ex_env port ex_node = (startHeartbeat ''http://new.local:80/x-nmos/registration/v1.3'' n6, NodeOK)"
    unfolding nmos_init_def
    by (simp only: Let_def up(1-3) start(2) n1 ex_found_def [symmetric] ch(1,2) prod.case option.case iface n5_def [symmetric] n6 not_True_eq_False if_False)
  with n6 urls show ?thesis by (intro exI [of _ n5]) (simp add: n5_def)
qed

theorem nmos_init_registers_witness:
  "\<exists>n'. nmos_init ex_env 8080 ex_node = (n', NodeOK) \<and> length (posts n') = 2 \<and> hb_running (heartbeat_of n')"
proof -
  obtain n' where n': "nmos_init ex_env 8080 ex_node = (n', NodeOK)" using ex_init by blast
  with nmos_init_registers [OF n' ex_sorts] show ?thesis
    by (auto simp: ex_node_def NmosNode_def registration_def hb_start_def Heartbeat_def Let_def)
qed

text \<open>
  The interface is looked up by the address of the best registry of any version, not of the one that
  was chosen: in the example the node announces an address the chosen registry may not reach.
\<close>

lemma interface_of_another_registry:
  "\<exists>n'. nmos_init ex_env port ex_node = (n', NodeOK) \<and> ipv4 n' = ''10.0.0.2''
     \<and> beat_urls n' = [''http://new.local:80/x-nmos/registration/v1.3/health/nodes/'' @ node_id n']"
proof -
  obtain n5 where n5: "nmos_init ex_env port ex_node
     = (startHeartbeat ''http://new.local:80/x-nmos/registration/v1.3''
          (fst (sendRequests ex_env ''http://new.local:80/x-nmos/registration/v1.3/resource'' port n5)), NodeOK)"
    "ipv4 n5 = ''10.0.0.2''" "beat_urls n5 = []" using ex_init by blast
  obtain n6 ok where n6: "sendRequests ex_env (''http://new.local:80/x-nmos/registration/v1.3'' @ ''/resource'') port n5 = (n6, ok)"
    by fastforce
  from sendRequests_sent [OF n6] obtain p b where "n6 = n5\<lparr>posts := p, bearer_token := b\<rparr>" by blast
  with n5 n6 show ?thesis by (simp add: startHeartbeat_def)
qed

text \<open>A search for an interface that finds none leaves its socket open.\<close>

lemma failed_search_leaks_socket:
  "open_fds (fst (get_node_iface ex_env ''172.16.0.1'' ex_node)) = 1"
  by code_simp

end
