(* ===== verification/Connection_Props.thy ===== *)
theory Connection_Props
  imports Catena_Config Rest_Http
begin

text \<open>
  \<^verbatim>\<open>ConnectionProps.cpp\<close>: a thread that serves one document, the connection settings of the service, to
  dashboards. What the sockets deliver is an argument: the outcomes of the successive calls of
  \<^verbatim>\<open>accept\<close> and of the reads.
\<close>

section \<open>The document\<close>

datatype ConnectionProtocol = ST2138_REST | ST2138_GRPC

fun protocolToString :: "ConnectionProtocol \<Rightarrow> string" where
  "protocolToString ST2138_REST = ''st2138-rest''"
| "protocolToString ST2138_GRPC = ''st2138-grpc''"

record connection_props =
  cp_protocol :: ConnectionProtocol
  refresh_interval :: u32
  cp_node_name :: string
  cp_node_id :: string
  service_name :: string
  cp_endpoint :: string
  response_content :: string
  cp_running :: bool
  acceptor_open :: bool
  server_thread :: bool

definition xml_entry :: "string \<Rightarrow> string \<Rightarrow> string" where
  "xml_entry key val = ''    <entry key=\"'' @ key @ ''\">'' @ val @ ''</entry>'' @ [LF]"

definition generateXml :: "config \<Rightarrow> connection_props \<Rightarrow> string" where
  "generateXml conf cp =
     ''<properties version=\"1.0\">'' @ [LF] @ ''    <comment>DashBoard Device Connection Settings</comment>'' @ [LF]
     @ xml_entry ''base-url'' ((if dashboard_tls_enabled conf then ''https'' else ''http'') @ ''://'' @ hostname conf @ ''/'')
     @ xml_entry ''serviceUrl'' (service_name cp)
     @ xml_entry ''equipmentType'' ''catena''
     @ xml_entry ''address'' (hostname conf)
     @ xml_entry ''port'' (dec_of_nat (unat (port conf)))
     @ xml_entry ''connectionType'' (if dashboard_tls_enabled conf then ''SSL'' else ''TCP'')
     @ (if cp_node_id cp \<noteq> [] then xml_entry ''node-id'' (cp_node_id cp) else [])
     @ (if cp_node_name cp \<noteq> [] then xml_entry ''node-name'' (cp_node_name cp) else [])
     @ xml_entry ''index-url'' ''connect/connection-props.xml''
     @ xml_entry ''refresh-interval'' (dec_of_nat (unat (refresh_interval cp)))
     @ ''</properties>''"

definition ConnectionProps :: "config \<Rightarrow> ConnectionProtocol \<Rightarrow> u32 \<Rightarrow> string \<Rightarrow> string \<Rightarrow> string \<Rightarrow> string \<Rightarrow> connection_props" where
  "ConnectionProps conf protocol interval name ident service endp =
     (let cp = \<lparr>cp_protocol = protocol, refresh_interval = interval, cp_node_name = name, cp_node_id = ident, service_name = service,
                cp_endpoint = endp, response_content = [], cp_running = False, acceptor_open = True, server_thread = False\<rparr> in
      cp\<lparr>response_content := generateXml conf cp\<rparr>)"

section \<open>Answering\<close>

definition crlf :: string where
  "crlf = [CR, LF]"

text \<open>A response with its body: the status line, the headers before and after the length.\<close>

definition http_text :: "string \<Rightarrow> string list \<Rightarrow> string list \<Rightarrow> string \<Rightarrow> string" where
  "http_text status before after body =
     status @ crlf @ concat (map (\<lambda>h. h @ crlf) before) @ ''Content-Length: '' @ dec_of_nat (length body) @ crlf
     @ concat (map (\<lambda>h. h @ crlf) after) @ crlf @ body"

definition generateResponse :: "connection_props \<Rightarrow> string \<Rightarrow> string" where
  "generateResponse cp path =
     (if path = cp_endpoint cp then
        http_text ''HTTP/1.1 200 OK'' [''Content-Type: application/xml'']
          [''Connection: close'', ''Access-Control-Allow-Origin: *'', ''Access-Control-Allow-Methods: GET, OPTIONS'',
           ''Access-Control-Allow-Headers: Content-Type''] (response_content cp)
      else if path = ''/health'' then
        http_text ''HTTP/1.1 200 OK'' [''Content-Type: text/plain''] [''Connection: close''] ''OK''
      else
        http_text ''HTTP/1.1 404 Not Found'' [''Content-Type: text/plain''] [''Connection: close''] ''Not Found'')"

text \<open>What was read: the bytes, up to the end of the headers or of the input; None when the read failed.\<close>

definition cp_handleRequest :: "connection_props \<Rightarrow> string option \<Rightarrow> string list" where
  "cp_handleRequest cp request =
     (case request of
        None \<Rightarrow> []
      | Some bytes \<Rightarrow>
          (let (meth, rest) = next_word bytes; (path, _) = next_word rest in
           if meth \<noteq> ''GET'' then
             [http_text ''HTTP/1.1 405 Method Not Allowed'' [''Allow: GET'', ''Content-Type: text/plain''] [''Connection: close'']
                (''Method Not Allowed'' @ [LF])]
           else [generateResponse cp path]))"

section \<open>The server\<close>

text \<open>
  One round of the loop of the thread: a connection with what it sends, an error of \<^verbatim>\<open>accept\<close>, or the
  abortion of \<^verbatim>\<open>accept\<close>. \<open>stopped\<close> is the flag that \<^verbatim>\<open>stop\<close> sets, as the thread sees it after the wait.
\<close>

datatype accept_result = Accepted "string option" | AcceptError | AcceptAborted

fun cp_run :: "connection_props \<Rightarrow> (bool \<times> accept_result) list \<Rightarrow> string list list \<times> bool" where
  "cp_run cp [] = ([], True)"
| "cp_run cp ((stopped, Accepted request) # rs) =
     (if stopped then ([], False)
      else (let (out, alive) = cp_run cp rs in (cp_handleRequest cp request # out, alive)))"
| "cp_run cp ((stopped, AcceptError) # rs) = (if stopped then ([], False) else cp_run cp rs)"
| "cp_run cp ((stopped, AcceptAborted) # rs) = ([], False)"

definition cp_start :: "connection_props \<Rightarrow> connection_props \<times> bool" where
  "cp_start cp = (if cp_running cp then (cp, False) else (cp\<lparr>cp_running := True, server_thread := True\<rparr>, True))"

text \<open>The flag is cleared, the thread is woken by a connection and joined, and the acceptor is closed.\<close>

definition cp_stop :: "connection_props \<Rightarrow> connection_props" where
  "cp_stop cp = (if \<not> cp_running cp then cp else cp\<lparr>cp_running := False, server_thread := False, acceptor_open := False\<rparr>)"

section \<open>What clients get\<close>

lemma request_words:
  assumes "list_all (\<lambda>c. \<not> is_space c) meth" "meth \<noteq> []" "list_all (\<lambda>c. \<not> is_space c) path" "path \<noteq> []"
  shows "next_word (meth @ '' '' @ path @ '' '' @ rest) = (meth, '' '' @ path @ '' '' @ rest)"
    and "next_word ('' '' @ path @ '' '' @ rest) = (path, '' '' @ rest)"
proof -
  have sp: "is_space CHR '' ''" by code_simp
  show "next_word (meth @ '' '' @ path @ '' '' @ rest) = (meth, '' '' @ path @ '' '' @ rest)"
    using next_word_word [OF assms(1,2) sp] by simp
  show "next_word ('' '' @ path @ '' '' @ rest) = (path, '' '' @ rest)"
    using next_word_space [OF sp] next_word_word [OF assms(3,4) sp] by simp
qed

text \<open>
  A request for the endpoint is answered with the document of the settings, announced with its
  length; the health check, other paths and other methods get the answers meant for them.
\<close>

theorem connection_props_answers:
  assumes "list_all (\<lambda>c. \<not> is_space c) meth" "meth \<noteq> []" "list_all (\<lambda>c. \<not> is_space c) path" "path \<noteq> []"
    and "cp = ConnectionProps conf protocol interval name ident service endp"
  shows "\<exists>status before after body. cp_handleRequest cp (Some (meth @ '' '' @ path @ '' '' @ rest)) = [http_text status before after body]
     \<and> (meth = ''GET'' \<and> path = endp \<longrightarrow> status = ''HTTP/1.1 200 OK'' \<and> body = generateXml conf cp)
     \<and> (meth = ''GET'' \<and> path \<notin> {endp, ''/health''} \<longrightarrow> status = ''HTTP/1.1 404 Not Found'')
     \<and> (meth \<noteq> ''GET'' \<longrightarrow> status = ''HTTP/1.1 405 Method Not Allowed'')"
proof -
  have "cp_handleRequest cp (Some (meth @ '' '' @ path @ '' '' @ rest))
      = (if meth \<noteq> ''GET'' then
           [http_text ''HTTP/1.1 405 Method Not Allowed'' [''Allow: GET'', ''Content-Type: text/plain''] [''Connection: close'']
              (''Method Not Allowed'' @ [LF])]
         else [generateResponse cp path])"
    unfolding cp_handleRequest_def option.case request_words(1) [OF assms(1-4)] Let_def prod.case
    by (simp only: request_words(2) [OF assms(1-4)] prod.case)
  moreover have "cp_endpoint cp = endp" "response_content cp = generateXml conf cp"
    by (simp_all add: assms(5) ConnectionProps_def generateXml_def Let_def)
  ultimately show ?thesis by (auto simp: generateResponse_def)
qed

text \<open>Until it is stopped the server answers one connection after the other; errors of \<^verbatim>\<open>accept\<close> do not end it.\<close>

lemma cp_run_serves:
  "list_all (\<lambda>(stopped, r). \<not> stopped \<and> r \<noteq> AcceptAborted) rs \<Longrightarrow>
     cp_run cp rs = (map (cp_handleRequest cp) (concat (map (\<lambda>(_, r). case r of Accepted q \<Rightarrow> [q] | _ \<Rightarrow> []) rs)), True)"
  by (induction cp rs rule: cp_run.induct) auto

lemma cp_run_stops:
  "list_all (\<lambda>(stopped, r). \<not> stopped \<and> r \<noteq> AcceptAborted) rs \<Longrightarrow>
     cp_run cp (rs @ (True, r) # rs') = (fst (cp_run cp rs), False)"
  by (induction cp rs rule: cp_run.induct) (cases r; auto split: prod.splits)+

text \<open>
  \<^verbatim>\<open>stop\<close> closes the acceptor and nothing opens it again: a server that is started a second time has a
  thread for which every \<^verbatim>\<open>accept\<close> fails, and which spins.
\<close>

lemma restart_spins:
  "cp_running cp \<Longrightarrow> \<not> acceptor_open (fst (cp_start (cp_stop cp))) \<and> cp_running (fst (cp_start (cp_stop cp)))
     \<and> cp_run cp (replicate n (False, AcceptError)) = ([], True)"
  by (induction n) (simp_all add: cp_start_def cp_stop_def)

text \<open>Values are written into the document as they are, so a name with markup breaks it.\<close>

lemma xml_not_escaped: "xml_entry ''node-name'' ''<a>'' = ''    <entry key=\"node-name\"><a></entry>'' @ [LF]"
  by (simp add: xml_entry_def)

end
