(* ===== verification/Spec2Isabelle.thy ===== *)
theory Spec2Isabelle
  imports Rpc_Connect Rpc_Command Rpc_Credentials Rest_Asset Rest_Server Catena_Patterns Nmos_Node Connection_Props
begin

text \<open>
  \<^bold>\<open>Catena, the C++ SDK for SMPTE ST 2138 devices.\<close>

  A Catena device is a tree of parameters that clients read, set and subscribe to by json
  pointers, under access scopes taken from a token. This development models the common library
  (\<^verbatim>\<open>src/sdks/cpp/common\<close>), the core of the SDK, and the two services that serve devices to
  clients: gRPC (\<^verbatim>\<open>src/sdks/cpp/connections/gRPC\<close>) and REST (\<^verbatim>\<open>src/sdks/cpp/connections/REST\<close>).

  \<^bold>\<open>Theories\<close>, each imports the ones it builds on:

  \<^item> \<open>Catena_Prelude\<close>: machine integers, status codes (\<^verbatim>\<open>Status.h\<close>), the result type \<open>'a res\<close> with
    its three outcomes (a value, a C++ exception, undefined behaviour), string operations.
  \<^item> \<open>Catena_Utils\<close> (\<^verbatim>\<open>utils.cpp\<close>): substitution, splitting, base64, time stamps.
  \<^item> \<open>Catena_Path\<close> (\<^verbatim>\<open>Path.h\<close>, \<^verbatim>\<open>Path.cpp\<close>): parsing, cursor, printing of json pointers.
  \<^item> \<open>Float32\<close>: IEEE single precision numbers as the constraints use them.
  \<^item> \<open>Catena_Value\<close>: the protobuf values; \<open>Catena_Constraint\<close> (\<^verbatim>\<open>RangeConstraint.h\<close>,
    \<^verbatim>\<open>ChoiceConstraint.cpp\<close>): range and choice constraints.
  \<^item> \<open>Catena_Authorizer\<close> (\<^verbatim>\<open>Authorizer.cpp\<close>): tokens and scopes; \<open>Catena_Descriptor\<close>
    (\<^verbatim>\<open>ParamDescriptor.cpp\<close>): descriptor trees, inherited scopes and read-only flags, limits.
  \<^item> \<open>Struct_Info\<close>, \<open>Struct_Props\<close>, \<open>Struct_Roundtrip\<close> (\<^verbatim>\<open>StructInfo.h\<close>, \<^verbatim>\<open>StructInfo.cpp\<close>): the
    conversion between values of C++ types and protobuf values. The templates are functions on
    a datatype of the types the code generator produces.
  \<^item> \<open>Param_Value\<close> (\<^verbatim>\<open>ParamWithValue.h\<close>): handles on stored values, navigation, validation.
  \<^item> \<open>Catena_Device\<close>, \<open>Device_Set\<close>, \<open>Device_Stream\<close> (\<^verbatim>\<open>Device.h\<close>, \<^verbatim>\<open>Device.cpp\<close>): the state of a device
    as a record, lookup, get, the two phases of a multi-set, language packs, menus, the device
    message and the component serializer.
  \<^item> \<open>Catena_Subscription\<close> (\<^verbatim>\<open>ParamVisitor.cpp\<close>, \<^verbatim>\<open>SubscriptionManager.cpp\<close>): the traversal of the
    parameter tree and the subscriptions.
  \<^item> \<open>Connection_Queue\<close> (\<^verbatim>\<open>rpc/Connect.h\<close>, \<^verbatim>\<open>ConnectionQueue.cpp\<close>): the priority of a connection, the
    push updates it is given, and the bounded queue of connections.
  \<^item> \<open>Rpc_Core\<close> (\<^verbatim>\<open>ServiceImpl.cpp\<close>, \<^verbatim>\<open>CallData.h\<close>): the service with its registry of call objects, tokens
    and time stamps from the meta data, the delivery of device signals to connections, and the
    state machine that the unary calls share.
  \<^item> \<open>Rpc_Unary\<close>: \<^verbatim>\<open>GetValue\<close>, \<^verbatim>\<open>SetValue\<close>, \<^verbatim>\<open>MultiSetValue\<close>, \<^verbatim>\<open>GetParam\<close>, \<^verbatim>\<open>AddLanguage\<close>,
    \<^verbatim>\<open>ListLanguages\<close>, \<^verbatim>\<open>LanguagePackRequest\<close>, \<^verbatim>\<open>GetPopulatedSlots\<close>. The locale \<open>unary_controller\<close> states
    what the work of such a call promises and proves once that the call is then answered once.
  \<^item> \<open>Rpc_Stream\<close>: \<^verbatim>\<open>DeviceRequest\<close>, \<^verbatim>\<open>UpdateSubscriptions\<close>, \<^verbatim>\<open>ParamInfoRequest\<close>; the locale \<open>stream_call\<close>
    proves once that a call that writes one message per event streams all of them and finishes.
  \<^item> \<open>Rpc_Connect\<close>: \<^verbatim>\<open>Connect\<close>, as a step relation over the service and the open connections.
  \<^item> \<open>Rpc_Command\<close>: \<^verbatim>\<open>ExecuteCommand\<close>, with the implementations of the commands as an argument, and
    \<^verbatim>\<open>ExternalObjectRequest\<close>, with the file system and the digest as arguments.
  \<^item> \<open>Rest_Http\<close> (\<^verbatim>\<open>SocketReader.cpp\<close>, \<^verbatim>\<open>SocketWriter.cpp\<close>): reading requests, status codes, the writer
    that sends one response and the writer of server-sent events.
  \<^item> \<open>Rest_Service\<close> (\<^verbatim>\<open>ServiceImpl.cpp\<close> of REST and its controllers with one answer): \<open>handle_request\<close> is the
    body of the thread of a request, \<open>route\<close> the choice of the controller. The locale
    \<open>rest_controller\<close> states what a controller promises the routing.
  \<^item> \<open>Rest_Stream\<close>: the REST controllers that may stream, \<^verbatim>\<open>DeviceRequest\<close>, \<^verbatim>\<open>ExecuteCommand\<close>,
    \<^verbatim>\<open>Subscriptions\<close>, \<^verbatim>\<open>ParamInfoRequest\<close>; the locale \<open>rest_streamer\<close> is their contract.
  \<^item> \<open>Rest_Asset\<close> (\<^verbatim>\<open>AssetRequest.cpp\<close>): files fetched, stored, replaced and deleted, with compression.
  \<^item> \<open>Rest_Connect\<close> (\<^verbatim>\<open>Connect.cpp\<close> of REST): connections over REST, as a step relation.
  \<^item> \<open>Rest_Server\<close> (\<^verbatim>\<open>run\<close> and \<^verbatim>\<open>Shutdown\<close> of \<^verbatim>\<open>ServiceImpl.cpp\<close>): the loop that accepts connections, the
    threads of the requests with their counter, and the end of the service, as a step relation.
  \<^item> \<open>Catena_Patterns\<close> (\<^verbatim>\<open>EnumDecorator.h\<close>, \<^verbatim>\<open>GenericFactory.h\<close>): enumerations with names, under the locale
    \<open>named_enum\<close>, and the factory that holds the routing table of the REST service.
  \<^item> \<open>Catena_Config\<close> (\<^verbatim>\<open>Config.cpp\<close>): the settings from options and environment; \<open>Connection_Props\<close>
    (\<^verbatim>\<open>ConnectionProps.cpp\<close>): the server of the connection document; \<open>Rpc_Credentials\<close>
    (\<^verbatim>\<open>ServiceCredentials.cpp\<close>): the credentials of the gRPC server and its token processor.
  \<^item> \<open>Heartbeat\<close> (\<^verbatim>\<open>Heartbeat.cpp\<close>): the timer and its thread, as sequences of actions; \<open>Nmos_Node\<close>
    (\<^verbatim>\<open>NmosNode.cpp\<close>): the discovery of registries, the registration of node and device, the heartbeat.

  \<^bold>\<open>State.\<close> A device is the record \<open>device\<close>; its parameters are association lists from oids to a
  C++ type, a value and a descriptor. A parameter handle is a location in that store. A C++
  exception that leaves a call is \<open>Throw\<close>, a null dereference or an overflow of a signed integer
  is \<open>Undef\<close>; statuses are the value of the functions. Unordered maps are association lists in
  their iteration order. Signals emitted are appended to \<open>emitted\<close>. The service is the record
  \<open>service\<close>; call objects and connections are numbered, and the registry, the queue and the signals
  hold the numbers, as the code holds pointers. An event of the completion queue is one
  \<open>_proceed\<close>; what is written to the client is appended to \<open>cl_out\<close>. The REST service is the same record without
  the registry: a request is handled by one call that returns the new service and what was written
  to the socket, and the object of a connection lives as long as the thread of its request.

  \<^bold>\<open>What the theorems show.\<close> Single sets are safe and atomic; accepted multi-sets on different
  parameters commit completely and as the single sets would; whatever calls arrive, types,
  descriptors and shipped language packs stay; values stay within their limits; conversion round
  trips; nothing is reported, serialised, streamed or subscribed that the client may not read;
  lookup, reading, subscribing and serialising always return. For the service: every unary call
  is answered exactly once and its object leaves the registry; a set over gRPC is the set of the
  device followed by the update of exactly the connections attached to it; calls without a valid
  token are refused; streams send all their messages and end; commands run to their end; the queue keeps the best connections
  within its limit, evicted connections end, and no pointer to a connection outlives its object.
  For REST: the reader recovers what a client writes; every request is answered by one response or
  one stream; setting over REST is setting over gRPC; device requests deliver all components;
  assets change only for clients that may, as a map of names to contents would, and come back as
  they were sent; connections do not dangle; every connection that was accepted is answered before
  the service returns, and after a shutdown it returns when its requests do.
  For the rest of the library: a stopped timer is silent and stopping it ends; an NMOS node that
  reports success is registered at the best registry; settings are usable by the logger; the names of
  enumerations are read back; the router makes exactly what the service dispatches; the credentials are
  those of the settings.
  The remaining theorems are about the building blocks: paths, constraints, tokens, text
  utilities. Concrete lemmas record where the code goes wrong.

  \<^bold>\<open>Hypotheses.\<close> \<open>device_ok\<close> says what the generated device model provides: typed values,
  descriptors that match the types, well-formed ranges. \<open>names_ok\<close> says that parameters are
  registered under their own oid. \<open>addressable\<close> excludes the one index that collides with the
  marker for "no index". \<open>service_ok\<close> is an invariant: the initial service has it and every call
  keeps it. \<open>token_ok\<close> says that the expiry of a token fits 32 bits.
  \<open>codec_ok\<close> says that messages of a device can be written as nonempty json; the url library is asked to
  split a path and to throw only runtime errors; \<open>table_ok\<close> says that the implementations of commands
  return and keep \<open>service_ok\<close>, \<open>devices_named\<close> that devices satisfy \<open>names_ok\<close> and that commands are
  registered likewise (\<open>commands_ok\<close>). The compression library
  reads back its own streams, which is asked for in the round trip of assets only.
  The parser of options, the environment, the files, the clock, mDNS discovery, HTTP posts and the json of NMOS
  are arguments; \<open>sorts_by_priority\<close> is the law of \<^verbatim>\<open>std::sort\<close>. Clients of a timer call it one at a time.

  \<^bold>\<open>Fuel.\<close> The traversal of the parameter tree looks its children up by path, so its recursion is
  bounded by \<open>traverse_fuel\<close>, computed from the sizes of types and descriptors; the theorem on
  subscriptions shows that it is never used up. \<open>run\<close> counts the events of a stream; the theorems
  give their exact number. The expansion of environment variables need not end, so it is a partial function
  whose value is \<open>None\<close> when it does not; a theorem shows when it ends. Every other recursion has a
  termination proof.

  \<^bold>\<open>Not modelled.\<close> The JWT library (a parameter of \<open>Authorizer\<close>), the protobuf runtime beyond the
  accessors the sources use, the gRPC library with the loop on its completion queue, sockets, the url, json
  and compression libraries (parameters), the vendored signals library (an emission is a step), logging and
  the texts of log messages, the implementations of commands, the macros that generate the reflection
  tables, and code in other languages. Locks only order calls: a call on a device is one step, and so is the handling of an
  event, except that \<^verbatim>\<open>Connect\<close> waits for updates between two steps. The components a
  \<^verbatim>\<open>DeviceRequest\<close> streams are those of the device when its serializer was made.
\<close>

end
